(* ===== verification/Arkiv_Prelude.thy ===== *)
theory Arkiv_Prelude
  imports Main "HOL-Library.Word" "HOL-Library.AList" "HOL-Library.Sublist"
    "HOL-Library.Char_ord" "HOL-Library.List_Lexorder"
begin

text \<open>
  Shared vocabulary of the development: the Go types the code is written in (byte slices, strings,
  64-bit words, 32-byte hashes and 20-byte addresses), results that carry an error, the few
  functions of Go's standard library the code calls (\<open>encoding/binary\<close>, \<open>strings\<close>), and the generic
  lemmas on lists, options and words that the component theories rely on.

  A Go string is an immutable sequence of bytes and \<open>[]byte(s)\<close> / \<open>string(b)\<close> convert without
  changing a byte, so both are \<^typ>\<open>string\<close> (a list of 8-bit characters) here. The order on strings
  is the byte-wise lexicographic order, which is Go's \<open><\<close> on strings and the key order of the database.
\<close>

named_theorems go_simps \<open>unfolding rules of the models of Go's library functions\<close>
named_theorems res_simps \<open>rewriting of results that carry errors\<close>

section \<open>Types\<close>

type_synonym bytes = string
type_synonym uint64 = "64 word"
type_synonym uint32 = "32 word"
type_synonym hash = "256 word"
type_synonym address = "160 word"

text \<open>
  Errors. \<open>ErrNotFound\<close> is the database's "not found"; \<open>Errorf\<close> an error built with a format string,
  \<open>Wrapf\<close> one that wraps a cause with \<open>%w\<close> (the arguments of the other verbs are not rendered);
  \<open>Panic\<close> a run-time panic (nil dereference, slice out of range, explicit panic); \<open>LibErr\<close> an error
  made by a library, identified by its text.
\<close>

datatype err = ErrNotFound | Errorf string | Wrapf string err | Panic string | LibErr string

type_synonym 'a res = "err + 'a"

section \<open>Results\<close>

definition andThen :: "'a res \<Rightarrow> ('a \<Rightarrow> 'b res) \<Rightarrow> 'b res" where
  "andThen r f = (case r of Inl e \<Rightarrow> Inl e | Inr x \<Rightarrow> f x)"

text \<open>Wrapping happens to errors that are returned; a panic unwinds past it.\<close>

fun wrapE :: "string \<Rightarrow> err \<Rightarrow> err" where
  "wrapE m (Panic p) = Panic p"
| "wrapE m e = Wrapf m e"

definition wrapErr :: "string \<Rightarrow> 'a res \<Rightarrow> 'a res" where
  "wrapErr m r = (case r of Inl e \<Rightarrow> Inl (wrapE m e) | Inr x \<Rightarrow> Inr x)"

fun foldRes :: "('a \<Rightarrow> 's \<Rightarrow> 's res) \<Rightarrow> 'a list \<Rightarrow> 's \<Rightarrow> 's res" where
  "foldRes f [] s = Inr s"
| "foldRes f (x # xs) s = andThen (f x s) (foldRes f xs)"

definition okOption :: "'a res \<Rightarrow> 'a option" where
  "okOption r = (case r of Inl _ \<Rightarrow> None | Inr x \<Rightarrow> Some x)"

lemma andThen_simps [simp, res_simps]:
  "andThen (Inr x) f = f x" "andThen (Inl e) f = Inl e"
  by (simp_all add: andThen_def)

lemma andThen_eq_Inr [res_simps]:
  "andThen r f = Inr y \<longleftrightarrow> (\<exists>x. r = Inr x \<and> f x = Inr y)"
  by (cases r) auto

lemma andThen_eq_Inl [res_simps]:
  "andThen r f = Inl e \<longleftrightarrow> r = Inl e \<or> (\<exists>x. r = Inr x \<and> f x = Inl e)"
  by (cases r) auto

lemma wrapErr_simps [simp, res_simps]:
  "wrapErr m (Inr x) = Inr x" "wrapErr m (Inl e) = Inl (wrapE m e)"
  by (simp_all add: wrapErr_def)

lemma wrapErr_eq_Inr [simp, res_simps]: "wrapErr m r = Inr x \<longleftrightarrow> r = Inr x"
  by (cases r) auto

lemma okOption_simps [simp, res_simps]:
  "okOption (Inr x) = Some x" "okOption (Inl e) = None"
  by (simp_all add: okOption_def)

lemma okOption_eq_Some [simp, res_simps]: "okOption r = Some x \<longleftrightarrow> r = Inr x"
  by (cases r) auto

lemma okOption_eq_None: "okOption r = None \<longleftrightarrow> (\<exists>e. r = Inl e)"
  by (cases r) auto

lemma foldRes_append:
  "foldRes f (xs @ ys) s = andThen (foldRes f xs s) (foldRes f ys)"
proof (induction xs arbitrary: s)
  case (Cons x xs)
  then show ?case by (cases "f x s") auto
qed simp

text \<open>
  A fold of fallible steps keeps an invariant when each step does; the invariant may depend on the
  part of the list that has been processed.
\<close>

lemma foldRes_invariant:
  assumes "P [] s"
    and "\<And>done x rest s. xs = done @ x # rest \<Longrightarrow> P done s
      \<Longrightarrow> \<exists>s'. f x s = Inr s' \<and> P (done @ [x]) s'"
  shows "\<exists>s'. foldRes f xs s = Inr s' \<and> P xs s'"
  using assms
proof (induction xs arbitrary: s rule: rev_induct)
  case (snoc x xs)
  have "\<exists>s'. foldRes f xs s = Inr s' \<and> P xs s'"
    by (rule snoc.IH) (use snoc.prems in auto)
  then obtain s' where s': "foldRes f xs s = Inr s'" "P xs s'" by blast
  from snoc.prems(2)[of xs x "[]" s'] s'(2) obtain s'' where "f x s' = Inr s''" "P (xs @ [x]) s''"
    by auto
  with s'(1) show ?case by (simp add: foldRes_append)
qed simp

section \<open>Big-endian encoding\<close>

text \<open>
  \<open>be_bytes n v\<close> are the \<open>n\<close> low bytes of \<open>v\<close>, most significant first
  (\<open>binary.BigEndian.PutUint64\<close> for \<open>n = 8\<close>); \<open>be_nat\<close> reads a byte slice of any length back.
\<close>

fun be_bytes :: "nat \<Rightarrow> nat \<Rightarrow> bytes" where
  "be_bytes 0 v = []"
| "be_bytes (Suc n) v = be_bytes n (v div 256) @ [char_of v]"

definition be_nat :: "bytes \<Rightarrow> nat" where
  "be_nat b = foldl (\<lambda>v c. v * 256 + of_char c) 0 b"

lemma length_be_bytes [simp]: "length (be_bytes n v) = n"
  by (induction n arbitrary: v) auto

lemma be_nat_Nil [simp]: "be_nat [] = 0"
  by (simp add: be_nat_def)

lemma be_nat_snoc: "be_nat (b @ [c]) = be_nat b * 256 + of_char c"
  by (simp add: be_nat_def)

lemma of_char_char_of_nat [simp]: "of_char (char_of (n :: nat)) = n mod 256"
  by (simp add: of_char_of)

lemma be_nat_be_bytes: "be_nat (be_bytes n v) = v mod 256 ^ n"
proof (induction n arbitrary: v)
  case (Suc n)
  have "be_nat (be_bytes (Suc n) v) = (v div 256) mod 256 ^ n * 256 + v mod 256"
    using Suc by (simp add: be_nat_snoc)
  also have "\<dots> = v mod 256 ^ Suc n"
    by (simp add: mod_mult2_eq)
  finally show ?case .
qed simp

lemma be_nat_less: "be_nat b < 256 ^ length b"
proof (induction b rule: rev_induct)
  case (snoc c b)
  have "be_nat (b @ [c]) < be_nat b * 256 + 256"
    by (simp add: be_nat_snoc)
  also have "\<dots> = (be_nat b + 1) * 256" by simp
  also have "\<dots> \<le> 256 ^ length b * 256" using snoc by (intro mult_right_mono) auto
  finally show ?case by simp
qed simp

lemma be_bytes_be_nat: "be_bytes (length b) (be_nat b) = b"
proof (induction b rule: rev_induct)
  case (snoc c b)
  have "(be_nat b * 256 + of_char c) div 256 = be_nat b" by simp
  moreover have "char_of (be_nat b * 256 + (of_char c :: nat)) = c"
    by (rule of_char_eq_iff [where 'a = nat, THEN iffD1]) (simp only: of_char_char_of_nat, simp)
  ultimately show ?case using snoc by (simp add: be_nat_snoc)
qed simp

lemma be_bytes_inject:
  assumes "v < 256 ^ n" "w < 256 ^ n"
  shows "be_bytes n v = be_bytes n w \<longleftrightarrow> v = w"
  using assms be_nat_be_bytes by (metis mod_less)

lemma be_nat_Cons: "be_nat (c # b) = of_char c * 256 ^ length b + be_nat b"
proof (induction b rule: rev_induct)
  case Nil
  then show ?case by (simp add: be_nat_def)
next
  case (snoc d b)
  have "be_nat (c # b @ [d]) = be_nat (c # b) * 256 + of_char d"
    using be_nat_snoc[of "c # b" d] by simp
  with snoc show ?case by (simp add: be_nat_snoc algebra_simps)
qed

lemma char_less_of_char: "c < d \<longleftrightarrow> (of_char c :: nat) < of_char d"
  by (simp add: less_char_def)

text \<open>
  Byte order is numeric order: on slices of one length, the lexicographic order of the bytes is the
  order of the numbers they encode.
\<close>

lemma be_nat_less_iff:
  "length a = length b \<Longrightarrow> a < b \<longleftrightarrow> be_nat a < be_nat b"
proof (induction a b rule: list_induct2)
  case (Cons c a d b)
  let ?C = "of_char c :: nat" and ?D = "of_char d :: nat"
  have a: "be_nat a < 256 ^ length b" and b: "be_nat b < 256 ^ length b"
    using be_nat_less[of a] be_nat_less[of b] Cons.hyps by simp_all
  have step: "x * k + r < y * k + q" if "x < y" "r < k" for x y k r q :: nat
  proof -
    have "x * k + r < Suc x * k" using that(2) by simp
    also have "\<dots> \<le> y * k" using that(1) by (intro mult_right_mono) auto
    finally show ?thesis by simp
  qed
  have lt: "be_nat (c # a) < be_nat (d # b)" if "?C < ?D"
    using step[OF that a] Cons.hyps by (simp add: be_nat_Cons)
  have gt: "be_nat (d # b) < be_nat (c # a)" if "?D < ?C"
    using step[OF that b] Cons.hyps by (simp add: be_nat_Cons)
  show ?case
  proof (cases ?C ?D rule: linorder_cases)
    case less
    with lt show ?thesis by (simp add: char_less_of_char)
  next
    case equal
    with Cons.IH Cons.hyps show ?thesis by (simp add: be_nat_Cons)
  next
    case greater
    with gt show ?thesis by (auto simp: char_less_of_char)
  qed
qed simp

lemma be_bytes_less_iff:
  assumes "v < 256 ^ n" "w < 256 ^ n"
  shows "be_bytes n v < be_bytes n w \<longleftrightarrow> v < w"
  using assms be_nat_less_iff[of "be_bytes n v" "be_bytes n w"] by (simp add: be_nat_be_bytes)

section \<open>Fixed-size byte arrays\<close>

text \<open>
  \<open>common.Hash\<close> is \<open>[32]byte\<close> and \<open>common.Address\<close> is \<open>[20]byte\<close>. Both are held as words of that
  many bits; \<open>Bytes()\<close> lists the bytes, most significant first. \<open>BytesToHash\<close> and
  \<open>BytesToAddress\<close> crop a longer slice from the left and pad a shorter one with zeros on the left,
  which on words is taking the big-endian value modulo the width.
\<close>

definition hashBytes :: "hash \<Rightarrow> bytes" where
  "hashBytes h = be_bytes 32 (unat h)"

definition addrBytes :: "address \<Rightarrow> bytes" where
  "addrBytes a = be_bytes 20 (unat a)"

definition BytesToHash :: "bytes \<Rightarrow> hash" where
  "BytesToHash b = word_of_nat (be_nat b)"

definition BytesToAddress :: "bytes \<Rightarrow> address" where
  "BytesToAddress b = word_of_nat (be_nat b)"

definition uint64Bytes :: "uint64 \<Rightarrow> bytes" where
  "uint64Bytes v = be_bytes 8 (unat v)"

definition bytesUint64 :: "bytes \<Rightarrow> uint64" where
  "bytesUint64 b = word_of_nat (be_nat b)"

lemma unat_hash_less: "unat (h :: hash) < 256 ^ 32"
  using unsigned_less[where 'a = nat and w = h] by simp

lemma unat_addr_less: "unat (a :: address) < 256 ^ 20"
  using unsigned_less[where 'a = nat and w = a] by simp

lemma unat_uint64_less: "unat (v :: uint64) < 256 ^ 8"
  using unsigned_less[where 'a = nat and w = v] by simp

lemma length_hashBytes [simp]: "length (hashBytes h) = 32"
  by (simp add: hashBytes_def)

lemma length_addrBytes [simp]: "length (addrBytes a) = 20"
  by (simp add: addrBytes_def)

lemma length_uint64Bytes [simp]: "length (uint64Bytes v) = 8"
  by (simp add: uint64Bytes_def)

lemma BytesToHash_hashBytes [simp]: "BytesToHash (hashBytes h) = h"
  using unat_hash_less[of h] by (simp add: BytesToHash_def hashBytes_def be_nat_be_bytes)

lemma BytesToAddress_addrBytes [simp]: "BytesToAddress (addrBytes a) = a"
  using unat_addr_less[of a] by (simp add: BytesToAddress_def addrBytes_def be_nat_be_bytes)

lemma bytesUint64_uint64Bytes [simp]: "bytesUint64 (uint64Bytes v) = v"
  using unat_uint64_less[of v] by (simp add: bytesUint64_def uint64Bytes_def be_nat_be_bytes)

lemma hashBytes_inject [simp]: "hashBytes h = hashBytes h' \<longleftrightarrow> h = h'"
  by (metis BytesToHash_hashBytes)

lemma addrBytes_inject [simp]: "addrBytes a = addrBytes a' \<longleftrightarrow> a = a'"
  by (metis BytesToAddress_addrBytes)

lemma uint64Bytes_inject [simp]: "uint64Bytes v = uint64Bytes v' \<longleftrightarrow> v = v'"
  by (metis bytesUint64_uint64Bytes)

lemma hashBytes_neq_Nil [simp]: "hashBytes h \<noteq> []"
  by (metis length_hashBytes list.size(3) zero_neq_numeral)

lemma uint64Bytes_bytesUint64:
  assumes "length b = 8"
  shows "uint64Bytes (bytesUint64 b) = b"
proof -
  have "be_nat b < 2 ^ 64" using be_nat_less[of b] assms by simp
  then have "unat (word_of_nat (be_nat b) :: uint64) = be_nat b"
    by (simp add: unsigned_of_nat take_bit_nat_eq_self)
  then show ?thesis using be_bytes_be_nat[of b] assms
    by (simp add: uint64Bytes_def bytesUint64_def)
qed

lemma hashBytes_BytesToHash:
  assumes "length b = 32"
  shows "hashBytes (BytesToHash b) = b"
proof -
  have "be_nat b < 2 ^ 256" using be_nat_less[of b] assms by simp
  then have "unat (word_of_nat (be_nat b) :: hash) = be_nat b"
    by (simp add: unsigned_of_nat take_bit_nat_eq_self)
  then show ?thesis using be_bytes_be_nat[of b] assms
    by (simp add: hashBytes_def BytesToHash_def)
qed

lemma addrBytes_BytesToAddress:
  assumes "length b = 20"
  shows "addrBytes (BytesToAddress b) = b"
proof -
  have "be_nat b < 256 ^ 20" using be_nat_less[of b] assms by simp
  then have "unat (word_of_nat (be_nat b) :: address) = be_nat b"
    by (simp add: unsigned_of_nat take_bit_nat_eq_self_iff)
  then show ?thesis using be_bytes_be_nat[of b] assms by (simp add: addrBytes_def BytesToAddress_def)
qed

lemma uint64Bytes_less_iff: "uint64Bytes v < uint64Bytes w \<longleftrightarrow> v < w"
  by (simp add: uint64Bytes_def be_bytes_less_iff unat_uint64_less[simplified] word_less_nat_alt)

lemma uint64Bytes_le_iff: "uint64Bytes v \<le> uint64Bytes w \<longleftrightarrow> v \<le> w"
  by (simp add: linorder_not_less [symmetric] uint64Bytes_less_iff)

section \<open>Strings and lists\<close>

text \<open>
  \<open>strings.ToLower\<close>: on a string of ASCII bytes it lowers the letters byte by byte; on any other
  string it maps Unicode letters, which is the argument \<open>uni\<close> here.
\<close>

definition isASCII :: "string \<Rightarrow> bool" where
  "isASCII s = list_all (\<lambda>c. (of_char c :: nat) < 128) s"

definition lowerByte :: "char \<Rightarrow> char" where
  "lowerByte c = (if CHR ''A'' \<le> c \<and> c \<le> CHR ''Z'' then char_of (of_char c + 32 :: nat) else c)"

definition toLower :: "(string \<Rightarrow> string) \<Rightarrow> string \<Rightarrow> string" where
  "toLower uni s = (if isASCII s then map lowerByte s else uni s)"

text \<open>\<open>strings.TrimRight(s, "\x00")\<close>: drop trailing zero bytes.\<close>

definition trimRightNul :: "string \<Rightarrow> string" where
  "trimRightNul s = rev (dropWhile (\<lambda>c. c = CHR 0x00) (rev s))"

text \<open>Lowercase hexadecimal with a \<open>0x\<close> prefix.\<close>

definition hexDigits :: string where
  "hexDigits = ''0123456789abcdef''"

definition hexByte :: "char \<Rightarrow> string" where
  "hexByte c = [hexDigits ! (of_char c div 16), hexDigits ! (of_char c mod 16)]"

definition hex0x :: "bytes \<Rightarrow> string" where
  "hex0x b = ''0x'' @ concat (map hexByte b)"

text \<open>The first zero byte splits a string: the part before it and the part after it.\<close>

lemma split_at_nul:
  assumes "CHR 0x00 \<notin> set a" "CHR 0x00 \<notin> set a'"
  shows "a @ CHR 0x00 # b = a' @ CHR 0x00 # b' \<longleftrightarrow> a = a' \<and> b = b'"
  using assms
proof (induction a arbitrary: a')
  case Nil
  then show ?case by (cases a') auto
next
  case (Cons c a)
  then show ?case by (cases a') auto
qed

lemma word_less_plus_1: "n + 1 \<noteq> 0 \<Longrightarrow> n < n + (1 :: 'a :: len word)"
  using unatSuc[of n] by (simp add: word_less_nat_alt add.commute)

text \<open>Association lists are read through \<open>map_of\<close>, not through membership.\<close>

declare map_of_eq_Some_iff [simp del] Some_eq_map_of_iff [simp del]

lemma map_of_update_if [simp]:
  "map_of (AList.update k v al) k' = (if k' = k then Some v else map_of al k')"
  by (simp add: update_conv')

lemma map_of_delete_if [simp]:
  "map_of (AList.delete k al) k' = (if k' = k then None else map_of al k')"
  by (simp add: delete_conv')

end
