(* ===== verification/Wire_Types.thy ===== *)
theory Wire_Types
  imports Arkiv_Prelude
begin

text \<open>
  The data of \<open>types/types.go\<close>: the blocks, transactions and operations the execution extension
  forwards. Each struct is a record; field names carry a short prefix where two structs share a name.
  \<open>ArkivOperation\<close> is a struct of six pointers, of which exactly one is set after decoding; it is
  modelled as six optional fields so that the empty operation and the order of the dispatch stay
  visible.
\<close>

record Attribute =
  ValueType :: string
  Name :: string
  Value :: bytes

record ArkivBlockHeader =
  Number :: uint64
  Hash :: hash
  ParentHash :: hash
  ChangesetHash :: hash

record CreateOp =
  coOpIndex :: uint32
  coEntityKey :: hash
  coSender :: address
  coTxIndex :: uint32
  coOwner :: address
  coExpiresAt :: uint64
  coEntityHash :: hash
  coChangesetHash :: hash
  coPayload :: bytes
  coContentType :: string
  coAttributes :: "Attribute list"

record UpdateOp =
  uoOpIndex :: uint32
  uoEntityKey :: hash
  uoOwner :: address
  uoEntityHash :: hash
  uoChangesetHash :: hash
  uoPayload :: bytes
  uoContentType :: string
  uoAttributes :: "Attribute list"

record DeleteOp =
  doOpIndex :: uint32
  doEntityKey :: hash
  doOwner :: address
  doEntityHash :: hash
  doChangesetHash :: hash

record ExtendOp =
  eoOpIndex :: uint32
  eoEntityKey :: hash
  eoOwner :: address
  eoExpiresAt :: uint64
  eoEntityHash :: hash
  eoChangesetHash :: hash

record TransferOp =
  toOpIndex :: uint32
  toEntityKey :: hash
  toOwner :: address
  toEntityHash :: hash
  toChangesetHash :: hash

record ExpireOp =
  xoOpIndex :: uint32
  xoEntityKey :: hash
  xoOwner :: address
  xoEntityHash :: hash
  xoChangesetHash :: hash

record ArkivOperation =
  Create :: "CreateOp option"
  Update :: "UpdateOp option"
  Delete :: "DeleteOp option"
  Extend :: "ExtendOp option"
  Transfer :: "TransferOp option"
  Expire :: "ExpireOp option"

record ArkivTransaction =
  txHash :: hash
  txIndex :: uint32
  txSender :: address
  txOperations :: "ArkivOperation list"

record ArkivBlock =
  Header :: ArkivBlockHeader
  Transactions :: "ArkivTransaction list"

record ArkivBlockRef =
  refNumber :: uint64
  refHash :: hash

end
