(* ===== verification/Entity.thy ===== *)
theory Entity
  imports Wire_Types Keys
begin

text \<open>
  The entity as it is stored in the trie (\<open>store/entity.go\<close>) and the annotation pairs under which it
  is indexed (\<open>store/ops.go\<close>). Encoding itself is RLP, a library: it is a parameter introduced in
  \<open>Arkiv_Lib\<close>.
\<close>

record stringAnnot =
  saKey :: string
  saValue :: string

record numericAnnot =
  naKey :: string
  naValue :: uint64

record Entity =
  Payload :: bytes
  Owner :: address
  Creator :: address
  ExpiresAt :: uint64
  CreatedAtBlock :: uint64
  LastModifiedAtBlock :: uint64
  TransactionIndexInBlock :: uint64
  OperationIndexInTransaction :: uint64
  ContentType :: string
  Key :: hash
  StringAnnotations :: "stringAnnot list"
  NumericAnnotations :: "numericAnnot list"

record annotPair =
  apKey :: string
  apVal :: string

end
