(* ===== verification/Arkiv_Lib.thy ===== *)
theory Arkiv_Lib
  imports Entity
begin

text \<open>
  The libraries the service calls but does not contain are one parameter of the model, the record
  \<open>lib\<close>: the hash function and hexadecimal forms of go-ethereum's \<open>common\<close> and \<open>crypto\<close>, RLP, the
  key-value database (\<open>ethdb\<close>, \<open>memorydb\<close>, Pebble), \<open>roaring64\<close> bitmaps, and the \<open>StateDB\<close> with
  its trie database. It also holds the two choices Go's run time makes: the order in which a map is
  ranged over, and Unicode lower-casing of strings that are not ASCII.

  What the service relies on is stated as predicates over that record, one per library. They say what
  the library documents: reading after writing, ordered iteration, bitmaps as sets of 64-bit numbers,
  accounts with storage and code, and that a committed state can be opened again by its root as long
  as the entries it wrote are still there. Collision freedom of the hash function is never assumed
  for all inputs (no function into 256 bits has it); the theorems that need it carry it as a
  hypothesis on the inputs that occur.
\<close>

section \<open>The parameter\<close>

text \<open>A batch buffers puts and deletes and applies them, in order, in one atomic write.\<close>

datatype batchOp = BPut bytes bytes | BDelete bytes

record ('db, 'bm, 'sdb) lib =
  Keccak256Hash :: "bytes \<Rightarrow> hash"
  AddressHex :: "address \<Rightarrow> string"
  HashHex :: "hash \<Rightarrow> string"
  unicodeToLower :: "string \<Rightarrow> string"
  rlpEncode :: "Entity \<Rightarrow> bytes res"
  rlpDecode :: "bytes \<Rightarrow> Entity res"
  rangePairs :: "annotPair list \<Rightarrow> annotPair list"
  rangeAddrs :: "address list \<Rightarrow> address list"
  memNew :: 'db
  dbGet :: "'db \<Rightarrow> bytes \<Rightarrow> bytes res"
  dbHas :: "'db \<Rightarrow> bytes \<Rightarrow> bool res"
  dbPut :: "'db \<Rightarrow> bytes \<Rightarrow> bytes \<Rightarrow> 'db res"
  dbDelete :: "'db \<Rightarrow> bytes \<Rightarrow> 'db res"
  dbIter :: "'db \<Rightarrow> bytes \<Rightarrow> bytes \<Rightarrow> (bytes \<times> bytes) list"
  dbIterError :: "'db \<Rightarrow> bytes \<Rightarrow> bytes \<Rightarrow> err option"
  dbWrite :: "'db \<Rightarrow> batchOp list \<Rightarrow> 'db res"
  bmNew :: 'bm
  bmAdd :: "'bm \<Rightarrow> uint64 \<Rightarrow> 'bm"
  bmRemove :: "'bm \<Rightarrow> uint64 \<Rightarrow> 'bm"
  bmAddRange :: "'bm \<Rightarrow> uint64 \<Rightarrow> uint64 \<Rightarrow> 'bm"
  bmOr :: "'bm \<Rightarrow> 'bm \<Rightarrow> 'bm"
  bmAnd :: "'bm \<Rightarrow> 'bm \<Rightarrow> 'bm"
  bmAndNot :: "'bm \<Rightarrow> 'bm \<Rightarrow> 'bm"
  bmToArray :: "'bm \<Rightarrow> uint64 list"
  bmMarshal :: "'bm \<Rightarrow> bytes res"
  bmUnmarshal :: "bytes \<Rightarrow> 'bm res"
  EmptyRootHash :: hash
  stateNew :: "(bytes \<Rightarrow> bytes option) \<Rightarrow> hash \<Rightarrow> 'sdb res"
  sdExist :: "'sdb \<Rightarrow> address \<Rightarrow> bool"
  sdCreateAccount :: "'sdb \<Rightarrow> address \<Rightarrow> 'sdb"
  sdGetNonce :: "'sdb \<Rightarrow> address \<Rightarrow> uint64"
  sdSetNonce :: "'sdb \<Rightarrow> address \<Rightarrow> uint64 \<Rightarrow> 'sdb"
  sdGetState :: "'sdb \<Rightarrow> address \<Rightarrow> hash \<Rightarrow> hash"
  sdSetState :: "'sdb \<Rightarrow> address \<Rightarrow> hash \<Rightarrow> hash \<Rightarrow> 'sdb"
  sdGetCode :: "'sdb \<Rightarrow> address \<Rightarrow> bytes"
  sdSetCode :: "'sdb \<Rightarrow> address \<Rightarrow> bytes \<Rightarrow> 'sdb"
  sdCommit :: "'sdb \<Rightarrow> uint64 \<Rightarrow> (hash \<times> (bytes \<times> bytes) list \<times> (bytes \<times> bytes) list) res"
  trieCommit :: "(bytes \<times> bytes) list \<Rightarrow> hash \<Rightarrow> (bytes \<times> bytes) list res"

text \<open>
  \<open>stateNew\<close> is \<open>state.New(root, db)\<close>, given the read function of the database it opens the trie in.
  \<open>sdCommit\<close> is \<open>StateDB.Commit\<close> with empty accounts deleted: the new root, the code blobs it writes
  to the database, and the dirty trie nodes it leaves in the trie database's memory, which
  \<open>trieCommit\<close> (\<open>TrieDB.Commit\<close>) turns into writes.
\<close>

section \<open>What is read\<close>

definition rd :: "('db, 'bm, 'sdb) lib \<Rightarrow> 'db \<Rightarrow> bytes \<rightharpoonup> bytes" where
  "rd L db k = okOption (dbGet L db k)"

definition bmSet :: "('db, 'bm, 'sdb) lib \<Rightarrow> 'bm \<Rightarrow> uint64 set" where
  "bmSet L b = set (bmToArray L b)"

fun applyBatchOp :: "batchOp \<Rightarrow> (bytes \<rightharpoonup> bytes) \<Rightarrow> (bytes \<rightharpoonup> bytes)" where
  "applyBatchOp (BPut k v) g = g(k \<mapsto> v)"
| "applyBatchOp (BDelete k) g = g(k := None)"

definition applyBatch :: "batchOp list \<Rightarrow> (bytes \<rightharpoonup> bytes) \<Rightarrow> (bytes \<rightharpoonup> bytes)" where
  "applyBatch ops g = fold applyBatchOp ops g"

text \<open>The keys of the service's own entries; everything else belongs to the state library.\<close>

definition arkivKey :: "bytes \<Rightarrow> bool" where
  "arkivKey k = prefix ''arkiv_'' k"

definition trieLe :: "(bytes \<rightharpoonup> bytes) \<Rightarrow> (bytes \<rightharpoonup> bytes) \<Rightarrow> bool" where
  "trieLe g g' \<longleftrightarrow> (\<forall>k v. \<not> arkivKey k \<longrightarrow> g k = Some v \<longrightarrow> g' k = Some v)"

text \<open>The states obtained from one opened in \<open>g\<close> by the operations the service uses.\<close>

inductive derived :: "('db, 'bm, 'sdb) lib \<Rightarrow> (bytes \<rightharpoonup> bytes) \<Rightarrow> 'sdb \<Rightarrow> bool" for L g where
  opened: "stateNew L g r = Inr s \<Longrightarrow> derived L g s"
| createAccount: "derived L g s \<Longrightarrow> derived L g (sdCreateAccount L s a)"
| setNonce: "derived L g s \<Longrightarrow> derived L g (sdSetNonce L s a n)"
| setState: "derived L g s \<Longrightarrow> derived L g (sdSetState L s a k v)"
| setCode: "derived L g s \<Longrightarrow> derived L g (sdSetCode L s a c)"

text \<open>Two states that agree on everything the service can read, accounts without a nonce having no
  storage the service reads.\<close>

definition sameState :: "('db, 'bm, 'sdb) lib \<Rightarrow> 'sdb \<Rightarrow> 'sdb \<Rightarrow> bool" where
  "sameState L s s' \<longleftrightarrow>
     (\<forall>a. sdGetCode L s' a = sdGetCode L s a) \<and>
     (\<forall>a. sdGetNonce L s' a = sdGetNonce L s a) \<and>
     (\<forall>a k. sdGetNonce L s a \<noteq> 0 \<longrightarrow> sdGetState L s' a k = sdGetState L s a k)"

section \<open>What the libraries promise\<close>

definition kv_ok :: "('db, 'bm, 'sdb) lib \<Rightarrow> bool" where
  "kv_ok L \<longleftrightarrow>
     rd L (memNew L) = Map.empty \<and>
     (\<forall>db k v. \<exists>db'. dbPut L db k v = Inr db' \<and> rd L db' = (rd L db)(k \<mapsto> v)) \<and>
     (\<forall>db k. \<exists>db'. dbDelete L db k = Inr db' \<and> rd L db' = (rd L db)(k := None)) \<and>
     (\<forall>db k. dbHas L db k = Inr (rd L db k \<noteq> None)) \<and>
     (\<forall>db ops db'. dbWrite L db ops = Inr db' \<longrightarrow> rd L db' = applyBatch ops (rd L db)) \<and>
     (\<forall>db p s. sorted_wrt (<) (map fst (dbIter L db p s))) \<and>
     (\<forall>db p s. set (dbIter L db p s) = {(k, v). rd L db k = Some v \<and> prefix p k \<and> p @ s \<le> k})"

definition roaring_ok :: "('db, 'bm, 'sdb) lib \<Rightarrow> bool" where
  "roaring_ok L \<longleftrightarrow>
     bmSet L (bmNew L) = {} \<and>
     (\<forall>b x. bmSet L (bmAdd L b x) = insert x (bmSet L b)) \<and>
     (\<forall>b x. bmSet L (bmRemove L b x) = bmSet L b - {x}) \<and>
     (\<forall>b lo hi. bmSet L (bmAddRange L b lo hi) = bmSet L b \<union> {lo..<hi}) \<and>
     (\<forall>b c. bmSet L (bmOr L b c) = bmSet L b \<union> bmSet L c) \<and>
     (\<forall>b c. bmSet L (bmAnd L b c) = bmSet L b \<inter> bmSet L c) \<and>
     (\<forall>b c. bmSet L (bmAndNot L b c) = bmSet L b - bmSet L c) \<and>
     (\<forall>b. sorted_wrt (<) (bmToArray L b)) \<and>
     (\<forall>b. \<exists>bs b'. bmMarshal L b = Inr bs \<and> bs \<noteq> [] \<and> bmUnmarshal L bs = Inr b' \<and> bmSet L b' = bmSet L b)"

definition codec_ok :: "('db, 'bm, 'sdb) lib \<Rightarrow> bool" where
  "codec_ok L \<longleftrightarrow>
     (\<forall>e. \<exists>bs. rlpEncode L e = Inr bs \<and> bs \<noteq> [] \<and> rlpDecode L bs = Inr e) \<and>
     (\<forall>a. toLower (unicodeToLower L) (AddressHex L a) = hex0x (addrBytes a)) \<and>
     (\<forall>h. toLower (unicodeToLower L) (HashHex L h) = hex0x (hashBytes h))"

definition range_ok :: "('db, 'bm, 'sdb) lib \<Rightarrow> bool" where
  "range_ok L \<longleftrightarrow>
     (\<forall>ps. distinct ps \<longrightarrow> distinct (rangePairs L ps) \<and> set (rangePairs L ps) = set ps) \<and>
     (\<forall>as. distinct as \<longrightarrow> distinct (rangeAddrs L as) \<and> set (rangeAddrs L as) = set as)"

definition account_ok :: "('db, 'bm, 'sdb) lib \<Rightarrow> bool" where
  "account_ok L \<longleftrightarrow>
     (\<forall>s a k v a' k'. sdGetState L (sdSetState L s a k v) a' k' =
        (if a' = a \<and> k' = k then v else sdGetState L s a' k')) \<and>
     (\<forall>s a k v a'. sdGetCode L (sdSetState L s a k v) a' = sdGetCode L s a') \<and>
     (\<forall>s a k v a'. sdGetNonce L (sdSetState L s a k v) a' = sdGetNonce L s a') \<and>
     (\<forall>s a c a' k. sdGetState L (sdSetCode L s a c) a' k = sdGetState L s a' k) \<and>
     (\<forall>s a c a'. sdGetCode L (sdSetCode L s a c) a' = (if a' = a then c else sdGetCode L s a')) \<and>
     (\<forall>s a c a'. sdGetNonce L (sdSetCode L s a c) a' = sdGetNonce L s a') \<and>
     (\<forall>s a n a' k. sdGetState L (sdSetNonce L s a n) a' k = sdGetState L s a' k) \<and>
     (\<forall>s a n a'. sdGetCode L (sdSetNonce L s a n) a' = sdGetCode L s a') \<and>
     (\<forall>s a n a'. sdGetNonce L (sdSetNonce L s a n) a' = (if a' = a then n else sdGetNonce L s a')) \<and>
     (\<forall>s a a' k. a' \<noteq> a \<longrightarrow> sdGetState L (sdCreateAccount L s a) a' k = sdGetState L s a' k) \<and>
     (\<forall>s a a'. sdGetCode L (sdCreateAccount L s a) a' = (if a' = a then [] else sdGetCode L s a')) \<and>
     (\<forall>s a a'. sdGetNonce L (sdCreateAccount L s a) a' = (if a' = a then 0 else sdGetNonce L s a')) \<and>
     (\<forall>s a k. sdGetState L (sdCreateAccount L s a) a k = 0) \<and>
     (\<forall>s a. sdGetNonce L s a \<noteq> 0 \<longrightarrow> sdExist L s a) \<and>
     (\<forall>s a k. \<not> sdExist L s a \<longrightarrow> sdGetState L s a k = 0 \<and> sdGetCode L s a = [])"

text \<open>The state library stores trie nodes under their hash and code under its hash with a marker.\<close>

definition nodeEntry :: "('db, 'bm, 'sdb) lib \<Rightarrow> bytes \<Rightarrow> bytes \<Rightarrow> bool" where
  "nodeEntry L k v \<longleftrightarrow>
     k = hashBytes (Keccak256Hash L v) \<or> k = CHR ''c'' # hashBytes (Keccak256Hash L v)"

definition trie_ok :: "('db, 'bm, 'sdb) lib \<Rightarrow> bool" where
  "trie_ok L \<longleftrightarrow>
     (\<forall>g. \<exists>s. stateNew L g (EmptyRootHash L) = Inr s \<and> (\<forall>a. \<not> sdExist L s a)) \<and>
     (\<forall>g g' r s. stateNew L g r = Inr s \<longrightarrow> trieLe g g' \<longrightarrow>
        (\<exists>s'. stateNew L g' r = Inr s' \<and> sameState L s s' \<and>
              (\<forall>a. sdExist L s' a = sdExist L s a))) \<and>
     (\<forall>g g' s n root codes dirty nodes.
        derived L g s \<longrightarrow> sdCommit L s n = Inr (root, codes, dirty) \<longrightarrow>
        trieCommit L dirty root = Inr nodes \<longrightarrow> trieLe g g' \<longrightarrow>
        (\<forall>(k, v) \<in> set (codes @ nodes). g' k = Some v) \<longrightarrow>
        (\<exists>s'. stateNew L g' root = Inr s' \<and> sameState L s s')) \<and>
     (\<forall>s n root codes dirty nodes.
        sdCommit L s n = Inr (root, codes, dirty) \<longrightarrow> trieCommit L dirty root = Inr nodes \<longrightarrow>
        (\<forall>(k, v) \<in> set (codes @ nodes). nodeEntry L k v))"

text \<open>
  The laws so far leave a library free to fail where it documents an error. A claim that an operation
  of the service returns needs that the writes it makes go through.
\<close>

definition io_ok :: "('db, 'bm, 'sdb) lib \<Rightarrow> bool" where
  "io_ok L \<longleftrightarrow>
     (\<forall>db ops. \<exists>db'. dbWrite L db ops = Inr db') \<and>
     (\<forall>db p s. dbIterError L db p s = None) \<and>
     (\<forall>s n. \<exists>x. sdCommit L s n = Inr x) \<and>
     (\<forall>dirty root. \<exists>nodes. trieCommit L dirty root = Inr nodes)"

definition lib_ok :: "('db, 'bm, 'sdb) lib \<Rightarrow> bool" where
  "lib_ok L \<longleftrightarrow> kv_ok L \<and> roaring_ok L \<and> codec_ok L \<and> range_ok L \<and> account_ok L \<and> trie_ok L"

section \<open>Rules for the component proofs\<close>

named_theorems lib_simps \<open>conditional rewrite rules of the library laws\<close>

lemma lib_okD [dest]:
  "lib_ok L \<Longrightarrow> kv_ok L" "lib_ok L \<Longrightarrow> roaring_ok L" "lib_ok L \<Longrightarrow> codec_ok L"
  "lib_ok L \<Longrightarrow> range_ok L" "lib_ok L \<Longrightarrow> account_ok L" "lib_ok L \<Longrightarrow> trie_ok L"
  by (simp_all add: lib_ok_def)

lemma io_okD:
  assumes "io_ok L"
  shows "\<exists>db'. dbWrite L db ops = Inr db'" "dbIterError L db p s = None"
    "\<exists>x. sdCommit L sdb n = Inr x" "\<exists>nodes. trieCommit L dirty root = Inr nodes"
  using assms by (simp_all add: io_ok_def)

lemma dbGet_rd: "rd L db k = Some v \<longleftrightarrow> dbGet L db k = Inr v"
  by (simp add: rd_def)

lemma rd_memNew [lib_simps]: "kv_ok L \<Longrightarrow> rd L (memNew L) = Map.empty"
  by (simp add: kv_ok_def)

lemma dbPut_ok: "kv_ok L \<Longrightarrow> \<exists>db'. dbPut L db k v = Inr db' \<and> rd L db' = (rd L db)(k \<mapsto> v)"
  by (simp add: kv_ok_def)

lemma rd_dbPut: "kv_ok L \<Longrightarrow> dbPut L db k v = Inr db' \<Longrightarrow> rd L db' = (rd L db)(k \<mapsto> v)"
  using dbPut_ok[of L db k v] by auto

lemma dbHas_rd [lib_simps]: "kv_ok L \<Longrightarrow> dbHas L db k = Inr (rd L db k \<noteq> None)"
  by (simp add: kv_ok_def)

lemma rd_dbWrite: "kv_ok L \<Longrightarrow> dbWrite L db ops = Inr db' \<Longrightarrow> rd L db' = applyBatch ops (rd L db)"
  by (simp add: kv_ok_def)

lemma dbIter_sorted: "kv_ok L \<Longrightarrow> sorted_wrt (<) (map fst (dbIter L db p s))"
  by (simp add: kv_ok_def)

lemma set_dbIter [lib_simps]:
  "kv_ok L \<Longrightarrow> set (dbIter L db p s) = {(k, v). rd L db k = Some v \<and> prefix p k \<and> p @ s \<le> k}"
  by (simp add: kv_ok_def)

lemma prefix_le [simp]: "(p :: bytes) \<le> p @ s"
  by (induction p) auto

lemma set_dbIter_all:
  "kv_ok L \<Longrightarrow> set (dbIter L db p []) = {(k, v). rd L db k = Some v \<and> prefix p k}"
  by (auto simp: lib_simps prefix_def)

lemma bmSet_simps [lib_simps]:
  assumes "roaring_ok L"
  shows "bmSet L (bmNew L) = {}"
    and "bmSet L (bmAdd L b x) = insert x (bmSet L b)"
    and "bmSet L (bmRemove L b x) = bmSet L b - {x}"
    and "bmSet L (bmAddRange L b lo hi) = bmSet L b \<union> {lo..<hi}"
    and "bmSet L (bmOr L b c) = bmSet L b \<union> bmSet L c"
    and "bmSet L (bmAnd L b c) = bmSet L b \<inter> bmSet L c"
    and "bmSet L (bmAndNot L b c) = bmSet L b - bmSet L c"
  using assms by (simp_all add: roaring_ok_def)

lemma bmToArray_sorted: "roaring_ok L \<Longrightarrow> sorted_wrt (<) (bmToArray L b)"
  by (simp add: roaring_ok_def)

lemma bmMarshal_ok:
  "roaring_ok L \<Longrightarrow> \<exists>bs b'. bmMarshal L b = Inr bs \<and> bs \<noteq> [] \<and> bmUnmarshal L bs = Inr b'
     \<and> bmSet L b' = bmSet L b"
  by (simp add: roaring_ok_def)

lemma rlp_ok: "codec_ok L \<Longrightarrow> \<exists>bs. rlpEncode L e = Inr bs \<and> bs \<noteq> [] \<and> rlpDecode L bs = Inr e"
  by (simp add: codec_ok_def)

lemma lower_hex [lib_simps]:
  assumes "codec_ok L"
  shows "toLower (unicodeToLower L) (AddressHex L a) = hex0x (addrBytes a)"
    and "toLower (unicodeToLower L) (HashHex L h) = hex0x (hashBytes h)"
  using assms by (simp_all add: codec_ok_def)

lemma range_simps [lib_simps]:
  assumes "range_ok L"
  shows "distinct ps \<Longrightarrow> distinct (rangePairs L ps)"
    and "distinct ps \<Longrightarrow> set (rangePairs L ps) = set ps"
    and "distinct as \<Longrightarrow> distinct (rangeAddrs L as)"
    and "distinct as \<Longrightarrow> set (rangeAddrs L as) = set as"
  using assms by (simp_all add: range_ok_def)

lemma account_simps [lib_simps]:
  assumes "account_ok L"
  shows "sdGetState L (sdSetState L s a k v) a' k' = (if a' = a \<and> k' = k then v else sdGetState L s a' k')"
    and "sdGetCode L (sdSetState L s a k v) a' = sdGetCode L s a'"
    and "sdGetNonce L (sdSetState L s a k v) a' = sdGetNonce L s a'"
    and "sdGetState L (sdSetCode L s a c) a' k' = sdGetState L s a' k'"
    and "sdGetCode L (sdSetCode L s a c) a' = (if a' = a then c else sdGetCode L s a')"
    and "sdGetNonce L (sdSetCode L s a c) a' = sdGetNonce L s a'"
    and "sdGetState L (sdSetNonce L s a n) a' k' = sdGetState L s a' k'"
    and "sdGetCode L (sdSetNonce L s a n) a' = sdGetCode L s a'"
    and "sdGetNonce L (sdSetNonce L s a n) a' = (if a' = a then n else sdGetNonce L s a')"
    and "sdGetState L (sdCreateAccount L s a) a' k' = (if a' = a then 0 else sdGetState L s a' k')"
    and "sdGetCode L (sdCreateAccount L s a) a' = (if a' = a then [] else sdGetCode L s a')"
    and "sdGetNonce L (sdCreateAccount L s a) a' = (if a' = a then 0 else sdGetNonce L s a')"
  using assms by (simp_all add: account_ok_def)

lemma not_exist_zero:
  assumes "account_ok L" "\<not> sdExist L s a"
  shows "sdGetState L s a k = 0" "sdGetCode L s a = []" "sdGetNonce L s a = 0"
  using assms by (auto simp: account_ok_def)

lemma stateNew_empty: "trie_ok L \<Longrightarrow> \<exists>s. stateNew L g (EmptyRootHash L) = Inr s \<and> (\<forall>a. \<not> sdExist L s a)"
  by (simp add: trie_ok_def)

lemma stateNew_mono:
  assumes "trie_ok L" "stateNew L g r = Inr s" "trieLe g g'"
  shows "\<exists>s'. stateNew L g' r = Inr s' \<and> sameState L s s' \<and> (\<forall>a. sdExist L s' a = sdExist L s a)"
  using assms unfolding trie_ok_def by blast

lemma stateNew_commit:
  assumes "trie_ok L" "derived L g s" "sdCommit L s n = Inr (root, codes, dirty)"
    "trieCommit L dirty root = Inr nodes" "trieLe g g'"
    "\<And>k v. (k, v) \<in> set (codes @ nodes) \<Longrightarrow> g' k = Some v"
  shows "\<exists>s'. stateNew L g' root = Inr s' \<and> sameState L s s'"
proof -
  have "\<forall>(k, v) \<in> set (codes @ nodes). g' k = Some v" using assms(6) by blast
  with assms(1-5) show ?thesis unfolding trie_ok_def by blast
qed

lemma commit_keys:
  assumes "trie_ok L" "sdCommit L s n = Inr (root, codes, dirty)"
    "trieCommit L dirty root = Inr nodes" "(k, v) \<in> set (codes @ nodes)"
  shows "nodeEntry L k v"
  using assms unfolding trie_ok_def by blast

lemma nodeEntry_unique:
  assumes "nodeEntry L k v" "nodeEntry L k w"
  shows "Keccak256Hash L v = Keccak256Hash L w"
proof -
  have "hashBytes a \<noteq> CHR ''c'' # hashBytes b" for a b
  proof
    assume "hashBytes a = CHR ''c'' # hashBytes b"
    then have "length (hashBytes a) = length (CHR ''c'' # hashBytes b)" by (rule arg_cong)
    then show False by simp
  qed
  then show ?thesis using assms unfolding nodeEntry_def by (metis hashBytes_inject list.inject)
qed

lemma trieLe_refl [simp]: "trieLe g g"
  by (simp add: trieLe_def)

lemma trieLe_trans [trans]: "trieLe g g' \<Longrightarrow> trieLe g' g'' \<Longrightarrow> trieLe g g''"
  by (simp add: trieLe_def)

lemma arkivKey_simps [simp]:
  "arkivKey (bitmapKey h)" "arkivKey (annotKey k v)" "arkivKey (idKey i)" "arkivKey (addrKey a)"
  "arkivKey (pairsKey k v)" "arkivKey (rootKey b)" "arkivKey (parentKey b)"
  "arkivKey (blockNumberKey n)" "arkivKey headKey"
  by (simp_all add: arkivKey_def key_defs prefix_defs)

lemma applyBatch_simps [simp]:
  "applyBatch [] g = g"
  "applyBatch (op # ops) g = applyBatch ops (applyBatchOp op g)"
  "applyBatch (ops @ ops') g = applyBatch ops' (applyBatch ops g)"
  by (simp_all add: applyBatch_def)

end
