(* ===== verification/Annotations.thy ===== *)
theory Annotations
  imports Arkiv_Lib
begin

text \<open>
  Encoding of entities (\<open>store/entity.go\<close>) and the annotation pairs under which an entity is indexed
  (\<open>store/ops.go\<close>): the built-in pairs, the user's pairs, and the conversion of wire attributes.
\<close>

section \<open>Entity encoding\<close>

definition encodeEntity :: "('db, 'bm, 'sdb) lib \<Rightarrow> Entity \<Rightarrow> (bytes \<times> hash) res" where
  "encodeEntity L e = andThen (rlpEncode L e) (\<lambda>data. Inr (data, Keccak256Hash L data))"

definition decodeEntity :: "('db, 'bm, 'sdb) lib \<Rightarrow> bytes \<Rightarrow> Entity res" where
  "decodeEntity L data = rlpDecode L data"

section \<open>Annotation pairs\<close>

definition ToLower :: "('db, 'bm, 'sdb) lib \<Rightarrow> string \<Rightarrow> string" where
  "ToLower L s = toLower (unicodeToLower L) s"

abbreviation pair :: "string \<Rightarrow> string \<Rightarrow> annotPair" where
  "pair k v \<equiv> \<lparr>apKey = k, apVal = v\<rparr>"

definition builtinAnnotations :: "('db, 'bm, 'sdb) lib \<Rightarrow> Entity \<Rightarrow> annotPair list" where
  "builtinAnnotations L e =
     [pair ''$all'' ''true'',
      pair ''$creator'' (ToLower L (AddressHex L (Creator e))),
      pair ''$createdAtBlock'' (numericVal (CreatedAtBlock e)),
      pair ''$lastModifiedAtBlock'' (numericVal (LastModifiedAtBlock e)),
      pair ''$owner'' (ToLower L (AddressHex L (Owner e))),
      pair ''$key'' (ToLower L (HashHex L (Key e))),
      pair ''$expiration'' (numericVal (ExpiresAt e)),
      pair ''$contentType'' (ContentType e)]"

definition userAnnotations :: "Entity \<Rightarrow> annotPair list" where
  "userAnnotations e =
     map (\<lambda>a. pair (saKey a) (saValue a)) (StringAnnotations e) @
     map (\<lambda>a. pair (naKey a) (numericVal (naValue a))) (NumericAnnotations e)"

definition allAnnotations :: "('db, 'bm, 'sdb) lib \<Rightarrow> Entity \<Rightarrow> annotPair list" where
  "allAnnotations L e = builtinAnnotations L e @ userAnnotations e"

text \<open>A Go map with empty values, as the list of its keys.\<close>

definition annotPairSet :: "annotPair list \<Rightarrow> annotPair list" where
  "annotPairSet pairs = remdups pairs"

section \<open>Wire attributes\<close>

definition attrUint64 :: "bytes \<Rightarrow> uint64" where
  "attrUint64 b =
     (let b = (if length b > 8 then drop (length b - 8) b else b)
      in foldl (\<lambda>v byt. or (push_bit 8 v) (word_of_nat (of_char byt))) 0 b)"

definition applyAttribute :: "('db, 'bm, 'sdb) lib \<Rightarrow> Attribute \<Rightarrow> Entity \<Rightarrow> Entity" where
  "applyAttribute L a e =
     (if ValueType a = ''string'' then
        e\<lparr>StringAnnotations := StringAnnotations e @
            [\<lparr>saKey = Name a, saValue = trimRightNul (Value a)\<rparr>]\<rparr>
      else if ValueType a = ''uint'' then
        e\<lparr>NumericAnnotations := NumericAnnotations e @
            [\<lparr>naKey = Name a, naValue = attrUint64 (Value a)\<rparr>]\<rparr>
      else if ValueType a = ''entityKey'' then
        e\<lparr>StringAnnotations := StringAnnotations e @
            [\<lparr>saKey = Name a, saValue = ToLower L (HashHex L (BytesToHash (Value a)))\<rparr>]\<rparr>
      else e)"

definition applyAttributes :: "('db, 'bm, 'sdb) lib \<Rightarrow> Entity \<Rightarrow> Attribute list \<Rightarrow> Entity" where
  "applyAttributes L e attrs = fold (applyAttribute L) attrs e"

section \<open>Lemmas\<close>

lemma decode_encode_entity:
  "codec_ok L \<Longrightarrow> \<exists>data. encodeEntity L e = Inr (data, Keccak256Hash L data) \<and> data \<noteq> []
     \<and> decodeEntity L data = Inr e"
  using rlp_ok[of L e] by (auto simp: encodeEntity_def decodeEntity_def)

lemma set_annotPairSet [simp]: "set (annotPairSet ps) = set ps"
  by (simp add: annotPairSet_def)

lemma distinct_annotPairSet [simp]: "distinct (annotPairSet ps)"
  by (simp add: annotPairSet_def)

lemma all_pair_in_allAnnotations [simp]: "pair ''$all'' ''true'' \<in> set (allAnnotations L e)"
  by (simp add: allAnnotations_def builtinAnnotations_def)

text \<open>Shifting by eight bits and or-ing in a byte is multiplication by 256 and addition.\<close>

lemma shift_or_byte:
  fixes v :: uint64
  assumes "n < 256"
  shows "or (push_bit 8 v) (word_of_nat n) = v * 256 + word_of_nat n"
proof -
  have disj: "and (push_bit 8 v) (word_of_nat n) = 0"
  proof (rule bit_word_eqI)
    fix i assume i: "i < LENGTH(64)"
    have "\<not> bit n i" if "8 \<le> i"
    proof -
      have "n < 2 ^ i" using assms that power_increasing[of 8 i "2 :: nat"] by simp
      then show ?thesis by (simp add: bit_nat_def)
    qed
    then show "bit (and (push_bit 8 v) (word_of_nat n)) i = bit 0 i"
      by (auto simp: bit_and_iff bit_push_bit_iff bit_of_nat_iff)
  qed
  have "or (push_bit 8 v) (word_of_nat n) = push_bit 8 v + word_of_nat n"
    using disj by (rule disjunctive_add_eq_or [symmetric])
  then show ?thesis by (simp add: push_bit_eq_mult)
qed

lemma fold_shift_or:
  "foldl (\<lambda>v byt. or (push_bit 8 v) (word_of_nat (of_char byt))) 0 b = (word_of_nat (be_nat b) :: uint64)"
proof (induction b rule: rev_induct)
  case (snoc c b)
  then show ?case by (simp add: be_nat_snoc shift_or_byte)
qed simp

lemma be_nat_append: "be_nat (a @ b) = be_nat a * 256 ^ length b + be_nat b"
proof (induction b rule: rev_induct)
  case (snoc c b)
  have "be_nat (a @ b @ [c]) = be_nat (a @ b) * 256 + of_char c"
    using be_nat_snoc[of "a @ b" c] by simp
  then show ?case using snoc by (simp add: be_nat_snoc algebra_simps)
qed simp

end
