(* ===== verification/System.thy ===== *)
theory System
  imports Annotations
begin

text \<open>
  The system account (\<open>store/system.go\<close>): one account of the trie whose storage holds the entity
  counter, the hash of the current bitmap of each annotation pair, and the address of each live entity
  by its number.
\<close>

text \<open>\<open>BytesToAddress\<close> keeps the last twenty bytes of the hash.\<close>

definition systemAddress :: "('db, 'bm, 'sdb) lib \<Rightarrow> address" where
  "systemAddress L = BytesToAddress (hashBytes (Keccak256Hash L ''arkiv.system''))"

definition entityCountSlot :: "('db, 'bm, 'sdb) lib \<Rightarrow> hash" where
  "entityCountSlot L = Keccak256Hash L ''entity_count''"

definition initSystemAccount :: "('db, 'bm, 'sdb) lib \<Rightarrow> 'sdb \<Rightarrow> 'sdb" where
  "initSystemAccount L sdb =
     (if \<not> sdExist L sdb (systemAddress L)
      then sdSetNonce L (sdCreateAccount L sdb (systemAddress L)) (systemAddress L) 1
      else sdb)"

definition readEntityCount :: "('db, 'bm, 'sdb) lib \<Rightarrow> 'sdb \<Rightarrow> uint64" where
  "readEntityCount L sdb =
     (let val = sdGetState L sdb (systemAddress L) (entityCountSlot L)
      in bytesUint64 (drop 24 (hashBytes val)))"

definition zeros :: "nat \<Rightarrow> bytes" where
  "zeros n = replicate n (CHR 0x00)"

definition incrementEntityCount :: "('db, 'bm, 'sdb) lib \<Rightarrow> 'sdb \<Rightarrow> uint64 \<times> 'sdb" where
  "incrementEntityCount L sdb =
     (let i = readEntityCount L sdb + 1;
          slot = BytesToHash (zeros 24 @ uint64Bytes i)
      in (i, sdSetState L sdb (systemAddress L) (entityCountSlot L) slot))"

definition annotSlotKey :: "('db, 'bm, 'sdb) lib \<Rightarrow> string \<Rightarrow> string \<Rightarrow> hash" where
  "annotSlotKey L key val = Keccak256Hash L (''annot'' @ key @ CHR 0x00 # val)"

definition idSlotKey :: "('db, 'bm, 'sdb) lib \<Rightarrow> uint64 \<Rightarrow> hash" where
  "idSlotKey L i = Keccak256Hash L (''id'' @ uint64Bytes i)"

definition setAnnotSlot :: "('db, 'bm, 'sdb) lib \<Rightarrow> 'sdb \<Rightarrow> string \<Rightarrow> string \<Rightarrow> hash \<Rightarrow> 'sdb" where
  "setAnnotSlot L sdb key val h = sdSetState L sdb (systemAddress L) (annotSlotKey L key val) h"

definition addrSlot :: "address \<Rightarrow> hash" where
  "addrSlot addr = BytesToHash (zeros 12 @ addrBytes addr)"

definition setIDSlot :: "('db, 'bm, 'sdb) lib \<Rightarrow> 'sdb \<Rightarrow> uint64 \<Rightarrow> address \<Rightarrow> 'sdb" where
  "setIDSlot L sdb i addr = sdSetState L sdb (systemAddress L) (idSlotKey L i) (addrSlot addr)"

definition clearIDSlot :: "('db, 'bm, 'sdb) lib \<Rightarrow> 'sdb \<Rightarrow> uint64 \<Rightarrow> 'sdb" where
  "clearIDSlot L sdb i = sdSetState L sdb (systemAddress L) (idSlotKey L i) 0"

section \<open>Lemmas\<close>

lemma be_nat_zeros [simp]: "be_nat (zeros n) = 0"
  by (induction n) (simp_all add: zeros_def be_nat_Cons)

lemma length_zeros [simp]: "length (zeros n) = n"
  by (simp add: zeros_def)

lemma drop_hashBytes_zeros [simp]:
  "drop 24 (hashBytes (BytesToHash (zeros 24 @ uint64Bytes i))) = uint64Bytes i"
  by (simp add: hashBytes_BytesToHash)

lemma bytesUint64_hash_0 [simp]: "bytesUint64 (drop 24 (hashBytes 0)) = 0"
proof -
  have "BytesToHash (zeros 24 @ uint64Bytes 0) = 0"
    by (simp add: BytesToHash_def be_nat_append uint64Bytes_def be_nat_be_bytes)
  then show ?thesis using drop_hashBytes_zeros[of 0] by simp
qed

lemma addrSlot_inject [simp]: "addrSlot a = addrSlot b \<longleftrightarrow> a = b"
proof -
  have "hashBytes (addrSlot c) = zeros 12 @ addrBytes c" for c
    by (simp add: addrSlot_def hashBytes_BytesToHash)
  then show ?thesis by (metis addrBytes_inject same_append_eq)
qed

lemma addrSlot_0 [simp]: "addrSlot 0 = 0"
  by (simp add: addrSlot_def BytesToHash_def be_nat_append addrBytes_def be_nat_be_bytes)

lemma addrSlot_eq_0 [simp]: "addrSlot a = 0 \<longleftrightarrow> a = 0"
  by (metis addrSlot_0 addrSlot_inject)

text \<open>The preimages of the slots of the system account.\<close>

definition slotPre :: "annotPair set \<Rightarrow> bytes set" where
  "slotPre U = (\<lambda>p. ''annot'' @ apKey p @ CHR 0x00 # apVal p) ` U \<union>
     (\<lambda>i. ''id'' @ uint64Bytes i) ` UNIV \<union> {''entity_count''}"

text \<open>No two slots the service uses collide.\<close>

definition slots_ok :: "('db, 'bm, 'sdb) lib \<Rightarrow> annotPair set \<Rightarrow> bool" where
  "slots_ok L U \<longleftrightarrow> inj_on (Keccak256Hash L) (slotPre U) \<and> (\<forall>p \<in> U. CHR 0x00 \<notin> set (apKey p))"

lemma slots_okD:
  assumes "slots_ok L U" "x \<in> slotPre U" "y \<in> slotPre U"
  shows "Keccak256Hash L x = Keccak256Hash L y \<longleftrightarrow> x = y"
  using assms by (auto simp: slots_ok_def inj_on_def)

lemma slotPreI [simp]:
  "p \<in> U \<Longrightarrow> ''annot'' @ apKey p @ CHR 0x00 # apVal p \<in> slotPre U"
  "''id'' @ uint64Bytes i \<in> slotPre U"
  "''entity_count'' \<in> slotPre U"
  by (auto simp: slotPre_def)

lemma annotSlotKey_inject:
  assumes "slots_ok L U" "p \<in> U" "q \<in> U"
  shows "annotSlotKey L (apKey p) (apVal p) = annotSlotKey L (apKey q) (apVal q) \<longleftrightarrow> p = q"
proof -
  have "CHR 0x00 \<notin> set (apKey p)" "CHR 0x00 \<notin> set (apKey q)"
    using assms by (auto simp: slots_ok_def)
  then show ?thesis
    using slots_okD[OF assms(1) slotPreI(1)[OF assms(2)] slotPreI(1)[OF assms(3)]]
    by (auto simp: annotSlotKey_def split_at_nul)
qed

lemma idSlotKey_inject:
  "slots_ok L U \<Longrightarrow> idSlotKey L i = idSlotKey L j \<longleftrightarrow> i = j"
  using slots_okD[of L U "''id'' @ uint64Bytes i" "''id'' @ uint64Bytes j"]
  by (auto simp: idSlotKey_def slotPre_def)

lemma slot_kinds_differ:
  assumes "slots_ok L U"
  shows "p \<in> U \<Longrightarrow> annotSlotKey L (apKey p) (apVal p) \<noteq> idSlotKey L i"
    and "p \<in> U \<Longrightarrow> annotSlotKey L (apKey p) (apVal p) \<noteq> entityCountSlot L"
    and "idSlotKey L i \<noteq> entityCountSlot L"
  using slots_okD[OF assms slotPreI(1) slotPreI(2), of p i]
    slots_okD[OF assms slotPreI(1) slotPreI(3), of p] slots_okD[OF assms slotPreI(2) slotPreI(3), of i]
  by (auto simp: annotSlotKey_def idSlotKey_def entityCountSlot_def)

end
