(* ===== verification/Staging.thy ===== *)
theory Staging
  imports System
begin

text \<open>
  The write buffer of one block (\<open>store/staging.go\<close>): \<open>StagingDB\<close> overlays an in-memory database on
  the real one, and \<open>CacheStore\<close> adds the opened state and the per-block caches of entities and
  bitmaps. A discarded store is not used again, so \<open>discard\<close> is the end of its life in the model: the
  functions below that fail return the error and no store.
\<close>

section \<open>StagingDB\<close>

record 'db StagingDB =
  Database :: 'db
  staging :: 'db

definition newStagingDB :: "('db, 'bm, 'sdb) lib \<Rightarrow> 'db \<Rightarrow> 'db StagingDB" where
  "newStagingDB L real = \<lparr>Database = real, staging = memNew L\<rparr>"

definition stGet :: "('db, 'bm, 'sdb) lib \<Rightarrow> 'db StagingDB \<Rightarrow> bytes \<Rightarrow> bytes res" where
  "stGet L s key = (case dbGet L (staging s) key of Inr v \<Rightarrow> Inr v | Inl _ \<Rightarrow> dbGet L (Database s) key)"

definition stHas :: "('db, 'bm, 'sdb) lib \<Rightarrow> 'db StagingDB \<Rightarrow> bytes \<Rightarrow> bool res" where
  "stHas L s key =
     (case dbHas L (staging s) key of Inr True \<Rightarrow> Inr True | _ \<Rightarrow> dbHas L (Database s) key)"

definition stPut :: "('db, 'bm, 'sdb) lib \<Rightarrow> 'db StagingDB \<Rightarrow> bytes \<Rightarrow> bytes \<Rightarrow> 'db StagingDB res" where
  "stPut L s key v = andThen (dbPut L (staging s) key v) (\<lambda>m. Inr (s\<lparr>staging := m\<rparr>))"

definition stDelete :: "('db, 'bm, 'sdb) lib \<Rightarrow> 'db StagingDB \<Rightarrow> bytes \<Rightarrow> 'db StagingDB res" where
  "stDelete L s key = andThen (dbDelete L (staging s) key) (\<lambda>m. Inr (s\<lparr>staging := m\<rparr>))"

text \<open>\<open>NewBatch\<close> hands out a batch of the staging database; writing it lands there.\<close>

definition stBatchWrite :: "('db, 'bm, 'sdb) lib \<Rightarrow> 'db StagingDB \<Rightarrow> batchOp list \<Rightarrow> 'db StagingDB res" where
  "stBatchWrite L s ops = andThen (dbWrite L (staging s) ops) (\<lambda>m. Inr (s\<lparr>staging := m\<rparr>))"

definition stCommit :: "('db, 'bm, 'sdb) lib \<Rightarrow> 'db StagingDB \<Rightarrow> 'db res" where
  "stCommit L s = dbWrite L (Database s) (map (\<lambda>(k, v). BPut k v) (dbIter L (staging s) [] []))"

section \<open>CacheStore\<close>

record ('db, 'bm, 'sdb) CacheStore =
  stagingDB :: "'db StagingDB"
  stateDB :: 'sdb
  blockNumber :: uint64
  blockHash :: hash
  parentHash :: hash
  dirtyEntities :: "(address \<times> Entity) list"
  dirtyBitmaps :: "(annotPair \<times> 'bm) list"

definition newCacheStore ::
    "('db, 'bm, 'sdb) lib \<Rightarrow> 'db \<Rightarrow> hash \<Rightarrow> uint64 \<Rightarrow> ('db, 'bm, 'sdb) CacheStore res" where
  "newCacheStore L real parentRoot number =
     (let st = newStagingDB L real
      in andThen (wrapErr ''open state at %s'' (stateNew L (\<lambda>k. okOption (stGet L st k)) parentRoot))
           (\<lambda>sdb. Inr \<lparr>stagingDB = st, stateDB = sdb, blockNumber = number, blockHash = 0,
                       parentHash = 0, dirtyEntities = [], dirtyBitmaps = []\<rparr>))"

text \<open>
  \<open>getEntity\<close> returns the cached entity, or decodes the account's code and caches it. The pointer it
  returns is the one in the cache; a later write through it is a write to \<open>dirtyEntities\<close>.
\<close>

definition getEntity ::
    "('db, 'bm, 'sdb) lib \<Rightarrow> ('db, 'bm, 'sdb) CacheStore \<Rightarrow> address
      \<Rightarrow> (Entity \<times> ('db, 'bm, 'sdb) CacheStore) res" where
  "getEntity L c addr =
     (case map_of (dirtyEntities c) addr of
        Some e \<Rightarrow> Inr (e, c)
      | None \<Rightarrow>
          (let code = sdGetCode L (stateDB c) addr
           in if length code = 0 then Inl (Errorf ''entity %s not found'')
              else andThen (wrapErr ''decode entity'' (decodeEntity L code))
                     (\<lambda>e. Inr (e, c\<lparr>dirtyEntities := AList.update addr e (dirtyEntities c)\<rparr>))))"

section \<open>Lemmas\<close>

text \<open>What a staging database reads: the staged entry if there is one, the real one otherwise.\<close>

definition rdS :: "('db, 'bm, 'sdb) lib \<Rightarrow> 'db StagingDB \<Rightarrow> bytes \<rightharpoonup> bytes" where
  "rdS L s = rd L (Database s) ++ rd L (staging s)"

lemma okOption_stGet [simp]: "okOption (stGet L s k) = rdS L s k"
  by (auto simp: stGet_def rdS_def rd_def map_add_def okOption_eq_None split: sum.splits option.splits)

lemma stGet_rdS: "rdS L s k = Some v \<Longrightarrow> stGet L s k = Inr v"
  by (metis okOption_eq_Some okOption_stGet)

lemma stGet_rdS_None: "rdS L s k = None \<Longrightarrow> \<exists>e. stGet L s k = Inl e"
  by (metis okOption_eq_None okOption_stGet)

lemma stHas_rdS: "kv_ok L \<Longrightarrow> stHas L s k = Inr (rdS L s k \<noteq> None)"
  by (auto simp: stHas_def lib_simps rdS_def map_add_def split: sum.splits bool.splits option.splits)

lemma stPut_ok:
  assumes "kv_ok L"
  obtains s' where "stPut L s k v = Inr s'" "rdS L s' = (rdS L s)(k \<mapsto> v)" "Database s' = Database s"
    "rd L (staging s') = (rd L (staging s))(k \<mapsto> v)"
proof -
  from dbPut_ok[OF assms] obtain m where
    "dbPut L (staging s) k v = Inr m" "rd L m = (rd L (staging s))(k \<mapsto> v)" by blast
  then show thesis using that[of "s\<lparr>staging := m\<rparr>"] by (simp add: stPut_def rdS_def)
qed

lemma rdS_newStagingDB [simp]: "kv_ok L \<Longrightarrow> rdS L (newStagingDB L real) = rd L real"
  by (simp add: rdS_def newStagingDB_def lib_simps)

text \<open>Deleting a staged key does not hide the real entry.\<close>

lemma stDelete_falls_back:
  assumes "kv_ok L" "stDelete L s k = Inr s'"
  shows "rdS L s' = (rdS L s)(k := rd L (Database s) k)"
proof -
  from assms(1) have "\<exists>m. dbDelete L (staging s) k = Inr m \<and> rd L m = (rd L (staging s))(k := None)"
    by (simp add: kv_ok_def)
  with assms(2) have "Database s' = Database s" "rd L (staging s') = (rd L (staging s))(k := None)"
    by (auto simp: stDelete_def)
  then show ?thesis by (auto simp: rdS_def map_add_def fun_eq_iff)
qed

end
