(* ===== verification/Bitmap.thy ===== *)
theory Bitmap
  imports Staging
begin

text \<open>
  The bitmap cache of a block (\<open>store/bitmap.go\<close>). A bitmap is loaded on its first touch from the
  content-addressed blob its pointer names, changed in memory, and written back once, at commit, as a
  new blob, a new pointer, a new trie slot and, the first time, an entry of the existence index.
\<close>

definition mutateBitmap ::
    "('db, 'bm, 'sdb) lib \<Rightarrow> ('db, 'bm, 'sdb) CacheStore \<Rightarrow> string \<Rightarrow> string \<Rightarrow> ('bm \<Rightarrow> 'bm)
      \<Rightarrow> ('db, 'bm, 'sdb) CacheStore res" where
  "mutateBitmap L cs key val mutate =
     (let p = pair key val in
      case map_of (dirtyBitmaps cs) p of
        Some bm \<Rightarrow> Inr (cs\<lparr>dirtyBitmaps := AList.update p (mutate bm) (dirtyBitmaps cs)\<rparr>)
      | None \<Rightarrow>
          (let oldHashBytes = (case stGet L (stagingDB cs) (annotKey key val) of Inr b \<Rightarrow> b | Inl _ \<Rightarrow> [])
           in andThen
                (if length oldHashBytes = 32
                 then andThen (stGet L (stagingDB cs) (bitmapKey (BytesToHash oldHashBytes)))
                        (bmUnmarshal L)
                 else Inr (bmNew L))
                (\<lambda>bm. Inr (cs\<lparr>dirtyBitmaps := AList.update p (mutate bm) (dirtyBitmaps cs)\<rparr>))))"

definition bitmapAdd ::
    "('db, 'bm, 'sdb) lib \<Rightarrow> ('db, 'bm, 'sdb) CacheStore \<Rightarrow> string \<Rightarrow> string \<Rightarrow> uint64
      \<Rightarrow> ('db, 'bm, 'sdb) CacheStore res" where
  "bitmapAdd L cs key val entityID = mutateBitmap L cs key val (\<lambda>bm. bmAdd L bm entityID)"

definition bitmapRemove ::
    "('db, 'bm, 'sdb) lib \<Rightarrow> ('db, 'bm, 'sdb) CacheStore \<Rightarrow> string \<Rightarrow> string \<Rightarrow> uint64
      \<Rightarrow> ('db, 'bm, 'sdb) CacheStore res" where
  "bitmapRemove L cs key val entityID = mutateBitmap L cs key val (\<lambda>bm. bmRemove L bm entityID)"

text \<open>The body of the loop of \<open>flushBitmaps\<close>, for one pair of the cache.\<close>

definition flushBitmap ::
    "('db, 'bm, 'sdb) lib \<Rightarrow> annotPair \<Rightarrow> ('db, 'bm, 'sdb) CacheStore
      \<Rightarrow> ('db, 'bm, 'sdb) CacheStore res" where
  "flushBitmap L p c =
     (case map_of (dirtyBitmaps c) p of
        None \<Rightarrow> Inr c
      | Some bm \<Rightarrow>
          andThen (wrapErr ''marshal bitmap (%s, %s)'' (bmMarshal L bm)) (\<lambda>newBytes.
          let newHash = Keccak256Hash L newBytes in
          andThen (stPut L (stagingDB c) (bitmapKey newHash) newBytes) (\<lambda>st1.
          andThen (stPut L st1 (annotKey (apKey p) (apVal p)) (hashBytes newHash)) (\<lambda>st2.
          let sdb = setAnnotSlot L (stateDB c) (apKey p) (apVal p) newHash;
              pk = pairsKey (apKey p) (apVal p);
              has = (case stHas L st2 pk of Inr b \<Rightarrow> b | Inl _ \<Rightarrow> False)
          in andThen (if \<not> has then stPut L st2 pk [CHR 0x01] else Inr st2) (\<lambda>st3.
             Inr (c\<lparr>stagingDB := st3, stateDB := sdb\<rparr>))))))"

definition flushBitmaps ::
    "('db, 'bm, 'sdb) lib \<Rightarrow> ('db, 'bm, 'sdb) CacheStore \<Rightarrow> ('db, 'bm, 'sdb) CacheStore res" where
  "flushBitmaps L c = foldRes (flushBitmap L) (rangePairs L (map fst (dirtyBitmaps c))) c"

end
