(* ===== verification/Ops.thy ===== *)
theory Ops
  imports Bitmap
begin

text \<open>
  The six operations on entities (\<open>store/ops.go\<close>), each applied to the write buffer of a block, and
  their dispatcher. Ranging over a Go map visits its keys in the order the run time picks
  (\<open>rangePairs\<close>, \<open>rangeAddrs\<close>).
\<close>

definition addrOfKey :: "hash \<Rightarrow> address" where
  "addrOfKey key = BytesToAddress (take 20 (hashBytes key))"

definition addPairs ::
    "('db, 'bm, 'sdb) lib \<Rightarrow> uint64 \<Rightarrow> annotPair list \<Rightarrow> ('db, 'bm, 'sdb) CacheStore
      \<Rightarrow> ('db, 'bm, 'sdb) CacheStore res" where
  "addPairs L entityID pairs cs =
     foldRes (\<lambda>p cs. wrapErr ''bitmap add %q'' (bitmapAdd L cs (apKey p) (apVal p) entityID)) pairs cs"

definition removePairs ::
    "('db, 'bm, 'sdb) lib \<Rightarrow> uint64 \<Rightarrow> annotPair list \<Rightarrow> ('db, 'bm, 'sdb) CacheStore
      \<Rightarrow> ('db, 'bm, 'sdb) CacheStore res" where
  "removePairs L entityID pairs cs =
     foldRes (\<lambda>p cs. wrapErr ''bitmap remove %q'' (bitmapRemove L cs (apKey p) (apVal p) entityID)) pairs cs"

definition lookupID ::
    "('db, 'bm, 'sdb) lib \<Rightarrow> ('db, 'bm, 'sdb) CacheStore \<Rightarrow> address \<Rightarrow> uint64 res" where
  "lookupID L cs addr =
     andThen (wrapErr ''entity ID not found'' (stGet L (stagingDB cs) (addrKey addr))) decodeUint64"

text \<open>The entity a Create builds, and the one an Update builds from the old one.\<close>

definition newEntity :: "('db, 'bm, 'sdb) lib \<Rightarrow> uint64 \<Rightarrow> CreateOp \<Rightarrow> Entity" where
  "newEntity L number op = applyAttributes L
     \<lparr>Payload = coPayload op, Owner = coOwner op, Creator = coSender op,
      ExpiresAt = coExpiresAt op, CreatedAtBlock = number, LastModifiedAtBlock = number,
      TransactionIndexInBlock = ucast (coTxIndex op),
      OperationIndexInTransaction = ucast (coOpIndex op),
      ContentType = coContentType op, Key = coEntityKey op,
      StringAnnotations = [], NumericAnnotations = []\<rparr> (coAttributes op)"

definition updatedEntity :: "('db, 'bm, 'sdb) lib \<Rightarrow> uint64 \<Rightarrow> Entity \<Rightarrow> UpdateOp \<Rightarrow> Entity" where
  "updatedEntity L number old op = applyAttributes L
     \<lparr>Payload = uoPayload op, Owner = Owner old, Creator = Creator old,
      ExpiresAt = ExpiresAt old, CreatedAtBlock = CreatedAtBlock old, LastModifiedAtBlock = number,
      TransactionIndexInBlock = TransactionIndexInBlock old,
      OperationIndexInTransaction = OperationIndexInTransaction old,
      ContentType = uoContentType op, Key = Key old,
      StringAnnotations = [], NumericAnnotations = []\<rparr> (uoAttributes op)"

definition processCreate ::
    "('db, 'bm, 'sdb) lib \<Rightarrow> ('db, 'bm, 'sdb) CacheStore \<Rightarrow> CreateOp
      \<Rightarrow> ('db, 'bm, 'sdb) CacheStore res" where
  "processCreate L cs op =
     (let addr = addrOfKey (coEntityKey op);
          (entityID, sdb) = incrementEntityCount L (stateDB cs);
          sdb = sdCreateAccount L sdb addr;
          sdb = setIDSlot L sdb entityID addr
      in andThen (stPut L (stagingDB cs) (idKey entityID) (addrBytes addr)) (\<lambda>st.
         andThen (stPut L st (addrKey addr) (encodeUint64 entityID)) (\<lambda>st.
         let entity = newEntity L (blockNumber cs) op;
             cs = cs\<lparr>stagingDB := st, stateDB := sdb,
                     dirtyEntities := AList.update addr entity (dirtyEntities cs)\<rparr>
         in addPairs L entityID (allAnnotations L entity) cs)))"

definition processUpdate ::
    "('db, 'bm, 'sdb) lib \<Rightarrow> ('db, 'bm, 'sdb) CacheStore \<Rightarrow> UpdateOp
      \<Rightarrow> ('db, 'bm, 'sdb) CacheStore res" where
  "processUpdate L cs op =
     (let addr = addrOfKey (uoEntityKey op) in
      andThen (getEntity L cs addr) (\<lambda>(old, cs).
      andThen (lookupID L cs addr) (\<lambda>entityID.
      let updated = updatedEntity L (blockNumber cs) old op;
          oldSet = annotPairSet (allAnnotations L old);
          newSet = annotPairSet (allAnnotations L updated)
      in andThen (removePairs L entityID (filter (\<lambda>p. p \<notin> set newSet) (rangePairs L oldSet)) cs) (\<lambda>cs.
         andThen (addPairs L entityID (filter (\<lambda>p. p \<notin> set oldSet) (rangePairs L newSet)) cs) (\<lambda>cs.
         Inr (cs\<lparr>dirtyEntities := AList.update addr updated (dirtyEntities cs)\<rparr>))))))"

definition deleteEntity ::
    "('db, 'bm, 'sdb) lib \<Rightarrow> ('db, 'bm, 'sdb) CacheStore \<Rightarrow> address
      \<Rightarrow> ('db, 'bm, 'sdb) CacheStore res" where
  "deleteEntity L cs addr =
     andThen (getEntity L cs addr) (\<lambda>(entity, cs).
     andThen (lookupID L cs addr) (\<lambda>entityID.
     andThen (removePairs L entityID (allAnnotations L entity) cs) (\<lambda>cs.
     let sdb = clearIDSlot L (stateDB cs) entityID
     in Inr (cs\<lparr>dirtyEntities := AList.delete addr (dirtyEntities cs),
                stateDB := sdSetCode L sdb addr []\<rparr>))))"

definition processDelete ::
    "('db, 'bm, 'sdb) lib \<Rightarrow> ('db, 'bm, 'sdb) CacheStore \<Rightarrow> DeleteOp
      \<Rightarrow> ('db, 'bm, 'sdb) CacheStore res" where
  "processDelete L cs op = deleteEntity L cs (addrOfKey (doEntityKey op))"

definition processExtend ::
    "('db, 'bm, 'sdb) lib \<Rightarrow> ('db, 'bm, 'sdb) CacheStore \<Rightarrow> ExtendOp
      \<Rightarrow> ('db, 'bm, 'sdb) CacheStore res" where
  "processExtend L cs op =
     (let addr = addrOfKey (eoEntityKey op) in
      andThen (getEntity L cs addr) (\<lambda>(entity, cs).
      andThen (lookupID L cs addr) (\<lambda>entityID.
      andThen (bitmapRemove L cs ''$expiration'' (numericVal (ExpiresAt entity)) entityID) (\<lambda>cs.
      let entity = entity\<lparr>ExpiresAt := eoExpiresAt op\<rparr>;
          cs = cs\<lparr>dirtyEntities := AList.update addr entity (dirtyEntities cs)\<rparr>
      in bitmapAdd L cs ''$expiration'' (numericVal (ExpiresAt entity)) entityID))))"

definition processExpire ::
    "('db, 'bm, 'sdb) lib \<Rightarrow> ('db, 'bm, 'sdb) CacheStore \<Rightarrow> ExpireOp
      \<Rightarrow> ('db, 'bm, 'sdb) CacheStore res" where
  "processExpire L cs op = deleteEntity L cs (addrOfKey (xoEntityKey op))"

definition processTransfer ::
    "('db, 'bm, 'sdb) lib \<Rightarrow> ('db, 'bm, 'sdb) CacheStore \<Rightarrow> TransferOp
      \<Rightarrow> ('db, 'bm, 'sdb) CacheStore res" where
  "processTransfer L cs op =
     (let addr = addrOfKey (toEntityKey op) in
      andThen (getEntity L cs addr) (\<lambda>(entity, cs).
      andThen (lookupID L cs addr) (\<lambda>entityID.
      andThen (bitmapRemove L cs ''$owner'' (ToLower L (AddressHex L (Owner entity))) entityID) (\<lambda>cs.
      let entity = entity\<lparr>Owner := toOwner op\<rparr>;
          cs = cs\<lparr>dirtyEntities := AList.update addr entity (dirtyEntities cs)\<rparr>
      in bitmapAdd L cs ''$owner'' (ToLower L (AddressHex L (Owner entity))) entityID))))"

definition applyOp ::
    "('db, 'bm, 'sdb) lib \<Rightarrow> ('db, 'bm, 'sdb) CacheStore \<Rightarrow> ArkivOperation
      \<Rightarrow> ('db, 'bm, 'sdb) CacheStore res" where
  "applyOp L cs op =
     (case Create op of Some o1 \<Rightarrow> processCreate L cs o1 | None \<Rightarrow>
     (case Update op of Some o2 \<Rightarrow> processUpdate L cs o2 | None \<Rightarrow>
     (case Delete op of Some o3 \<Rightarrow> processDelete L cs o3 | None \<Rightarrow>
     (case Extend op of Some o4 \<Rightarrow> processExtend L cs o4 | None \<Rightarrow>
     (case Transfer op of Some o5 \<Rightarrow> processTransfer L cs o5 | None \<Rightarrow>
     (case Expire op of Some o6 \<Rightarrow> processExpire L cs o6 | None \<Rightarrow>
       Inl (Errorf ''empty operation'')))))))"

section \<open>Flushing and committing\<close>

definition flushEntity ::
    "('db, 'bm, 'sdb) lib \<Rightarrow> address \<Rightarrow> ('db, 'bm, 'sdb) CacheStore \<Rightarrow> ('db, 'bm, 'sdb) CacheStore res" where
  "flushEntity L addr c =
     (case map_of (dirtyEntities c) addr of
        None \<Rightarrow> Inr c
      | Some entity \<Rightarrow> andThen (encodeEntity L entity) (\<lambda>(data, _).
          Inr (c\<lparr>stateDB := sdSetCode L (stateDB c) addr data\<rparr>)))"

definition flushEntities ::
    "('db, 'bm, 'sdb) lib \<Rightarrow> ('db, 'bm, 'sdb) CacheStore \<Rightarrow> ('db, 'bm, 'sdb) CacheStore res" where
  "flushEntities L c = foldRes (flushEntity L) (rangeAddrs L (map fst (dirtyEntities c))) c"

definition putAll ::
    "('db, 'bm, 'sdb) lib \<Rightarrow> (bytes \<times> bytes) list \<Rightarrow> 'db StagingDB \<Rightarrow> 'db StagingDB res" where
  "putAll L kvs st = stBatchWrite L st (map (\<lambda>(k, v). BPut k v) kvs)"

definition Commit ::
    "('db, 'bm, 'sdb) lib \<Rightarrow> ('db, 'bm, 'sdb) CacheStore \<Rightarrow> (hash \<times> 'db) res" where
  "Commit L c =
     andThen (wrapErr ''flush entities'' (flushEntities L c)) (\<lambda>c.
     andThen (wrapErr ''flush bitmaps'' (flushBitmaps L c)) (\<lambda>c.
     andThen (wrapErr ''commit state''
        (andThen (sdCommit L (stateDB c) (blockNumber c)) (\<lambda>(root, codes, dirty).
         andThen (putAll L codes (stagingDB c)) (\<lambda>st. Inr (root, dirty, st))))) (\<lambda>(newRoot, dirty, st).
     andThen (wrapErr ''commit trie''
        (andThen (trieCommit L dirty newRoot) (\<lambda>nodes. putAll L nodes st))) (\<lambda>st.
     andThen (stPut L st (rootKey (blockHash c)) (hashBytes newRoot)) (\<lambda>st.
     andThen (stPut L st (parentKey (blockHash c)) (hashBytes (parentHash c))) (\<lambda>st.
     andThen (stPut L st (blockNumberKey (blockNumber c)) (hashBytes (blockHash c))) (\<lambda>st.
     andThen (wrapErr ''stage head''
        (stPut L st headKey (encodeHead (blockNumber c) (blockHash c) newRoot))) (\<lambda>st.
     andThen (wrapErr ''atomic flush'' (stCommit L st)) (\<lambda>db.
     Inr (newRoot, db))))))))))"

end
