(* ===== verification/Index_Inv.thy ===== *)
theory Index_Inv
  imports Ops
begin

text \<open>
  The contract of the store between operations. The abstract state is a table of live entities, from
  address to number and entity, with the counter of numbers handed out. The invariant says how the
  trie account, the system slots, the database entries and the in-memory caches represent that table;
  its central clause is that the bitmap of every annotation pair is exactly the set of numbers of the
  live entities carrying that pair.
\<close>

section \<open>The abstract state\<close>

type_synonym table = "address \<rightharpoonup> uint64 \<times> Entity"

definition idsOf :: "('db, 'bm, 'sdb) lib \<Rightarrow> table \<Rightarrow> annotPair \<Rightarrow> uint64 set" where
  "idsOf L T p = {i. \<exists>a e. T a = Some (i, e) \<and> p \<in> set (allAnnotations L e)}"

text \<open>
  Extend and Transfer replace the built-in pair of \<open>$expiration\<close> and \<open>$owner\<close> without looking at the
  user's annotations, so an entity must not carry a user annotation of that name.
\<close>

definition userKeysOk :: "Entity \<Rightarrow> bool" where
  "userKeysOk e \<longleftrightarrow> (\<forall>p \<in> set (userAnnotations e). apKey p \<noteq> ''$owner'' \<and> apKey p \<noteq> ''$expiration'')"

definition table_ok :: "('db, 'bm, 'sdb) lib \<Rightarrow> annotPair set \<Rightarrow> table \<Rightarrow> bool" where
  "table_ok L U T \<longleftrightarrow> T (systemAddress L) = None \<and>
     (\<forall>a i e. T a = Some (i, e) \<longrightarrow>
        set (allAnnotations L e) \<subseteq> U \<and> userKeysOk e \<and> addrOfKey (Key e) = a) \<and>
     (\<forall>a b i e f. T a = Some (i, e) \<longrightarrow> T b = Some (i, f) \<longrightarrow> a = b)"

section \<open>Representation\<close>

definition annotKeyP :: "annotPair \<Rightarrow> bytes" where
  "annotKeyP p = annotKey (apKey p) (apVal p)"

definition pairsKeyP :: "annotPair \<Rightarrow> bytes" where
  "pairsKeyP p = pairsKey (apKey p) (apVal p)"

definition slotOf :: "('db, 'bm, 'sdb) lib \<Rightarrow> 'sdb \<Rightarrow> annotPair \<Rightarrow> hash" where
  "slotOf L s p = sdGetState L s (systemAddress L) (annotSlotKey L (apKey p) (apVal p))"

definition idSlotOf :: "('db, 'bm, 'sdb) lib \<Rightarrow> 'sdb \<Rightarrow> uint64 \<Rightarrow> hash" where
  "idSlotOf L s i = sdGetState L s (systemAddress L) (idSlotKey L i)"

text \<open>The pointer, the trie slot and the blob of a pair agree, and the blob holds the set \<open>S\<close>.\<close>

definition ptr_ok ::
    "('db, 'bm, 'sdb) lib \<Rightarrow> (bytes \<rightharpoonup> bytes) \<Rightarrow> 'sdb \<Rightarrow> annotPair \<Rightarrow> uint64 set \<Rightarrow> bool" where
  "ptr_ok L g s p S \<longleftrightarrow>
     (g (annotKeyP p) = None \<and> slotOf L s p = 0 \<and> S = {}) \<or>
     (\<exists>h bs b. h \<noteq> 0 \<and> g (annotKeyP p) = Some (hashBytes h) \<and> slotOf L s p = h \<and>
        g (bitmapKey h) = Some bs \<and> bs \<noteq> [] \<and> bmUnmarshal L bs = Inr b \<and> bmSet L b = S)"

definition ids_ok ::
    "('db, 'bm, 'sdb) lib \<Rightarrow> (bytes \<rightharpoonup> bytes) \<Rightarrow> 'sdb \<Rightarrow> table \<Rightarrow> uint64 \<Rightarrow> bool" where
  "ids_ok L g s T n \<longleftrightarrow>
     (\<forall>a i e. T a = Some (i, e) \<longrightarrow> g (addrKey a) = Some (encodeUint64 i) \<and>
        g (idKey i) = Some (addrBytes a) \<and> idSlotOf L s i = addrSlot a \<and> i \<noteq> 0 \<and> i \<le> n) \<and>
     (\<forall>i. idSlotOf L s i \<noteq> 0 \<longrightarrow> (\<exists>a e. T a = Some (i, e))) \<and>
     readEntityCount L s = n"

definition code_ok :: "('db, 'bm, 'sdb) lib \<Rightarrow> 'sdb \<Rightarrow> address \<Rightarrow> (uint64 \<times> Entity) option \<Rightarrow> bool" where
  "code_ok L s a t \<longleftrightarrow>
     (case t of None \<Rightarrow> sdGetCode L s a = []
      | Some (i, e) \<Rightarrow> sdGetCode L s a \<noteq> [] \<and> rlpDecode L (sdGetCode L s a) = Inr e)"

text \<open>
  Every entry of the pointer index belongs to a pair of the universe \<open>U\<close> and is in the existence
  index, and every blob is stored under its own hash and lies in the set \<open>H\<close> of blobs on which the
  hash function is assumed to have no collision.
\<close>

definition index_keys_ok :: "annotPair set \<Rightarrow> (bytes \<rightharpoonup> bytes) \<Rightarrow> bool" where
  "index_keys_ok U g \<longleftrightarrow>
     (\<forall>k. prefix prefixAnnot k \<longrightarrow> g k \<noteq> None \<longrightarrow> k \<in> annotKeyP ` U) \<and>
     (\<forall>k. prefix prefixPairs k \<longrightarrow> g k \<noteq> None \<longrightarrow> k \<in> pairsKeyP ` U) \<and>
     (\<forall>p \<in> U. g (annotKeyP p) \<noteq> None \<longrightarrow> g (pairsKeyP p) \<noteq> None)"

definition blobs_ok :: "('db, 'bm, 'sdb) lib \<Rightarrow> bytes set \<Rightarrow> (bytes \<rightharpoonup> bytes) \<Rightarrow> bool" where
  "blobs_ok L H g \<longleftrightarrow> (\<forall>h bs. g (bitmapKey h) = Some bs \<longrightarrow> bs \<in> H \<and> Keccak256Hash L bs = h)"

definition hash_ok :: "('db, 'bm, 'sdb) lib \<Rightarrow> annotPair set \<Rightarrow> bytes set \<Rightarrow> bool" where
  "hash_ok L U H \<longleftrightarrow> slots_ok L U \<and> inj_on (Keccak256Hash L) H \<and>
     (\<forall>b \<in> H. Keccak256Hash L b \<noteq> 0 \<and> \<not> arkivKey (hashBytes (Keccak256Hash L b)))"

text \<open>The entries of the state library are content-addressed blobs of \<open>H\<close>.\<close>

definition nodes_ok :: "('db, 'bm, 'sdb) lib \<Rightarrow> bytes set \<Rightarrow> (bytes \<rightharpoonup> bytes) \<Rightarrow> bool" where
  "nodes_ok L H g \<longleftrightarrow> (\<forall>k v. g k = Some v \<longrightarrow> \<not> arkivKey k \<longrightarrow> v \<in> H \<and> nodeEntry L k v)"

text \<open>A committed state: nothing is cached.\<close>

definition consistent ::
    "('db, 'bm, 'sdb) lib \<Rightarrow> annotPair set \<Rightarrow> bytes set \<Rightarrow> (bytes \<rightharpoonup> bytes) \<Rightarrow> 'sdb \<Rightarrow> table \<Rightarrow> uint64
      \<Rightarrow> bool" where
  "consistent L U H g s T n \<longleftrightarrow>
     table_ok L U T \<and> ids_ok L g s T n \<and> (\<forall>a. code_ok L s a (T a)) \<and>
     (\<forall>p \<in> U. ptr_ok L g s p (idsOf L T p)) \<and> index_keys_ok U g \<and> blobs_ok L H g"

section \<open>Bitmaps of a block in progress\<close>

text \<open>
  In the middle of an operation the bitmaps are ahead of the table, so the clause for them is stated
  for any target \<open>S\<close>: the cached bitmap of a pair holds \<open>S p\<close>, or the pair is not cached and its
  stored bitmap does.
\<close>

definition bms_ok ::
    "('db, 'bm, 'sdb) lib \<Rightarrow> annotPair set \<Rightarrow> ('db, 'bm, 'sdb) CacheStore \<Rightarrow> (annotPair \<Rightarrow> uint64 set)
      \<Rightarrow> bool" where
  "bms_ok L U cs S \<longleftrightarrow>
     distinct (map fst (dirtyBitmaps cs)) \<and> fst ` set (dirtyBitmaps cs) \<subseteq> U \<and>
     (\<forall>p \<in> U. \<forall>b. map_of (dirtyBitmaps cs) p = Some b \<longrightarrow> bmSet L b = S p) \<and>
     (\<forall>p \<in> U. map_of (dirtyBitmaps cs) p = None \<longrightarrow>
        ptr_ok L (rdS L (stagingDB cs)) (stateDB cs) p (S p))"

lemma pair_collapse [simp]: "pair (apKey p) (apVal p) = p"
  by (cases p) simp

lemma bms_ok_cong:
  assumes "bms_ok L U cs S"
    and "dirtyBitmaps cs' = dirtyBitmaps cs"
    and "\<And>p. p \<in> U \<Longrightarrow> rdS L (stagingDB cs') (annotKeyP p) = rdS L (stagingDB cs) (annotKeyP p)"
    and "\<And>h. rdS L (stagingDB cs') (bitmapKey h) = rdS L (stagingDB cs) (bitmapKey h)"
    and "\<And>p. p \<in> U \<Longrightarrow> slotOf L (stateDB cs') p = slotOf L (stateDB cs) p"
    and "\<And>p. p \<in> U \<Longrightarrow> S' p = S p"
  shows "bms_ok L U cs' S'"
  using assms by (simp add: bms_ok_def ptr_ok_def)

lemma bms_ok_dirtyEntities [simp]: "bms_ok L U (cs\<lparr>dirtyEntities := al\<rparr>) S = bms_ok L U cs S"
  by (simp add: bms_ok_def)

text \<open>Loading and changing one bitmap changes the target of that pair only, and nothing else.\<close>

lemma mutateBitmap_ok:
  assumes ok: "lib_ok L" and b: "bms_ok L U cs S" and p: "p \<in> U"
    and f: "\<And>bm. bmSet L (f bm) = F (bmSet L bm)"
  shows "\<exists>al. mutateBitmap L cs (apKey p) (apVal p) f = Inr (cs\<lparr>dirtyBitmaps := al\<rparr>)
    \<and> bms_ok L U (cs\<lparr>dirtyBitmaps := al\<rparr>) (S(p := F (S p)))"
proof -
  let ?g = "rdS L (stagingDB cs)"
  have load: "\<exists>bm. bmSet L bm = S p \<and>
     mutateBitmap L cs (apKey p) (apVal p) f
       = Inr (cs\<lparr>dirtyBitmaps := AList.update p (f bm) (dirtyBitmaps cs)\<rparr>)"
  proof (cases "map_of (dirtyBitmaps cs) p")
    case (Some bm)
    with b p have "bmSet L bm = S p" by (simp add: bms_ok_def)
    with Some show ?thesis by (auto simp: mutateBitmap_def Let_def)
  next
    case None
    with b p have "ptr_ok L ?g (stateDB cs) p (S p)"
      by (simp add: bms_ok_def)
    then consider
        (absent) "?g (annotKeyP p) = None" "S p = {}"
      | (stored) h bs bm where "?g (annotKeyP p) = Some (hashBytes h)" "?g (bitmapKey h) = Some bs"
          "bmUnmarshal L bs = Inr bm" "bmSet L bm = S p"
      unfolding ptr_ok_def by auto
    then show ?thesis
    proof cases
      case absent
      then obtain e where "stGet L (stagingDB cs) (annotKeyP p) = Inl e"
        using stGet_rdS_None by blast
      with None absent ok show ?thesis
        by (intro exI[of _ "bmNew L"])
          (auto simp: mutateBitmap_def Let_def annotKeyP_def lib_simps lib_ok_def)
    next
      case stored
      then have "stGet L (stagingDB cs) (annotKeyP p) = Inr (hashBytes h)"
        "stGet L (stagingDB cs) (bitmapKey h) = Inr bs"
        by (simp_all add: stGet_rdS)
      with None stored show ?thesis
        by (intro exI[of _ bm]) (auto simp: mutateBitmap_def Let_def annotKeyP_def)
    qed
  qed
  then obtain bm where bm: "bmSet L bm = S p"
    "mutateBitmap L cs (apKey p) (apVal p) f
       = Inr (cs\<lparr>dirtyBitmaps := AList.update p (f bm) (dirtyBitmaps cs)\<rparr>)" by blast
  have "fst ` set (AList.update p (f bm) (dirtyBitmaps cs)) \<subseteq> U"
    using b p dom_update[of p "f bm" "dirtyBitmaps cs"] by (auto simp: bms_ok_def)
  with b bm f have
    "bms_ok L U (cs\<lparr>dirtyBitmaps := AList.update p (f bm) (dirtyBitmaps cs)\<rparr>) (S(p := F (S p)))"
    by (simp add: bms_ok_def distinct_update)
  with bm show ?thesis by blast
qed

lemma bitmapAdd_ok:
  assumes "lib_ok L" "bms_ok L U cs S" "p \<in> U"
  shows "\<exists>al. bitmapAdd L cs (apKey p) (apVal p) i = Inr (cs\<lparr>dirtyBitmaps := al\<rparr>)
    \<and> bms_ok L U (cs\<lparr>dirtyBitmaps := al\<rparr>) (S(p := insert i (S p)))"
  unfolding bitmapAdd_def by (rule mutateBitmap_ok) (use assms in \<open>auto simp: lib_simps lib_ok_def\<close>)

lemma bitmapRemove_ok:
  assumes "lib_ok L" "bms_ok L U cs S" "p \<in> U"
  shows "\<exists>al. bitmapRemove L cs (apKey p) (apVal p) i = Inr (cs\<lparr>dirtyBitmaps := al\<rparr>)
    \<and> bms_ok L U (cs\<lparr>dirtyBitmaps := al\<rparr>) (S(p := S p - {i}))"
  unfolding bitmapRemove_def by (rule mutateBitmap_ok) (use assms in \<open>auto simp: lib_simps lib_ok_def\<close>)

lemma addPairs_ok:
  assumes ok: "lib_ok L" and "bms_ok L U cs S" "set ps \<subseteq> U"
  shows "\<exists>al. addPairs L i ps cs = Inr (cs\<lparr>dirtyBitmaps := al\<rparr>)
    \<and> bms_ok L U (cs\<lparr>dirtyBitmaps := al\<rparr>) (\<lambda>p. if p \<in> set ps then insert i (S p) else S p)"
  using assms(2,3)
proof (induction ps arbitrary: cs S)
  case Nil
  then show ?case by (intro exI[of _ "dirtyBitmaps cs"]) (simp add: addPairs_def)
next
  case (Cons p ps)
  from bitmapAdd_ok[OF ok Cons.prems(1), of p i] Cons.prems(2) obtain al where
    al: "bitmapAdd L cs (apKey p) (apVal p) i = Inr (cs\<lparr>dirtyBitmaps := al\<rparr>)"
    "bms_ok L U (cs\<lparr>dirtyBitmaps := al\<rparr>) (S(p := insert i (S p)))"
    by auto
  from Cons.IH[OF al(2)] Cons.prems(2) obtain al' where
    al': "addPairs L i ps (cs\<lparr>dirtyBitmaps := al\<rparr>) = Inr (cs\<lparr>dirtyBitmaps := al'\<rparr>)"
    "bms_ok L U (cs\<lparr>dirtyBitmaps := al'\<rparr>)
       (\<lambda>q. if q \<in> set ps then insert i ((S(p := insert i (S p))) q) else (S(p := insert i (S p))) q)"
    by auto
  show ?case
  proof (intro exI[of _ al'] conjI)
    show "addPairs L i (p # ps) cs = Inr (cs\<lparr>dirtyBitmaps := al'\<rparr>)"
      using al(1) al'(1) by (simp add: addPairs_def)
    show "bms_ok L U (cs\<lparr>dirtyBitmaps := al'\<rparr>) (\<lambda>q. if q \<in> set (p # ps) then insert i (S q) else S q)"
      using al'(2) by (rule bms_ok_cong) auto
  qed
qed

lemma removePairs_ok:
  assumes ok: "lib_ok L" and "bms_ok L U cs S" "set ps \<subseteq> U"
  shows "\<exists>al. removePairs L i ps cs = Inr (cs\<lparr>dirtyBitmaps := al\<rparr>)
    \<and> bms_ok L U (cs\<lparr>dirtyBitmaps := al\<rparr>) (\<lambda>p. if p \<in> set ps then S p - {i} else S p)"
  using assms(2,3)
proof (induction ps arbitrary: cs S)
  case Nil
  then show ?case by (intro exI[of _ "dirtyBitmaps cs"]) (simp add: removePairs_def)
next
  case (Cons p ps)
  from bitmapRemove_ok[OF ok Cons.prems(1), of p i] Cons.prems(2) obtain al where
    al: "bitmapRemove L cs (apKey p) (apVal p) i = Inr (cs\<lparr>dirtyBitmaps := al\<rparr>)"
    "bms_ok L U (cs\<lparr>dirtyBitmaps := al\<rparr>) (S(p := S p - {i}))"
    by auto
  from Cons.IH[OF al(2)] Cons.prems(2) obtain al' where
    al': "removePairs L i ps (cs\<lparr>dirtyBitmaps := al\<rparr>) = Inr (cs\<lparr>dirtyBitmaps := al'\<rparr>)"
    "bms_ok L U (cs\<lparr>dirtyBitmaps := al'\<rparr>)
       (\<lambda>q. if q \<in> set ps then (S(p := S p - {i})) q - {i} else (S(p := S p - {i})) q)"
    by auto
  show ?case
  proof (intro exI[of _ al'] conjI)
    show "removePairs L i (p # ps) cs = Inr (cs\<lparr>dirtyBitmaps := al'\<rparr>)"
      using al(1) al'(1) by (simp add: removePairs_def)
    show "bms_ok L U (cs\<lparr>dirtyBitmaps := al'\<rparr>) (\<lambda>q. if q \<in> set (p # ps) then S q - {i} else S q)"
      using al'(2) by (rule bms_ok_cong) auto
  qed
qed

section \<open>The index and a change of the table\<close>

lemma idsOf_iff:
  assumes "table_ok L U T" "T a = Some (i, e)"
  shows "i \<in> idsOf L T p \<longleftrightarrow> p \<in> set (allAnnotations L e)"
  using assms by (fastforce simp: idsOf_def table_ok_def)

lemma idsOf_others:
  assumes "\<And>b f. T b = Some (i, f) \<Longrightarrow> b = a" "\<And>j f. T a = Some (j, f) \<Longrightarrow> j = i"
  shows "{j. \<exists>b f. b \<noteq> a \<and> T b = Some (j, f) \<and> p \<in> set (allAnnotations L f)} = idsOf L T p - {i}"
proof (rule set_eqI)
  fix j
  show "j \<in> {j. \<exists>b f. b \<noteq> a \<and> T b = Some (j, f) \<and> p \<in> set (allAnnotations L f)} \<longleftrightarrow>
      j \<in> idsOf L T p - {i}"
    unfolding idsOf_def mem_Collect_eq Diff_iff singleton_iff by (metis assms)
qed

lemma idsOf_update:
  assumes "\<And>b f. T b = Some (i, f) \<Longrightarrow> b = a" "\<And>j f. T a = Some (j, f) \<Longrightarrow> j = i"
  shows "idsOf L (T(a \<mapsto> (i, e))) p =
    (if p \<in> set (allAnnotations L e) then insert i (idsOf L T p) else idsOf L T p - {i})"
proof -
  have "idsOf L (T(a \<mapsto> (i, e))) p = {j. j = i \<and> p \<in> set (allAnnotations L e)} \<union>
      {j. \<exists>b f. b \<noteq> a \<and> T b = Some (j, f) \<and> p \<in> set (allAnnotations L f)}"
    by (auto simp: idsOf_def)
  moreover have "{j. \<exists>b f. b \<noteq> a \<and> T b = Some (j, f) \<and> p \<in> set (allAnnotations L f)}
      = idsOf L T p - {i}"
    by (rule idsOf_others) (erule assms)+
  ultimately show ?thesis by auto
qed

lemma idsOf_delete:
  assumes "table_ok L U T" "T a = Some (i, e)"
  shows "idsOf L (T(a := None)) p = idsOf L T p - {i}"
proof -
  have "idsOf L (T(a := None)) p = {j. \<exists>b f. b \<noteq> a \<and> T b = Some (j, f) \<and> p \<in> set (allAnnotations L f)}"
    by (auto simp: idsOf_def split: if_splits)
  also have "\<dots> = idsOf L T p - {i}"
    by (rule idsOf_others) (use assms in \<open>auto simp: table_ok_def\<close>)
  finally show ?thesis .
qed

lemma idsOf_subset_U:
  assumes "table_ok L U T" "p \<notin> U"
  shows "idsOf L T p = {}"
  using assms by (fastforce simp: idsOf_def table_ok_def)

lemma userAnnotations_simps [simp]:
  "userAnnotations (e\<lparr>ExpiresAt := x\<rparr>) = userAnnotations e"
  "userAnnotations (e\<lparr>Owner := o'\<rparr>) = userAnnotations e"
  by (simp_all add: userAnnotations_def)

lemma set_allAnnotations_Extend:
  assumes "userKeysOk e"
  shows "set (allAnnotations L (e\<lparr>ExpiresAt := x\<rparr>)) =
    insert (pair ''$expiration'' (numericVal x))
      (set (allAnnotations L e) - {pair ''$expiration'' (numericVal (ExpiresAt e))})"
  using assms by (auto simp: allAnnotations_def builtinAnnotations_def userKeysOk_def)

lemma set_allAnnotations_Transfer:
  assumes "userKeysOk e"
  shows "set (allAnnotations L (e\<lparr>Owner := w\<rparr>)) =
    insert (pair ''$owner'' (ToLower L (AddressHex L w)))
      (set (allAnnotations L e) - {pair ''$owner'' (ToLower L (AddressHex L (Owner e)))})"
  using assms by (auto simp: allAnnotations_def builtinAnnotations_def userKeysOk_def)

section \<open>The invariant of a block in progress\<close>

text \<open>The families of entries the operations stage; the rest is written by the commit.\<close>

definition stagedKey :: "bytes \<Rightarrow> bool" where
  "stagedKey k \<longleftrightarrow> prefix prefixBitmap k \<or> prefix prefixAnnot k \<or> prefix prefixPairs k \<or>
     prefix prefixID k \<or> prefix prefixAddr k"

lemma stagedKey_simps [simp]:
  "stagedKey (bitmapKey h)" "stagedKey (annotKey k v)" "stagedKey (idKey i)" "stagedKey (addrKey a)"
  "stagedKey (pairsKey k v)" "\<not> stagedKey (rootKey b)" "\<not> stagedKey (parentKey b)"
  "\<not> stagedKey (blockNumberKey n)" "\<not> stagedKey headKey"
  by (simp_all add: stagedKey_def key_defs prefix_defs)

lemma stagedKey_arkivKey: "stagedKey k \<Longrightarrow> arkivKey k"
  by (auto simp: stagedKey_def arkivKey_def prefix_defs prefix_def)

definition cs_inv ::
    "('db, 'bm, 'sdb) lib \<Rightarrow> annotPair set \<Rightarrow> bytes set \<Rightarrow> ('db, 'bm, 'sdb) CacheStore \<Rightarrow> table \<Rightarrow> uint64
      \<Rightarrow> bool" where
  "cs_inv L U H cs T n \<longleftrightarrow>
     table_ok L U T \<and> ids_ok L (rdS L (stagingDB cs)) (stateDB cs) T n \<and>
     distinct (map fst (dirtyEntities cs)) \<and>
     (\<forall>a e. map_of (dirtyEntities cs) a = Some e \<longrightarrow> (\<exists>i. T a = Some (i, e))) \<and>
     (\<forall>a. map_of (dirtyEntities cs) a = None \<longrightarrow> code_ok L (stateDB cs) a (T a)) \<and>
     bms_ok L U cs (idsOf L T) \<and>
     index_keys_ok U (rdS L (stagingDB cs)) \<and> blobs_ok L H (rdS L (stagingDB cs)) \<and>
     sdGetNonce L (stateDB cs) (systemAddress L) \<noteq> 0 \<and>
     derived L (rd L (Database (stagingDB cs))) (stateDB cs) \<and>
     (\<forall>k. rd L (staging (stagingDB cs)) k \<noteq> None \<longrightarrow> stagedKey k)"

lemma getEntity_ok:
  assumes inv: "cs_inv L U H cs T n" and T: "T a = Some (i, e)"
  shows "\<exists>al. getEntity L cs a = Inr (e, cs\<lparr>dirtyEntities := al\<rparr>)
    \<and> cs_inv L U H (cs\<lparr>dirtyEntities := al\<rparr>) T n"
proof (cases "map_of (dirtyEntities cs) a")
  case (Some f)
  have "\<exists>j. T a = Some (j, f)" using inv Some by (simp add: cs_inv_def)
  with T have "f = e" by simp
  with Some inv show ?thesis
    by (intro exI[of _ "dirtyEntities cs"]) (simp add: getEntity_def)
next
  case None
  have "code_ok L (stateDB cs) a (T a)" using inv None by (simp add: cs_inv_def)
  with T have c: "sdGetCode L (stateDB cs) a \<noteq> []" "rlpDecode L (sdGetCode L (stateDB cs) a) = Inr e"
    by (auto simp: code_ok_def)
  let ?al = "AList.update a e (dirtyEntities cs)"
  have "cs_inv L U H (cs\<lparr>dirtyEntities := ?al\<rparr>) T n"
    using inv T by (simp add: cs_inv_def distinct_update)
  moreover have "getEntity L cs a = Inr (e, cs\<lparr>dirtyEntities := ?al\<rparr>)"
    using None c by (simp add: getEntity_def decodeEntity_def)
  ultimately show ?thesis by blast
qed

lemma getEntity_missing:
  assumes "cs_inv L U H cs T n" "T a = None"
  shows "getEntity L cs a = Inl (Errorf ''entity %s not found'')"
proof -
  have d: "map_of (dirtyEntities cs) a = None"
    using assms unfolding cs_inv_def by (metis not_None_eq)
  then have "code_ok L (stateDB cs) a None" using assms by (metis cs_inv_def)
  with d show ?thesis by (simp add: getEntity_def code_ok_def)
qed

lemma lookupID_ok:
  assumes "cs_inv L U H cs T n" "T a = Some (i, e)"
  shows "lookupID L cs a = Inr i"
proof -
  have "rdS L (stagingDB cs) (addrKey a) = Some (encodeUint64 i)"
    using assms by (auto simp: cs_inv_def ids_ok_def)
  then show ?thesis by (simp add: lookupID_def stGet_rdS)
qed

text \<open>
  Replacing a live entity: when the bitmaps have been brought to the new table, so has the whole store.
\<close>

lemma cs_inv_replace:
  assumes inv: "cs_inv L U H cs T n" and T: "T a = Some (i, e)"
    and e': "set (allAnnotations L e') \<subseteq> U" "userKeysOk e'" "Key e' = Key e"
    and b: "bms_ok L U (cs\<lparr>dirtyBitmaps := al\<rparr>) (idsOf L (T(a \<mapsto> (i, e'))))"
  shows "cs_inv L U H (cs\<lparr>dirtyEntities := AList.update a e' (dirtyEntities cs), dirtyBitmaps := al\<rparr>)
    (T(a \<mapsto> (i, e'))) n"
proof -
  let ?T = "T(a \<mapsto> (i, e'))"
  have t: "table_ok L U T" using inv by (simp add: cs_inv_def)
  have "table_ok L U ?T" using t T e' by (auto simp: table_ok_def split: if_splits)
  moreover have "ids_ok L (rdS L (stagingDB cs)) (stateDB cs) ?T n"
  proof -
    have i: "ids_ok L (rdS L (stagingDB cs)) (stateDB cs) T n" using inv by (simp add: cs_inv_def)
    have "\<exists>b f. ?T b = Some (j, f)" if "T c = Some (j, f)" for c j f
      using that T by (cases "c = a") auto
    then have "\<exists>b f. ?T b = Some (j, f)" if "idSlotOf L (stateDB cs) j \<noteq> 0" for j
      using i that unfolding ids_ok_def by blast
    then show ?thesis using i T unfolding ids_ok_def by (auto split: if_splits)
  qed
  moreover have "bms_ok L U (cs\<lparr>dirtyEntities := AList.update a e' (dirtyEntities cs), dirtyBitmaps := al\<rparr>)
      (idsOf L ?T)"
    using b by (simp add: bms_ok_def)
  ultimately show ?thesis using inv by (auto simp: cs_inv_def distinct_update)
qed

section \<open>Frame rules\<close>

text \<open>Writing a key outside the annotation families does not disturb the index.\<close>

lemma annotKeyP_prefix [simp]: "prefix prefixAnnot (annotKeyP p)" "prefix prefixPairs (pairsKeyP p)"
  by (simp_all add: annotKeyP_def annotKey_def pairsKeyP_def pairsKey_def)

definition foreignKey :: "bytes \<Rightarrow> bool" where
  "foreignKey k \<longleftrightarrow> \<not> prefix prefixAnnot k \<and> \<not> prefix prefixPairs k \<and> (\<forall>h. k \<noteq> bitmapKey h)"

lemma foreignKey_simps [simp]:
  "foreignKey (idKey i)" "foreignKey (addrKey a)" "foreignKey (rootKey b)" "foreignKey (parentKey b)"
  "foreignKey (blockNumberKey n)" "foreignKey headKey"
  "\<not> arkivKey k \<Longrightarrow> foreignKey k"
  by (auto simp: foreignKey_def key_defs prefix_defs arkivKey_def prefix_def)

lemma index_frame:
  assumes "\<And>k. \<not> foreignKey k \<Longrightarrow> g' k = g k"
  shows "index_keys_ok U g' = index_keys_ok U g" "blobs_ok L H g' = blobs_ok L H g"
proof -
  have "g' k = g k" if "prefix prefixAnnot k \<or> prefix prefixPairs k \<or> (\<exists>h. k = bitmapKey h)" for k
    using assms that by (auto simp: foreignKey_def)
  then have a: "prefix prefixAnnot k \<Longrightarrow> g' k = g k" "prefix prefixPairs k \<Longrightarrow> g' k = g k"
    "g' (bitmapKey h) = g (bitmapKey h)" for k h by blast+
  show "index_keys_ok U g' = index_keys_ok U g"
    using a(1,2) by (simp add: index_keys_ok_def)
  show "blobs_ok L H g' = blobs_ok L H g"
    using a(3) by (simp add: blobs_ok_def)
qed

lemma index_keys_ok_upd [simp]: "foreignKey k \<Longrightarrow> index_keys_ok U (g(k := v)) = index_keys_ok U g"
  by (rule index_frame) auto

lemma blobs_ok_upd [simp]: "foreignKey k \<Longrightarrow> blobs_ok L H (g(k := v)) = blobs_ok L H g"
  by (rule index_frame) auto

lemma code_ok_cong: "sdGetCode L s' a = sdGetCode L s a \<Longrightarrow> code_ok L s' a t = code_ok L s a t"
  by (simp add: code_ok_def split: option.splits)

end
