(* ===== verification/Ops_Correct.thy ===== *)
theory Ops_Correct
  imports Index_Inv
begin

text \<open>
  The specification of the six operations on the table of live entities, and the proof that the
  handlers of \<open>store/ops.go\<close> implement it: from a store that represents the table, the handler
  returns a store that represents the new table, or, exactly when the entity does not exist, an error.
\<close>

section \<open>Specification\<close>

type_synonym astate = "table \<times> uint64"

definition absCreate :: "('db, 'bm, 'sdb) lib \<Rightarrow> uint64 \<Rightarrow> CreateOp \<Rightarrow> astate \<Rightarrow> astate option" where
  "absCreate L number op = (\<lambda>(T, n).
     Some (T(addrOfKey (coEntityKey op) \<mapsto> (n + 1, newEntity L number op)), n + 1))"

definition absModify :: "address \<Rightarrow> (Entity \<Rightarrow> Entity option) \<Rightarrow> astate \<Rightarrow> astate option" where
  "absModify a f = (\<lambda>(T, n). case T a of None \<Rightarrow> None
     | Some (i, e) \<Rightarrow> Some (T(a := map_option (Pair i) (f e)), n))"

definition absOp :: "('db, 'bm, 'sdb) lib \<Rightarrow> uint64 \<Rightarrow> ArkivOperation \<Rightarrow> astate \<Rightarrow> astate option" where
  "absOp L number op st =
     (case Create op of Some x \<Rightarrow> absCreate L number x st | None \<Rightarrow>
     (case Update op of Some x \<Rightarrow>
        absModify (addrOfKey (uoEntityKey x)) (\<lambda>e. Some (updatedEntity L number e x)) st | None \<Rightarrow>
     (case Delete op of Some x \<Rightarrow> absModify (addrOfKey (doEntityKey x)) (\<lambda>_. None) st | None \<Rightarrow>
     (case Extend op of Some x \<Rightarrow>
        absModify (addrOfKey (eoEntityKey x)) (\<lambda>e. Some (e\<lparr>ExpiresAt := eoExpiresAt x\<rparr>)) st | None \<Rightarrow>
     (case Transfer op of Some x \<Rightarrow>
        absModify (addrOfKey (toEntityKey x)) (\<lambda>e. Some (e\<lparr>Owner := toOwner x\<rparr>)) st | None \<Rightarrow>
     (case Expire op of Some x \<Rightarrow> absModify (addrOfKey (xoEntityKey x)) (\<lambda>_. None) st | None \<Rightarrow>
        None))))))"

text \<open>
  What the contract guarantees of an operation before it is forwarded: a created key is new and does
  not name the system account, the counter does not wrap, and the annotations of the resulting entity
  lie in \<open>U\<close> and do not shadow \<open>$owner\<close> or \<open>$expiration\<close>.
\<close>

definition entity_ok :: "('db, 'bm, 'sdb) lib \<Rightarrow> annotPair set \<Rightarrow> Entity \<Rightarrow> bool" where
  "entity_ok L U e \<longleftrightarrow> set (allAnnotations L e) \<subseteq> U \<and> userKeysOk e"

definition op_ok ::
    "('db, 'bm, 'sdb) lib \<Rightarrow> annotPair set \<Rightarrow> uint64 \<Rightarrow> ArkivOperation \<Rightarrow> astate \<Rightarrow> bool" where
  "op_ok L U number op = (\<lambda>(T, n).
     (\<forall>x. Create op = Some x \<longrightarrow>
        T (addrOfKey (coEntityKey x)) = None \<and> addrOfKey (coEntityKey x) \<noteq> systemAddress L \<and>
        n + 1 \<noteq> 0 \<and> entity_ok L U (newEntity L number x)) \<and>
     (\<forall>x i e. Update op = Some x \<longrightarrow> T (addrOfKey (uoEntityKey x)) = Some (i, e) \<longrightarrow>
        entity_ok L U (updatedEntity L number e x)) \<and>
     (\<forall>x. Extend op = Some x \<longrightarrow> pair ''$expiration'' (numericVal (eoExpiresAt x)) \<in> U) \<and>
     (\<forall>x. Transfer op = Some x \<longrightarrow> pair ''$owner'' (ToLower L (AddressHex L (toOwner x))) \<in> U))"

text \<open>What no operation changes: the block being built and the real database.\<close>

definition sameBlock :: "('db, 'bm, 'sdb) CacheStore \<Rightarrow> ('db, 'bm, 'sdb) CacheStore \<Rightarrow> bool" where
  "sameBlock cs cs' \<longleftrightarrow> blockNumber cs' = blockNumber cs \<and> blockHash cs' = blockHash cs \<and>
     parentHash cs' = parentHash cs \<and> Database (stagingDB cs') = Database (stagingDB cs)"

lemma sameBlock_refl [simp]: "sameBlock cs cs"
  by (simp add: sameBlock_def)

lemma sameBlock_trans: "sameBlock a b \<Longrightarrow> sameBlock b c \<Longrightarrow> sameBlock a c"
  by (simp add: sameBlock_def)

lemma sameBlock_caches [simp]:
  "sameBlock cs (cs\<lparr>dirtyEntities := x\<rparr>)" "sameBlock cs (cs\<lparr>dirtyBitmaps := y\<rparr>)"
  "sameBlock cs (cs\<lparr>stateDB := s\<rparr>)"
  by (simp_all add: sameBlock_def)

section \<open>Attributes\<close>

lemma applyAttributes_fields [simp]:
  "Payload (applyAttributes L e as) = Payload e" "Owner (applyAttributes L e as) = Owner e"
  "Creator (applyAttributes L e as) = Creator e" "ExpiresAt (applyAttributes L e as) = ExpiresAt e"
  "CreatedAtBlock (applyAttributes L e as) = CreatedAtBlock e"
  "LastModifiedAtBlock (applyAttributes L e as) = LastModifiedAtBlock e"
  "TransactionIndexInBlock (applyAttributes L e as) = TransactionIndexInBlock e"
  "OperationIndexInTransaction (applyAttributes L e as) = OperationIndexInTransaction e"
  "ContentType (applyAttributes L e as) = ContentType e" "Key (applyAttributes L e as) = Key e"
  unfolding applyAttributes_def
  by (induction as arbitrary: e; simp add: applyAttribute_def)+

lemma Key_newEntity [simp]: "Key (newEntity L number op) = coEntityKey op"
  by (simp add: newEntity_def)

lemma Key_updatedEntity [simp]: "Key (updatedEntity L number e op) = Key e"
  by (simp add: updatedEntity_def)

section \<open>Create\<close>

text \<open>The trie state of a Create: the counter, the new account and the number's slot.\<close>

definition createState :: "('db, 'bm, 'sdb) lib \<Rightarrow> 'sdb \<Rightarrow> address \<Rightarrow> 'sdb" where
  "createState L s a = (let (i, s1) = incrementEntityCount L s
     in setIDSlot L (sdCreateAccount L s1 a) i a)"

lemma createState_simps:
  fixes s :: 'sdb and L :: "('db, 'bm, 'sdb) lib"
  assumes ok: "lib_ok L" and slots: "slots_ok L U" and a: "a \<noteq> systemAddress L"
  defines "i \<equiv> readEntityCount L s + 1"
  shows "idSlotOf L (createState L s a) j = (if j = i then addrSlot a else idSlotOf L s j)"
    and "p \<in> U \<Longrightarrow> slotOf L (createState L s a) p = slotOf L s p"
    and "readEntityCount L (createState L s a) = i"
    and "sdGetCode L (createState L s a) b = (if b = a then [] else sdGetCode L s b)"
    and "sdGetNonce L (createState L s a) (systemAddress L) = sdGetNonce L s (systemAddress L)"
    and "derived L g s \<Longrightarrow> derived L g (createState L s a)"
proof -
  note ks = slot_kinds_differ[OF slots] idSlotKey_inject[OF slots]
  have acc: "account_ok L" using ok by blast
  note defs = createState_def incrementEntityCount_def setIDSlot_def Let_def i_def
  show "idSlotOf L (createState L s a) j = (if j = i then addrSlot a else idSlotOf L s j)"
    using a ks(3)[of j] ks(4)[of j i] by (auto simp: defs idSlotOf_def lib_simps acc)
  show "slotOf L (createState L s a) p = slotOf L s p" if "p \<in> U"
    using a ks(1,2) that by (auto simp: defs slotOf_def lib_simps acc)
  show "readEntityCount L (createState L s a) = i"
    using a ks(3)[of i] by (auto simp: defs readEntityCount_def lib_simps acc)
  show "sdGetCode L (createState L s a) b = (if b = a then [] else sdGetCode L s b)"
    by (simp add: defs lib_simps acc)
  show "sdGetNonce L (createState L s a) (systemAddress L) = sdGetNonce L s (systemAddress L)"
    using a by (simp add: defs lib_simps acc)
  show "derived L g (createState L s a)" if "derived L g s"
    using that by (auto simp: defs intro: derived.intros)
qed

lemma fresh_id:
  assumes "ids_ok L g s T n" "n + 1 \<noteq> 0"
  shows "T b \<noteq> Some (n + 1, e)"
proof
  assume "T b = Some (n + 1, e)"
  with assms(1) have "n + 1 \<le> n" by (auto simp: ids_ok_def)
  with assms(2) show False using word_less_plus_1[of n] by simp
qed

lemma processCreate_ok:
  assumes ok: "lib_ok L" and h: "hash_ok L U H" and inv: "cs_inv L U H cs T n"
    and a: "a = addrOfKey (coEntityKey op)" "T a = None" "a \<noteq> systemAddress L"
    and n: "n + 1 \<noteq> 0" and e: "entity_ok L U (newEntity L (blockNumber cs) op)"
  shows "\<exists>cs'. processCreate L cs op = Inr cs' \<and> sameBlock cs cs' \<and>
    cs_inv L U H cs' (T(a \<mapsto> (n + 1, newEntity L (blockNumber cs) op))) (n + 1)"
proof -
  let ?e = "newEntity L (blockNumber cs) op"
  let ?T = "T(a \<mapsto> (n + 1, ?e))"
  let ?g = "rdS L (stagingDB cs)"
  let ?s = "createState L (stateDB cs) a"
  have kv: "kv_ok L" and slots: "slots_ok L U" using ok h by (auto simp: hash_ok_def)
  from inv have t: "table_ok L U T" and ids: "ids_ok L ?g (stateDB cs) T n"
    and bms: "bms_ok L U cs (idsOf L T)" by (auto simp: cs_inv_def)
  have cnt: "readEntityCount L (stateDB cs) = n" using ids by (simp add: ids_ok_def)
  note S = createState_simps[OF ok slots a(3), where s = "stateDB cs", unfolded cnt]
  obtain st1 where st1: "stPut L (stagingDB cs) (idKey (n + 1)) (addrBytes a) = Inr st1"
    "rdS L st1 = ?g(idKey (n + 1) \<mapsto> addrBytes a)" "Database st1 = Database (stagingDB cs)"
    "rd L (staging st1) = (rd L (staging (stagingDB cs)))(idKey (n + 1) \<mapsto> addrBytes a)"
    using stPut_ok[OF kv] by blast
  obtain st2 where st2: "stPut L st1 (addrKey a) (encodeUint64 (n + 1)) = Inr st2"
    "rdS L st2 = ?g(idKey (n + 1) \<mapsto> addrBytes a, addrKey a \<mapsto> encodeUint64 (n + 1))"
    "Database st2 = Database (stagingDB cs)"
    "rd L (staging st2) = (rd L (staging (stagingDB cs)))
       (idKey (n + 1) \<mapsto> addrBytes a, addrKey a \<mapsto> encodeUint64 (n + 1))"
    using stPut_ok[OF kv, of st1] st1 by (metis (no_types))
  let ?cs = "cs\<lparr>stagingDB := st2, stateDB := ?s,
                dirtyEntities := AList.update a ?e (dirtyEntities cs)\<rparr>"
  have "bms_ok L U ?cs (idsOf L T)"
    by (rule bms_ok_cong[OF bms]) (simp_all add: st2 S annotKeyP_def)
  from addPairs_ok[OF ok this, of "allAnnotations L ?e" "n + 1"] e obtain al where
    al: "addPairs L (n + 1) (allAnnotations L ?e) ?cs = Inr (?cs\<lparr>dirtyBitmaps := al\<rparr>)"
    "bms_ok L U (?cs\<lparr>dirtyBitmaps := al\<rparr>)
       (\<lambda>p. if p \<in> set (allAnnotations L ?e) then insert (n + 1) (idsOf L T p) else idsOf L T p)"
    by (auto simp: entity_ok_def)
  have fresh: "T b \<noteq> Some (n + 1, f)" for b f by (rule fresh_id[OF ids n])
  have "idsOf L ?T p = (if p \<in> set (allAnnotations L ?e) then insert (n + 1) (idsOf L T p)
      else idsOf L T p - {n + 1})" for p
    by (rule idsOf_update) (use fresh a(2) in auto)
  moreover have "n + 1 \<notin> idsOf L T p" for p using fresh by (auto simp: idsOf_def)
  ultimately have b: "bms_ok L U (?cs\<lparr>dirtyBitmaps := al\<rparr>) (idsOf L ?T)"
    by (intro bms_ok_cong[OF al(2)]) auto
  have "processCreate L cs op = Inr (?cs\<lparr>dirtyBitmaps := al\<rparr>)"
    using al(1) st1(1) st2(1)
    by (simp add: processCreate_def incrementEntityCount_def createState_def Let_def cnt a(1)[symmetric])
  moreover have "cs_inv L U H (?cs\<lparr>dirtyBitmaps := al\<rparr>) ?T (n + 1)"
  proof -
    have 1: "table_ok L U ?T"
      using t fresh e a by (auto simp: table_ok_def entity_ok_def split: if_splits)
    have le: "i \<le> n + 1" if "i \<le> n" for i
      using that word_less_plus_1[OF n] by simp
    have live: "\<exists>b f. ?T b = Some (j, f)" if "idSlotOf L ?s j \<noteq> 0" for j
    proof (cases "j = n + 1")
      case False
      with that ids S(1) obtain b f where "T b = Some (j, f)" by (auto simp: ids_ok_def)
      moreover from this a(2) have "b \<noteq> a" by auto
      ultimately show ?thesis by auto
    qed auto
    have 2: "ids_ok L (rdS L st2) ?s ?T (n + 1)"
      using ids fresh n le live S(1,3) a(2) unfolding ids_ok_def
      by (simp add: st2 split: if_splits)
    have 3: "code_ok L ?s b t = code_ok L (stateDB cs) b t" if "b \<noteq> a" for b t
      using that by (intro code_ok_cong) (simp add: S)
    show ?thesis using inv b 1 2 3
      by (auto simp: cs_inv_def st2 S distinct_update)
  qed
  ultimately show ?thesis using st2(3) by (auto simp: sameBlock_def)
qed

section \<open>Update, Extend, Transfer, Delete\<close>

lemma idsOf_replace:
  assumes "table_ok L U T" "T a = Some (i, e)"
  shows "idsOf L (T(a \<mapsto> (i, e'))) p =
    (if p \<in> set (allAnnotations L e') then insert i (idsOf L T p) else idsOf L T p - {i})"
  by (rule idsOf_update) (use assms in \<open>auto simp: table_ok_def\<close>)

lemma processUpdate_ok:
  assumes ok: "lib_ok L" and inv: "cs_inv L U H cs T n"
    and a: "a = addrOfKey (uoEntityKey op)" "T a = Some (i, e)"
    and e': "entity_ok L U (updatedEntity L (blockNumber cs) e op)"
  shows "\<exists>cs'. processUpdate L cs op = Inr cs' \<and> sameBlock cs cs' \<and>
    cs_inv L U H cs' (T(a \<mapsto> (i, updatedEntity L (blockNumber cs) e op))) n"
proof -
  let ?e = "updatedEntity L (blockNumber cs) e op"
  let ?new = "set (allAnnotations L ?e)" and ?old = "set (allAnnotations L e)"
  from getEntity_ok[OF inv a(2)] obtain de where
    ge: "getEntity L cs a = Inr (e, cs\<lparr>dirtyEntities := de\<rparr>)"
    and inv1: "cs_inv L U H (cs\<lparr>dirtyEntities := de\<rparr>) T n" by blast
  let ?cs = "cs\<lparr>dirtyEntities := de\<rparr>"
  have t: "table_ok L U T" and b: "bms_ok L U ?cs (idsOf L T)" using inv1 by (auto simp: cs_inv_def)
  have sub: "?old \<subseteq> U" "?new \<subseteq> U" using t a e' by (auto simp: table_ok_def entity_ok_def)
  have rng: "set (rangePairs L (annotPairSet ps)) = set ps" for ps
    using ok by (simp add: lib_simps lib_ok_def)
  let ?rs = "filter (\<lambda>p. p \<notin> ?new) (rangePairs L (annotPairSet (allAnnotations L e)))"
  let ?as = "filter (\<lambda>p. p \<notin> ?old) (rangePairs L (annotPairSet (allAnnotations L ?e)))"
  have "set ?rs \<subseteq> U" "set ?as \<subseteq> U" using sub by (auto simp: rng)
  then obtain al where al: "removePairs L i ?rs ?cs = Inr (?cs\<lparr>dirtyBitmaps := al\<rparr>)"
    "bms_ok L U (?cs\<lparr>dirtyBitmaps := al\<rparr>) (\<lambda>p. if p \<in> set ?rs then idsOf L T p - {i} else idsOf L T p)"
    using removePairs_ok[OF ok b] by blast
  then obtain al' where al': "addPairs L i ?as (?cs\<lparr>dirtyBitmaps := al\<rparr>) = Inr (?cs\<lparr>dirtyBitmaps := al'\<rparr>)"
    "bms_ok L U (?cs\<lparr>dirtyBitmaps := al'\<rparr>) (\<lambda>p. if p \<in> set ?as
       then insert i (if p \<in> set ?rs then idsOf L T p - {i} else idsOf L T p)
       else (if p \<in> set ?rs then idsOf L T p - {i} else idsOf L T p))"
    using addPairs_ok[OF ok al(2) \<open>set ?as \<subseteq> U\<close>, of i] by auto
  have "bms_ok L U (?cs\<lparr>dirtyBitmaps := al'\<rparr>) (idsOf L (T(a \<mapsto> (i, ?e))))"
    by (rule bms_ok_cong[OF al'(2)])
      (use idsOf_iff[OF t a(2)] in \<open>auto simp: rng idsOf_replace[OF t a(2)]\<close>)
  from cs_inv_replace[OF inv1 a(2) _ _ _ this] e' have
    "cs_inv L U H (?cs\<lparr>dirtyEntities := AList.update a ?e de, dirtyBitmaps := al'\<rparr>) (T(a \<mapsto> (i, ?e))) n"
    by (simp add: entity_ok_def)
  moreover have "processUpdate L cs op =
      Inr (?cs\<lparr>dirtyEntities := AList.update a ?e de, dirtyBitmaps := al'\<rparr>)"
    using al(1) al'(1) lookupID_ok[OF inv1 a(2)]
    by (simp add: processUpdate_def ge Let_def a(1)[symmetric])
  ultimately show ?thesis by (auto simp: sameBlock_def)
qed

text \<open>Extend and Transfer both replace one built-in pair; this is their common core.\<close>

lemma swapPair_ok:
  assumes ok: "lib_ok L" and inv: "cs_inv L U H cs T n" and a: "T a = Some (i, e)"
    and e': "userKeysOk e'" "Key e' = Key e"
    and ann: "set (allAnnotations L e') = insert q (set (allAnnotations L e) - {p})"
    and pq: "p \<in> set (allAnnotations L e)" "q \<in> U"
  shows "\<exists>cs' al. bitmapRemove L cs (apKey p) (apVal p) i = Inr (cs\<lparr>dirtyBitmaps := al\<rparr>) \<and>
     bitmapAdd L (cs\<lparr>dirtyBitmaps := al, dirtyEntities := AList.update a e' (dirtyEntities cs)\<rparr>)
       (apKey q) (apVal q) i = Inr cs' \<and> sameBlock cs cs' \<and> cs_inv L U H cs' (T(a \<mapsto> (i, e'))) n"
proof -
  have t: "table_ok L U T" and b: "bms_ok L U cs (idsOf L T)" using inv by (auto simp: cs_inv_def)
  have sub: "set (allAnnotations L e) \<subseteq> U" using t a by (auto simp: table_ok_def)
  with pq have p: "p \<in> U" by blast
  from bitmapRemove_ok[OF ok b p] obtain al where
    al: "bitmapRemove L cs (apKey p) (apVal p) i = Inr (cs\<lparr>dirtyBitmaps := al\<rparr>)"
    "bms_ok L U (cs\<lparr>dirtyBitmaps := al\<rparr>) ((idsOf L T)(p := idsOf L T p - {i}))" by blast
  let ?cs = "cs\<lparr>dirtyBitmaps := al, dirtyEntities := AList.update a e' (dirtyEntities cs)\<rparr>"
  have "bms_ok L U ?cs ((idsOf L T)(p := idsOf L T p - {i}))"
    using al(2) by (simp add: bms_ok_def)
  from bitmapAdd_ok[OF ok this pq(2)] obtain al' where
    al': "bitmapAdd L ?cs (apKey q) (apVal q) i = Inr (?cs\<lparr>dirtyBitmaps := al'\<rparr>)"
    "bms_ok L U (?cs\<lparr>dirtyBitmaps := al'\<rparr>)
      (((idsOf L T)(p := idsOf L T p - {i}))(q := insert i (((idsOf L T)(p := idsOf L T p - {i})) q)))"
    by blast
  have "bms_ok L U (cs\<lparr>dirtyBitmaps := al'\<rparr>) (idsOf L (T(a \<mapsto> (i, e'))))"
    by (rule bms_ok_cong[OF al'(2)])
      (use idsOf_iff[OF t a] in \<open>auto simp: idsOf_replace[OF t a] ann\<close>)
  from cs_inv_replace[OF inv a _ _ _ this] have
    "cs_inv L U H (cs\<lparr>dirtyEntities := AList.update a e' (dirtyEntities cs), dirtyBitmaps := al'\<rparr>)
       (T(a \<mapsto> (i, e'))) n"
    using e' ann sub pq by auto
  with al(1) al'(1) show ?thesis
    by (intro exI[of _ "?cs\<lparr>dirtyBitmaps := al'\<rparr>"] exI[of _ al]) (simp add: sameBlock_def)
qed

lemma processExtend_ok:
  assumes ok: "lib_ok L" and inv: "cs_inv L U H cs T n"
    and a: "a = addrOfKey (eoEntityKey op)" "T a = Some (i, e)"
    and U: "pair ''$expiration'' (numericVal (eoExpiresAt op)) \<in> U"
  shows "\<exists>cs'. processExtend L cs op = Inr cs' \<and> sameBlock cs cs' \<and>
    cs_inv L U H cs' (T(a \<mapsto> (i, e\<lparr>ExpiresAt := eoExpiresAt op\<rparr>))) n"
proof -
  let ?e = "e\<lparr>ExpiresAt := eoExpiresAt op\<rparr>"
  from getEntity_ok[OF inv a(2)] obtain de where
    ge: "getEntity L cs a = Inr (e, cs\<lparr>dirtyEntities := de\<rparr>)"
    and inv1: "cs_inv L U H (cs\<lparr>dirtyEntities := de\<rparr>) T n" by blast
  have uk: "userKeysOk e" using inv a by (auto simp: cs_inv_def table_ok_def)
  have "userKeysOk ?e" using uk by (simp add: userKeysOk_def)
  moreover have "pair ''$expiration'' (numericVal (ExpiresAt e)) \<in> set (allAnnotations L e)"
    by (simp add: allAnnotations_def builtinAnnotations_def)
  ultimately obtain cs' al where
    "bitmapRemove L (cs\<lparr>dirtyEntities := de\<rparr>) ''$expiration'' (numericVal (ExpiresAt e)) i
       = Inr (cs\<lparr>dirtyEntities := de, dirtyBitmaps := al\<rparr>)"
    "bitmapAdd L (cs\<lparr>dirtyBitmaps := al, dirtyEntities := AList.update a ?e de\<rparr>)
       ''$expiration'' (numericVal (eoExpiresAt op)) i = Inr cs'"
    "sameBlock (cs\<lparr>dirtyEntities := de\<rparr>) cs'" "cs_inv L U H cs' (T(a \<mapsto> (i, ?e))) n"
    using swapPair_ok[OF ok inv1 a(2) _ _ set_allAnnotations_Extend[OF uk], of "eoExpiresAt op"] U by auto
  then show ?thesis
    using lookupID_ok[OF inv1 a(2)] by (simp add: processExtend_def ge Let_def a(1)[symmetric] sameBlock_def)
qed

lemma processTransfer_ok:
  assumes ok: "lib_ok L" and inv: "cs_inv L U H cs T n"
    and a: "a = addrOfKey (toEntityKey op)" "T a = Some (i, e)"
    and U: "pair ''$owner'' (ToLower L (AddressHex L (toOwner op))) \<in> U"
  shows "\<exists>cs'. processTransfer L cs op = Inr cs' \<and> sameBlock cs cs' \<and>
    cs_inv L U H cs' (T(a \<mapsto> (i, e\<lparr>Owner := toOwner op\<rparr>))) n"
proof -
  let ?e = "e\<lparr>Owner := toOwner op\<rparr>"
  from getEntity_ok[OF inv a(2)] obtain de where
    ge: "getEntity L cs a = Inr (e, cs\<lparr>dirtyEntities := de\<rparr>)"
    and inv1: "cs_inv L U H (cs\<lparr>dirtyEntities := de\<rparr>) T n" by blast
  have uk: "userKeysOk e" using inv a by (auto simp: cs_inv_def table_ok_def)
  have "userKeysOk ?e" using uk by (simp add: userKeysOk_def)
  moreover have "pair ''$owner'' (ToLower L (AddressHex L (Owner e))) \<in> set (allAnnotations L e)"
    by (simp add: allAnnotations_def builtinAnnotations_def)
  ultimately obtain cs' al where
    "bitmapRemove L (cs\<lparr>dirtyEntities := de\<rparr>) ''$owner'' (ToLower L (AddressHex L (Owner e))) i
       = Inr (cs\<lparr>dirtyEntities := de, dirtyBitmaps := al\<rparr>)"
    "bitmapAdd L (cs\<lparr>dirtyBitmaps := al, dirtyEntities := AList.update a ?e de\<rparr>)
       ''$owner'' (ToLower L (AddressHex L (toOwner op))) i = Inr cs'"
    "sameBlock (cs\<lparr>dirtyEntities := de\<rparr>) cs'" "cs_inv L U H cs' (T(a \<mapsto> (i, ?e))) n"
    using swapPair_ok[OF ok inv1 a(2) _ _ set_allAnnotations_Transfer[OF uk], of "toOwner op"] U by auto
  then show ?thesis
    using lookupID_ok[OF inv1 a(2)] by (simp add: processTransfer_def ge Let_def a(1)[symmetric] sameBlock_def)
qed

lemma cs_inv_remove:
  assumes ok: "lib_ok L" and slots: "slots_ok L U"
    and inv: "cs_inv L U H cs T n" and T: "T a = Some (i, e)"
    and b: "bms_ok L U (cs\<lparr>dirtyBitmaps := al\<rparr>) (idsOf L (T(a := None)))"
  shows "cs_inv L U H (cs\<lparr>dirtyBitmaps := al, dirtyEntities := AList.delete a (dirtyEntities cs),
      stateDB := sdSetCode L (clearIDSlot L (stateDB cs) i) a []\<rparr>) (T(a := None)) n"
proof -
  let ?s = "sdSetCode L (clearIDSlot L (stateDB cs) i) a []"
  let ?T = "T(a := None)"
  let ?cs = "cs\<lparr>dirtyBitmaps := al, dirtyEntities := AList.delete a (dirtyEntities cs), stateDB := ?s\<rparr>"
  have acc: "account_ok L" using ok by blast
  have t: "table_ok L U T" and ids: "ids_ok L (rdS L (stagingDB cs)) (stateDB cs) T n"
    using inv by (auto simp: cs_inv_def)
  note ks = slot_kinds_differ[OF slots] idSlotKey_inject[OF slots]
  have s: "idSlotOf L ?s j = (if j = i then 0 else idSlotOf L (stateDB cs) j)"
    "p \<in> U \<Longrightarrow> slotOf L ?s p = slotOf L (stateDB cs) p"
    "readEntityCount L ?s = readEntityCount L (stateDB cs)"
    "sdGetCode L ?s b = (if b = a then [] else sdGetCode L (stateDB cs) b)"
    "sdGetNonce L ?s b = sdGetNonce L (stateDB cs) b" for j p b
    using ks(1)[of p i] ks(3)[of i] ks(4)[of j i]
    by (auto simp: clearIDSlot_def idSlotOf_def slotOf_def readEntityCount_def lib_simps acc Let_def)
  have 1: "table_ok L U ?T" using t by (auto simp: table_ok_def)
  have live: "\<exists>b f. ?T b = Some (j, f)" if j: "idSlotOf L ?s j \<noteq> 0" for j
  proof -
    from j s(1) ids obtain b f where "T b = Some (j, f)" "j \<noteq> i"
      by (auto simp: ids_ok_def split: if_splits)
    with T have "b \<noteq> a" by auto
    with \<open>T b = _\<close> show ?thesis by auto
  qed
  have other: "j \<noteq> i" if "T b = Some (j, f)" "b \<noteq> a" for b j f
    using t T that unfolding table_ok_def by metis
  have 2: "ids_ok L (rdS L (stagingDB cs)) ?s ?T n"
    using ids live other unfolding ids_ok_def by (auto simp: s split: if_splits)
  have 3: "bms_ok L U ?cs (idsOf L ?T)"
    by (rule bms_ok_cong[OF b]) (simp_all add: s)
  have 4: "map_of (AList.delete a (dirtyEntities cs)) b = None \<Longrightarrow> code_ok L ?s b (?T b)" for b
    using inv code_ok_cong[of L ?s b "stateDB cs" "T b"]
    by (cases "b = a") (auto simp: cs_inv_def s code_ok_def)
  have "derived L g ?s" if "derived L g (stateDB cs)" for g
    using that by (auto simp: clearIDSlot_def intro: derived.intros)
  with inv 1 2 3 4 show ?thesis
    by (auto simp: cs_inv_def s distinct_delete)
qed

lemma deleteEntity_ok:
  assumes ok: "lib_ok L" and slots: "slots_ok L U" and inv: "cs_inv L U H cs T n"
    and T: "T a = Some (i, e)"
  shows "\<exists>cs'. deleteEntity L cs a = Inr cs' \<and> sameBlock cs cs' \<and> cs_inv L U H cs' (T(a := None)) n"
proof -
  from getEntity_ok[OF inv T] obtain de where
    ge: "getEntity L cs a = Inr (e, cs\<lparr>dirtyEntities := de\<rparr>)"
    and inv1: "cs_inv L U H (cs\<lparr>dirtyEntities := de\<rparr>) T n" by blast
  have t: "table_ok L U T" and b: "bms_ok L U (cs\<lparr>dirtyEntities := de\<rparr>) (idsOf L T)"
    using inv1 by (auto simp: cs_inv_def)
  have sub: "set (allAnnotations L e) \<subseteq> U" using t T by (auto simp: table_ok_def)
  from removePairs_ok[OF ok b sub] obtain al where
    al: "removePairs L i (allAnnotations L e) (cs\<lparr>dirtyEntities := de\<rparr>)
      = Inr (cs\<lparr>dirtyEntities := de, dirtyBitmaps := al\<rparr>)"
    "bms_ok L U (cs\<lparr>dirtyEntities := de, dirtyBitmaps := al\<rparr>)
      (\<lambda>p. if p \<in> set (allAnnotations L e) then idsOf L T p - {i} else idsOf L T p)" by blast
  have "bms_ok L U (cs\<lparr>dirtyEntities := de, dirtyBitmaps := al\<rparr>) (idsOf L (T(a := None)))"
    by (rule bms_ok_cong[OF al(2)])
      (use idsOf_iff[OF t T] in \<open>auto simp: idsOf_delete[OF t T]\<close>)
  from cs_inv_remove[OF ok slots inv1 T this] show ?thesis
    using al(1) lookupID_ok[OF inv1 T] by (simp add: deleteEntity_def ge sameBlock_def)
qed

lemma deleteEntity_missing:
  assumes "cs_inv L U H cs T n" "T a = None"
  shows "deleteEntity L cs a = Inl (Errorf ''entity %s not found'')"
  using getEntity_missing[OF assms] by (simp add: deleteEntity_def)

section \<open>The contract of an operation\<close>

text \<open>
  What every handler promises its callers: under the precondition \<open>pre\<close>, the handler succeeds exactly
  when the specification does, and then the store it returns represents the specified table.
\<close>

fun absFold :: "('o \<Rightarrow> 'a \<Rightarrow> 'a option) \<Rightarrow> 'o list \<Rightarrow> 'a \<Rightarrow> 'a option" where
  "absFold f [] st = Some st"
| "absFold f (x # xs) st = (case f x st of None \<Rightarrow> None | Some st' \<Rightarrow> absFold f xs st')"

fun preFold :: "('o \<Rightarrow> 'a \<Rightarrow> 'a option) \<Rightarrow> ('o \<Rightarrow> 'a \<Rightarrow> bool) \<Rightarrow> 'o list \<Rightarrow> 'a \<Rightarrow> bool" where
  "preFold f pre [] st = True"
| "preFold f pre (x # xs) st =
     (pre x st \<and> (case f x st of None \<Rightarrow> True | Some st' \<Rightarrow> preFold f pre xs st'))"

locale op_contract =
  fixes handle :: "('db, 'bm, 'sdb) lib \<Rightarrow> ('db, 'bm, 'sdb) CacheStore \<Rightarrow> 'o \<Rightarrow> ('db, 'bm, 'sdb) CacheStore res"
    and spec :: "('db, 'bm, 'sdb) lib \<Rightarrow> uint64 \<Rightarrow> 'o \<Rightarrow> astate \<Rightarrow> astate option"
    and pre :: "('db, 'bm, 'sdb) lib \<Rightarrow> annotPair set \<Rightarrow> uint64 \<Rightarrow> 'o \<Rightarrow> astate \<Rightarrow> bool"
  assumes succeeds: "\<lbrakk>lib_ok L; hash_ok L U H; cs_inv L U H cs T n; pre L U (blockNumber cs) op (T, n);
      spec L (blockNumber cs) op (T, n) = Some (T', n')\<rbrakk>
    \<Longrightarrow> \<exists>cs'. handle L cs op = Inr cs' \<and> sameBlock cs cs' \<and> cs_inv L U H cs' T' n'"
    and fails: "\<lbrakk>lib_ok L; hash_ok L U H; cs_inv L U H cs T n; pre L U (blockNumber cs) op (T, n);
      spec L (blockNumber cs) op (T, n) = None\<rbrakk> \<Longrightarrow> \<exists>e. handle L cs op = Inl e"
begin

text \<open>A sequence of operations implements the sequence of their specifications.\<close>

lemma sequence:
  assumes "lib_ok L" "hash_ok L U H" "cs_inv L U H cs T n"
    "preFold (spec L (blockNumber cs)) (pre L U (blockNumber cs)) ops (T, n)"
  shows "case absFold (spec L (blockNumber cs)) ops (T, n) of
      None \<Rightarrow> \<exists>e. foldRes (\<lambda>op cs. handle L cs op) ops cs = Inl e
    | Some (T', n') \<Rightarrow> \<exists>cs'. foldRes (\<lambda>op cs. handle L cs op) ops cs = Inr cs' \<and> sameBlock cs cs'
        \<and> cs_inv L U H cs' T' n'"
  using assms(3,4)
proof (induction ops arbitrary: cs T n)
  case Nil
  then show ?case by simp
next
  case (Cons op ops)
  show ?case
  proof (cases "spec L (blockNumber cs) op (T, n)")
    case None
    with fails[OF assms(1,2) Cons.prems(1)] Cons.prems(2) obtain e where "handle L cs op = Inl e"
      by auto
    with None show ?thesis by simp
  next
    case (Some st)
    obtain T1 n1 where st: "st = (T1, n1)" by fastforce
    have "pre L U (blockNumber cs) op (T, n)" using Cons.prems(2) by simp
    from succeeds[OF assms(1,2) Cons.prems(1) this] Some st obtain cs1 where
      cs1: "handle L cs op = Inr cs1" "sameBlock cs cs1" "cs_inv L U H cs1 T1 n1" by auto
    then have bn: "blockNumber cs1 = blockNumber cs" by (simp add: sameBlock_def)
    show ?thesis using Cons.IH[OF cs1(3)] Cons.prems(2) Some st cs1
      by (auto simp: bn split: option.splits intro: sameBlock_trans)
  qed
qed

end

text \<open>Each handler meets the contract, and so does the dispatcher.\<close>

lemma absModify_None: "absModify a f (T, n) = None \<longleftrightarrow> T a = None"
  by (auto simp: absModify_def split: option.splits)

lemma absModify_Some:
  "absModify a f (T, n) = Some (T', n') \<longleftrightarrow>
     (\<exists>i e. T a = Some (i, e) \<and> T' = T(a := map_option (Pair i) (f e)) \<and> n' = n)"
  by (auto simp: absModify_def split: option.splits)

definition preCreate :: "('db, 'bm, 'sdb) lib \<Rightarrow> annotPair set \<Rightarrow> uint64 \<Rightarrow> CreateOp \<Rightarrow> astate \<Rightarrow> bool" where
  "preCreate L U number x = (\<lambda>(T, n).
     T (addrOfKey (coEntityKey x)) = None \<and> addrOfKey (coEntityKey x) \<noteq> systemAddress L \<and>
     n + 1 \<noteq> 0 \<and> entity_ok L U (newEntity L number x))"

definition preUpdate :: "('db, 'bm, 'sdb) lib \<Rightarrow> annotPair set \<Rightarrow> uint64 \<Rightarrow> UpdateOp \<Rightarrow> astate \<Rightarrow> bool" where
  "preUpdate L U number x = (\<lambda>(T, n). \<forall>i e. T (addrOfKey (uoEntityKey x)) = Some (i, e) \<longrightarrow>
     entity_ok L U (updatedEntity L number e x))"

interpretation create: op_contract processCreate absCreate preCreate
proof (unfold_locales, goal_cases)
  case (1 L U H cs T n op T' n')
  then show ?case using processCreate_ok[OF 1(1-3) refl]
    by (auto simp: preCreate_def absCreate_def)
next
  case (2 L U H cs T n op)
  then show ?case by (simp add: absCreate_def)
qed

interpretation update: op_contract processUpdate
  "\<lambda>L number x. absModify (addrOfKey (uoEntityKey x)) (\<lambda>e. Some (updatedEntity L number e x))" preUpdate
proof (unfold_locales, goal_cases)
  case (1 L U H cs T n op T' n')
  then show ?case using processUpdate_ok[OF 1(1,3) refl]
    by (auto simp: preUpdate_def absModify_Some)
next
  case (2 L U H cs T n op)
  then show ?case using getEntity_missing[OF 2(3)]
    by (simp add: absModify_None processUpdate_def Let_def)
qed

interpretation delete: op_contract processDelete
  "\<lambda>L number x. absModify (addrOfKey (doEntityKey x)) (\<lambda>_. None)" "\<lambda>L U number x st. True"
proof (unfold_locales, goal_cases)
  case (1 L U H cs T n op T' n')
  then show ?case using deleteEntity_ok[OF 1(1) _ 1(3)]
    by (auto simp: absModify_Some processDelete_def hash_ok_def)
next
  case (2 L U H cs T n op)
  then show ?case using deleteEntity_missing[OF 2(3)]
    by (simp add: absModify_None processDelete_def)
qed

interpretation expire: op_contract processExpire
  "\<lambda>L number x. absModify (addrOfKey (xoEntityKey x)) (\<lambda>_. None)" "\<lambda>L U number x st. True"
proof (unfold_locales, goal_cases)
  case (1 L U H cs T n op T' n')
  then show ?case using deleteEntity_ok[OF 1(1) _ 1(3)]
    by (auto simp: absModify_Some processExpire_def hash_ok_def)
next
  case (2 L U H cs T n op)
  then show ?case using deleteEntity_missing[OF 2(3)]
    by (simp add: absModify_None processExpire_def)
qed

interpretation extend: op_contract processExtend
  "\<lambda>L number x. absModify (addrOfKey (eoEntityKey x)) (\<lambda>e. Some (e\<lparr>ExpiresAt := eoExpiresAt x\<rparr>))"
  "\<lambda>L U number x st. pair ''$expiration'' (numericVal (eoExpiresAt x)) \<in> U"
proof (unfold_locales, goal_cases)
  case (1 L U H cs T n op T' n')
  then show ?case using processExtend_ok[OF 1(1,3) refl _ 1(4)]
    by (auto simp: absModify_Some)
next
  case (2 L U H cs T n op)
  then show ?case using getEntity_missing[OF 2(3)]
    by (simp add: absModify_None processExtend_def Let_def)
qed

interpretation transfer: op_contract processTransfer
  "\<lambda>L number x. absModify (addrOfKey (toEntityKey x)) (\<lambda>e. Some (e\<lparr>Owner := toOwner x\<rparr>))"
  "\<lambda>L U number x st. pair ''$owner'' (ToLower L (AddressHex L (toOwner x))) \<in> U"
proof (unfold_locales, goal_cases)
  case (1 L U H cs T n op T' n')
  then show ?case using processTransfer_ok[OF 1(1,3) refl _ 1(4)]
    by (auto simp: absModify_Some)
next
  case (2 L U H cs T n op)
  then show ?case using getEntity_missing[OF 2(3)]
    by (simp add: absModify_None processTransfer_def Let_def)
qed

interpretation dispatch: op_contract applyOp absOp op_ok
proof (unfold_locales, goal_cases)
  case (1 L U H cs T n op T' n')
  note c = 1(1-3)
  show ?case
    using 1(4,5) create.succeeds[OF c] update.succeeds[OF c] delete.succeeds[OF c]
      extend.succeeds[OF c] transfer.succeeds[OF c] expire.succeeds[OF c]
    by (simp add: applyOp_def absOp_def op_ok_def preCreate_def preUpdate_def split: option.splits)
next
  case (2 L U H cs T n op)
  note c = 2(1-3)
  show ?case
    using 2(4,5) create.fails[OF c] update.fails[OF c] delete.fails[OF c]
      extend.fails[OF c] transfer.fails[OF c] expire.fails[OF c]
    by (simp add: applyOp_def absOp_def op_ok_def preCreate_def preUpdate_def split: option.splits)
qed

end
