(* ===== verification/Store.thy ===== *)
theory Store
  imports Ops
begin

text \<open>
  The store (\<open>store/store.go\<close>): the database with the in-memory head, processing of a block, and
  reversion, which repopulates the mutable database entries from the trie (\<open>store/revert.go\<close>). Each
  operation runs under the store's lock from start to end, so it is one step here. An operation that
  changes the store returns the new store; on an error it returns the store as it is then, together
  with the error.
\<close>

record 'db Store =
  rawDB :: 'db
  headRoot :: hash
  headHash :: hash
  headNumber :: uint64

definition New :: "('db, 'bm, 'sdb) lib \<Rightarrow> 'db \<Rightarrow> 'db Store" where
  "New L raw =
     (let (number, h, root) =
        (case dbGet L raw headKey of
           Inr b \<Rightarrow> if length b = 72 then decodeHead b else (0, 0, EmptyRootHash L)
         | Inl _ \<Rightarrow> (0, 0, EmptyRootHash L))
      in \<lparr>rawDB = raw, headRoot = root, headHash = h, headNumber = number\<rparr>)"

text \<open>The in-memory database has the same interface and starts empty.\<close>

definition NewMemory :: "('db, 'bm, 'sdb) lib \<Rightarrow> 'db Store" where
  "NewMemory L = New L (memNew L)"

definition HeadRoot :: "'db Store \<Rightarrow> hash" where "HeadRoot s = headRoot s"
definition HeadHash :: "'db Store \<Rightarrow> hash" where "HeadHash s = headHash s"
definition HeadNumber :: "'db Store \<Rightarrow> uint64" where "HeadNumber s = headNumber s"

section \<open>Processing a block\<close>

text \<open>Sender and index live at the transaction; a Create is given both before it is applied.\<close>

definition injectTx :: "ArkivTransaction \<Rightarrow> ArkivOperation \<Rightarrow> ArkivOperation" where
  "injectTx tx op =
     (case Create op of None \<Rightarrow> op
      | Some c \<Rightarrow> op\<lparr>Create := Some (c\<lparr>coSender := txSender tx, coTxIndex := txIndex tx\<rparr>)\<rparr>)"

definition applyTx ::
    "('db, 'bm, 'sdb) lib \<Rightarrow> ArkivTransaction \<Rightarrow> ('db, 'bm, 'sdb) CacheStore
      \<Rightarrow> ('db, 'bm, 'sdb) CacheStore res" where
  "applyTx L tx cs =
     foldRes (\<lambda>op cs. wrapErr ''tx %s op %d'' (applyOp L cs (injectTx tx op))) (txOperations tx) cs"

text \<open>The write buffer of a block after all its operations, before it is committed.\<close>

definition stageBlock ::
    "('db, 'bm, 'sdb) lib \<Rightarrow> 'db Store \<Rightarrow> ArkivBlock \<Rightarrow> ('db, 'bm, 'sdb) CacheStore res" where
  "stageBlock L s block =
     andThen (newCacheStore L (rawDB s) (headRoot s) (Number (Header block))) (\<lambda>cs.
     let cs = cs\<lparr>blockHash := Hash (Header block), parentHash := ParentHash (Header block),
                 stateDB := initSystemAccount L (stateDB cs)\<rparr>
     in foldRes (applyTx L) (Transactions block) cs)"

definition processBlock ::
    "('db, 'bm, 'sdb) lib \<Rightarrow> 'db Store \<Rightarrow> ArkivBlock \<Rightarrow> (hash \<times> 'db Store) res" where
  "processBlock L s block =
     andThen (stageBlock L s block) (\<lambda>cs.
     andThen (Commit L cs) (\<lambda>(newRoot, db).
     Inr (newRoot, \<lparr>rawDB = db, headRoot = newRoot, headHash = Hash (Header block),
                    headNumber = Number (Header block)\<rparr>)))"

section \<open>Repopulation on revert\<close>

fun splitAtNul :: "bytes \<Rightarrow> (bytes \<times> bytes) option" where
  "splitAtNul [] = None"
| "splitAtNul (c # cs) =
     (if c = CHR 0x00 then Some ([], cs)
      else map_option (\<lambda>(a, b). (c # a, b)) (splitAtNul cs))"

text \<open>The batch operation for one entry of the existence index, if its key is well formed.\<close>

definition repopulateAnnotEntry ::
    "('db, 'bm, 'sdb) lib \<Rightarrow> 'sdb \<Rightarrow> bytes \<Rightarrow> batchOp list" where
  "repopulateAnnotEntry L sdb k =
     (case splitAtNul (drop (length prefixPairs) k) of
        None \<Rightarrow> []
      | Some (aKey, aVal) \<Rightarrow>
          (let h = sdGetState L sdb (systemAddress L) (annotSlotKey L aKey aVal);
               ak = annotKey aKey aVal
           in if h = 0 then [BDelete ak] else [BPut ak (hashBytes h)]))"

definition repopulateAnnot ::
    "('db, 'bm, 'sdb) lib \<Rightarrow> 'db \<Rightarrow> 'sdb \<Rightarrow> batchOp list res" where
  "repopulateAnnot L raw sdb =
     (let ops = concat (map (\<lambda>(k, v). repopulateAnnotEntry L sdb k) (dbIter L raw prefixPairs []))
      in case dbIterError L raw prefixPairs [] of Some e \<Rightarrow> Inl e | None \<Rightarrow> Inr ops)"

definition repopulateIDEntry ::
    "('db, 'bm, 'sdb) lib \<Rightarrow> 'sdb \<Rightarrow> bytes \<times> bytes \<Rightarrow> batchOp list" where
  "repopulateIDEntry L sdb = (\<lambda>(k, v).
     if length k \<noteq> length prefixID + 8 then []
     else let i = bytesUint64 (drop (length prefixID) k);
              slotVal = sdGetState L sdb (systemAddress L) (idSlotKey L i)
          in if slotVal = 0
             then (if length v = 20 then [BDelete (addrKey (BytesToAddress v))] else []) @ [BDelete k]
             else [])"

definition repopulateIDs ::
    "('db, 'bm, 'sdb) lib \<Rightarrow> 'db \<Rightarrow> 'sdb \<Rightarrow> batchOp list res" where
  "repopulateIDs L raw sdb =
     (let ops = concat (map (repopulateIDEntry L sdb) (dbIter L raw prefixID []))
      in case dbIterError L raw prefixID [] of Some e \<Rightarrow> Inl e | None \<Rightarrow> Inr ops)"

definition repopulatePebbleDB ::
    "('db, 'bm, 'sdb) lib \<Rightarrow> 'db \<Rightarrow> 'sdb \<Rightarrow> batchOp list res" where
  "repopulatePebbleDB L raw sdb =
     andThen (repopulateAnnot L raw sdb) (\<lambda>ops1.
     andThen (repopulateIDs L raw sdb) (\<lambda>ops2. Inr (ops1 @ ops2)))"

section \<open>Revert\<close>

definition revertBlock :: "('db, 'bm, 'sdb) lib \<Rightarrow> 'db Store \<Rightarrow> ArkivBlockRef \<Rightarrow> 'db Store res" where
  "revertBlock L s ref =
     andThen (wrapErr ''parent hash not found for block %s'' (dbGet L (rawDB s) (parentKey (refHash ref))))
       (\<lambda>parentHashBytes.
     let parent = BytesToHash parentHashBytes;
         parentRoot = (case dbGet L (rawDB s) (rootKey parent) of
            Inr b \<Rightarrow> BytesToHash b | Inl _ \<Rightarrow> EmptyRootHash L)
     in andThen (wrapErr ''open state at %s'' (stateNew L (rd L (rawDB s)) parentRoot)) (\<lambda>sdb.
     andThen (wrapErr ''repopulate pebble'' (repopulatePebbleDB L (rawDB s) sdb)) (\<lambda>ops.
     let newHeadNumber = (if refNumber ref > 0 then refNumber ref - 1 else 0);
         batch = ops @ [BDelete (rootKey (refHash ref)), BDelete (parentKey (refHash ref)),
                        BDelete (blockNumberKey (refNumber ref)),
                        BPut headKey (encodeHead newHeadNumber parent parentRoot)]
     in andThen (wrapErr ''atomic revert flush'' (dbWrite L (rawDB s) batch)) (\<lambda>db.
     Inr \<lparr>rawDB = db, headRoot = parentRoot, headHash = parent, headNumber = newHeadNumber\<rparr>))))"

definition deleteRef :: "ArkivBlockRef \<Rightarrow> batchOp list" where
  "deleteRef ref = [BDelete (rootKey (refHash ref)), BDelete (parentKey (refHash ref)),
     BDelete (blockNumberKey (refNumber ref))]"

text \<open>The list is newest first; an empty list would index out of range.\<close>

definition revertToAncestor ::
    "('db, 'bm, 'sdb) lib \<Rightarrow> 'db Store \<Rightarrow> ArkivBlockRef list \<Rightarrow> 'db Store res" where
  "revertToAncestor L s revertedBlocks =
     (if revertedBlocks = [] then Inl (Panic ''index out of range'')
      else let oldest = last revertedBlocks in
     andThen (wrapErr ''parent hash not found for block %s''
        (dbGet L (rawDB s) (parentKey (refHash oldest)))) (\<lambda>parentHashBytes.
     let ancestorHash = BytesToHash parentHashBytes;
         ancestorRoot = (case dbGet L (rawDB s) (rootKey ancestorHash) of
            Inr b \<Rightarrow> BytesToHash b | Inl _ \<Rightarrow> EmptyRootHash L)
     in andThen (wrapErr ''open state at %s'' (stateNew L (rd L (rawDB s)) ancestorRoot)) (\<lambda>sdb.
     andThen (wrapErr ''repopulate pebble'' (repopulatePebbleDB L (rawDB s) sdb)) (\<lambda>ops.
     let ancestorNumber = (if refNumber oldest > 0 then refNumber oldest - 1 else refNumber oldest);
         batch = ops @ concat (map deleteRef revertedBlocks) @
                 [BPut headKey (encodeHead ancestorNumber ancestorHash ancestorRoot)]
     in andThen (wrapErr ''atomic revert flush'' (dbWrite L (rawDB s) batch)) (\<lambda>db.
     Inr \<lparr>rawDB = db, headRoot = ancestorRoot, headHash = ancestorHash,
          headNumber = ancestorNumber\<rparr>)))))"

section \<open>The store's interface\<close>

text \<open>
  The exported methods. Each returns what the caller gets and the store afterwards: a failed step
  leaves the store unchanged, but \<open>Reorg\<close> may have taken earlier steps by then.
\<close>

definition ProcessBlock ::
    "('db, 'bm, 'sdb) lib \<Rightarrow> 'db Store \<Rightarrow> ArkivBlock \<Rightarrow> hash res \<times> 'db Store" where
  "ProcessBlock L s block =
     (case processBlock L s block of Inl e \<Rightarrow> (Inl e, s) | Inr (root, s') \<Rightarrow> (Inr root, s'))"

definition RevertBlock ::
    "('db, 'bm, 'sdb) lib \<Rightarrow> 'db Store \<Rightarrow> ArkivBlockRef \<Rightarrow> hash res \<times> 'db Store" where
  "RevertBlock L s ref =
     (case revertBlock L s ref of Inl e \<Rightarrow> (Inl e, s) | Inr s' \<Rightarrow> (Inr (headRoot s'), s'))"

definition RevertBlocks ::
    "('db, 'bm, 'sdb) lib \<Rightarrow> 'db Store \<Rightarrow> ArkivBlockRef list \<Rightarrow> hash res \<times> 'db Store" where
  "RevertBlocks L s refs =
     (if refs = [] then (Inr (headRoot s), s)
      else case revertToAncestor L s refs of Inl e \<Rightarrow> (Inl e, s) | Inr s' \<Rightarrow> (Inr (headRoot s'), s'))"

fun reorgApply :: "('db, 'bm, 'sdb) lib \<Rightarrow> 'db Store \<Rightarrow> ArkivBlock list \<Rightarrow> hash res \<times> 'db Store" where
  "reorgApply L s [] = (Inr (headRoot s), s)"
| "reorgApply L s (block # blocks) =
     (case processBlock L s block of
        Inl e \<Rightarrow> (Inl (wrapE ''new block %d'' e), s)
      | Inr (_, s') \<Rightarrow> reorgApply L s' blocks)"

definition Reorg ::
    "('db, 'bm, 'sdb) lib \<Rightarrow> 'db Store \<Rightarrow> ArkivBlockRef list \<Rightarrow> ArkivBlock list
      \<Rightarrow> hash res \<times> 'db Store" where
  "Reorg L s revertedBlocks newBlocks =
     (if revertedBlocks \<noteq> [] then
        (case revertToAncestor L s revertedBlocks of
           Inl e \<Rightarrow> (Inl e, s)
         | Inr s' \<Rightarrow> reorgApply L s' newBlocks)
      else reorgApply L s newBlocks)"

end
