(* ===== verification/Commit_Correct.thy ===== *)
theory Commit_Correct
  imports Ops_Correct Store
begin

text \<open>
  Committing a block (\<open>Commit\<close> of \<open>store/staging.go\<close>): flushing the cached entities and bitmaps turns
  a block in progress into a state in which nothing is cached, and committing the trie and writing the
  staged entries in one batch makes that state the content of the database.
\<close>

section \<open>Flushing entities\<close>

lemma flushEntities_fold:
  assumes "lib_ok L"
  shows "\<exists>s'. foldRes (flushEntity L) xs c = Inr (c\<lparr>stateDB := s'\<rparr>)
     \<and> (\<forall>a e. map_of (dirtyEntities c) a = Some e \<longrightarrow> a \<in> set xs \<longrightarrow>
          sdGetCode L s' a \<noteq> [] \<and> rlpDecode L (sdGetCode L s' a) = Inr e)
     \<and> (\<forall>a. a \<notin> set xs \<or> map_of (dirtyEntities c) a = None \<longrightarrow> sdGetCode L s' a = sdGetCode L (stateDB c) a)
     \<and> sdGetState L s' = sdGetState L (stateDB c) \<and> sdGetNonce L s' = sdGetNonce L (stateDB c)
     \<and> (\<forall>g. derived L g (stateDB c) \<longrightarrow> derived L g s')"
proof (induction xs arbitrary: c)
  case Nil
  then show ?case by (intro exI[of _ "stateDB c"]) simp
next
  case (Cons x xs)
  show ?case
  proof (cases "map_of (dirtyEntities c) x")
    case None
    from Cons.IH[of c] obtain s' where
      "foldRes (flushEntity L) xs c = Inr (c\<lparr>stateDB := s'\<rparr>)
     \<and> (\<forall>a e. map_of (dirtyEntities c) a = Some e \<longrightarrow> a \<in> set xs \<longrightarrow>
          sdGetCode L s' a \<noteq> [] \<and> rlpDecode L (sdGetCode L s' a) = Inr e)
     \<and> (\<forall>a. a \<notin> set xs \<or> map_of (dirtyEntities c) a = None \<longrightarrow> sdGetCode L s' a = sdGetCode L (stateDB c) a)
     \<and> sdGetState L s' = sdGetState L (stateDB c) \<and> sdGetNonce L s' = sdGetNonce L (stateDB c)
     \<and> (\<forall>g. derived L g (stateDB c) \<longrightarrow> derived L g s')" by blast
    moreover have "flushEntity L x c = Inr c" using None by (simp add: flushEntity_def)
    ultimately show ?thesis using None by (intro exI[of _ s']) auto
  next
    case (Some e)
    obtain data where d: "encodeEntity L e = Inr (data, Keccak256Hash L data)" "data \<noteq> []"
      "rlpDecode L data = Inr e"
      using decode_encode_entity[of L e] assms by (auto simp: decodeEntity_def)
    let ?s = "sdSetCode L (stateDB c) x data"
    have acc: "sdGetCode L ?s a = (if a = x then data else sdGetCode L (stateDB c) a)"
      "sdGetState L ?s = sdGetState L (stateDB c)" "sdGetNonce L ?s = sdGetNonce L (stateDB c)" for a
      using assms by (auto simp: lib_simps lib_ok_def fun_eq_iff)
    from Cons.IH[of "c\<lparr>stateDB := ?s\<rparr>"] obtain s' where
      s': "foldRes (flushEntity L) xs (c\<lparr>stateDB := ?s\<rparr>) = Inr (c\<lparr>stateDB := s'\<rparr>)"
      "\<And>a e. map_of (dirtyEntities c) a = Some e \<Longrightarrow> a \<in> set xs \<Longrightarrow>
          sdGetCode L s' a \<noteq> [] \<and> rlpDecode L (sdGetCode L s' a) = Inr e"
      "\<And>a. a \<notin> set xs \<or> map_of (dirtyEntities c) a = None \<Longrightarrow> sdGetCode L s' a = sdGetCode L ?s a"
      "sdGetState L s' = sdGetState L (stateDB c)" "sdGetNonce L s' = sdGetNonce L (stateDB c)"
      "\<And>g. derived L g ?s \<Longrightarrow> derived L g s'"
      by (auto simp: acc(2,3))
    have "sdGetCode L s' a \<noteq> [] \<and> rlpDecode L (sdGetCode L s' a) = Inr f"
      if "map_of (dirtyEntities c) a = Some f" "a \<in> set (x # xs)" for a f
      using that s'(2,3)[of a] Some d by (cases "a \<in> set xs") (auto simp: acc)
    moreover have "sdGetCode L s' a = sdGetCode L (stateDB c) a"
      if "a \<notin> set (x # xs) \<or> map_of (dirtyEntities c) a = None" for a
      using that s'(3)[of a] Some by (auto simp: acc)
    moreover have "flushEntity L x c = Inr (c\<lparr>stateDB := ?s\<rparr>)" using Some d by (simp add: flushEntity_def)
    ultimately show ?thesis using s'(1,4,5) s'(6)[OF derived.setCode]
      by (intro exI[of _ s']) simp
  qed
qed

text \<open>A block whose entities are flushed; the bitmaps of the pairs in \<open>P\<close> are those of the table.\<close>

definition mid_inv ::
    "('db, 'bm, 'sdb) lib \<Rightarrow> annotPair set \<Rightarrow> bytes set \<Rightarrow> ('db, 'bm, 'sdb) CacheStore \<Rightarrow> table \<Rightarrow> uint64
      \<Rightarrow> annotPair set \<Rightarrow> bool" where
  "mid_inv L U H cs T n P \<longleftrightarrow>
     table_ok L U T \<and> ids_ok L (rdS L (stagingDB cs)) (stateDB cs) T n \<and>
     (\<forall>a. code_ok L (stateDB cs) a (T a)) \<and>
     (\<forall>p \<in> P. ptr_ok L (rdS L (stagingDB cs)) (stateDB cs) p (idsOf L T p)) \<and>
     index_keys_ok U (rdS L (stagingDB cs)) \<and> blobs_ok L H (rdS L (stagingDB cs)) \<and>
     sdGetNonce L (stateDB cs) (systemAddress L) \<noteq> 0 \<and>
     derived L (rd L (Database (stagingDB cs))) (stateDB cs) \<and>
     (\<forall>k. rd L (staging (stagingDB cs)) k \<noteq> None \<longrightarrow> stagedKey k)"

lemma slots_cong:
  assumes "sdGetState L s' = sdGetState L s"
  shows "ids_ok L g s' = ids_ok L g s" "ptr_ok L g s' = ptr_ok L g s"
  using assms by (auto simp: fun_eq_iff ids_ok_def ptr_ok_def idSlotOf_def slotOf_def readEntityCount_def)

lemma flushEntities_ok:
  assumes ok: "lib_ok L" and inv: "cs_inv L U H cs T n"
  shows "\<exists>s'. flushEntities L cs = Inr (cs\<lparr>stateDB := s'\<rparr>) \<and>
    mid_inv L U H (cs\<lparr>stateDB := s'\<rparr>) T n {p \<in> U. map_of (dirtyBitmaps cs) p = None}"
proof -
  let ?d = "dirtyEntities cs"
  have dist: "distinct (map fst ?d)" using inv by (simp add: cs_inv_def)
  then have r: "set (rangeAddrs L (map fst ?d)) = fst ` set ?d"
    using ok by (simp add: lib_simps lib_ok_def)
  have dom: "a \<in> set (rangeAddrs L (map fst ?d))" if "map_of ?d a = Some e" for a e
    unfolding r dom_map_of_conv_image_fst[symmetric] using that by (rule domI)
  obtain s' where s'0: "flushEntities L cs = Inr (cs\<lparr>stateDB := s'\<rparr>)"
    and s'1: "\<forall>a e. map_of ?d a = Some e \<longrightarrow> a \<in> set (rangeAddrs L (map fst ?d)) \<longrightarrow>
      sdGetCode L s' a \<noteq> [] \<and> rlpDecode L (sdGetCode L s' a) = Inr e"
    and s'2: "\<forall>a. a \<notin> set (rangeAddrs L (map fst ?d)) \<or> map_of ?d a = None \<longrightarrow>
      sdGetCode L s' a = sdGetCode L (stateDB cs) a"
    and s'3: "sdGetState L s' = sdGetState L (stateDB cs)" "sdGetNonce L s' = sdGetNonce L (stateDB cs)"
      "\<forall>g. derived L g (stateDB cs) \<longrightarrow> derived L g s'"
    using flushEntities_fold[OF ok, of "rangeAddrs L (map fst ?d)" cs]
    unfolding flushEntities_def by auto
  have s': "flushEntities L cs = Inr (cs\<lparr>stateDB := s'\<rparr>)"
    "\<And>a e. map_of ?d a = Some e \<Longrightarrow> sdGetCode L s' a \<noteq> [] \<and> rlpDecode L (sdGetCode L s' a) = Inr e"
    "\<And>a. map_of ?d a = None \<Longrightarrow> sdGetCode L s' a = sdGetCode L (stateDB cs) a"
    "sdGetState L s' = sdGetState L (stateDB cs)" "sdGetNonce L s' = sdGetNonce L (stateDB cs)"
    "\<And>g. derived L g (stateDB cs) \<Longrightarrow> derived L g s'"
    using s'0 s'1 s'2 s'3 dom by simp_all
  have "code_ok L s' a (T a)" for a
  proof (cases "map_of ?d a")
    case None
    moreover have "\<forall>a. map_of ?d a = None \<longrightarrow> code_ok L (stateDB cs) a (T a)"
      using inv unfolding cs_inv_def by (elim conjE)
    ultimately show ?thesis using code_ok_cong[OF s'(3)] by simp
  next
    case (Some e)
    then obtain i where "T a = Some (i, e)" using inv unfolding cs_inv_def by blast
    with s'(2)[OF Some] show ?thesis by (simp add: code_ok_def)
  qed
  then have "mid_inv L U H (cs\<lparr>stateDB := s'\<rparr>) T n {p \<in> U. map_of (dirtyBitmaps cs) p = None}"
    using inv s'(4-6) by (simp add: mid_inv_def cs_inv_def bms_ok_def slots_cong[OF s'(4)])
  with s'(1) show ?thesis by blast
qed

section \<open>Flushing bitmaps\<close>

lemma annotKeyP_inject:
  assumes "slots_ok L U" "p \<in> U" "q \<in> U"
  shows "annotKeyP p = annotKeyP q \<longleftrightarrow> p = q" "pairsKeyP p = pairsKeyP q \<longleftrightarrow> p = q"
  using assms annotKey_inject[of "apKey p" "apKey q"] pairsKey_inject[of "apKey p" "apKey q"]
  by (auto simp: annotKeyP_def pairsKeyP_def slots_ok_def)

lemma keyP_families [simp]:
  "annotKeyP p \<noteq> pairsKeyP q" "pairsKeyP p \<noteq> annotKeyP q" "annotKeyP p \<noteq> bitmapKey h"
  "bitmapKey h \<noteq> annotKeyP p" "pairsKeyP p \<noteq> bitmapKey h" "bitmapKey h \<noteq> pairsKeyP p"
  "addrKey a \<noteq> annotKeyP p" "addrKey a \<noteq> pairsKeyP p" "idKey i \<noteq> annotKeyP p" "idKey i \<noteq> pairsKeyP p"
  "stagedKey (annotKeyP p)" "stagedKey (pairsKeyP p)"
  by (simp_all add: annotKeyP_def pairsKeyP_def)

text \<open>The three entries a flushed bitmap writes.\<close>

definition flushWrites :: "('db, 'bm, 'sdb) lib \<Rightarrow> annotPair \<Rightarrow> bytes \<Rightarrow> (bytes \<rightharpoonup> bytes) \<Rightarrow> (bytes \<rightharpoonup> bytes)" where
  "flushWrites L p bs g =
     (let g' = g(bitmapKey (Keccak256Hash L bs) \<mapsto> bs, annotKeyP p \<mapsto> hashBytes (Keccak256Hash L bs))
      in if g (pairsKeyP p) = None then g'(pairsKeyP p \<mapsto> [CHR 0x01]) else g')"

lemma flushBitmap_eq:
  assumes ok: "lib_ok L" and b: "map_of (dirtyBitmaps c) p = Some b" "bmMarshal L b = Inr bs"
  shows "\<exists>st. flushBitmap L p c = Inr (c\<lparr>stagingDB := st,
         stateDB := setAnnotSlot L (stateDB c) (apKey p) (apVal p) (Keccak256Hash L bs)\<rparr>)
     \<and> rdS L st = flushWrites L p bs (rdS L (stagingDB c)) \<and> Database st = Database (stagingDB c)
     \<and> (\<forall>k. rd L (staging st) k \<noteq> None \<longrightarrow> rd L (staging (stagingDB c)) k \<noteq> None \<or> stagedKey k)"
proof -
  let ?h = "Keccak256Hash L bs"
  have kv: "kv_ok L" using ok by blast
  obtain st1 where st1: "stPut L (stagingDB c) (bitmapKey ?h) bs = Inr st1"
    "rdS L st1 = (rdS L (stagingDB c))(bitmapKey ?h \<mapsto> bs)" "Database st1 = Database (stagingDB c)"
    "rd L (staging st1) = (rd L (staging (stagingDB c)))(bitmapKey ?h \<mapsto> bs)"
    by (rule stPut_ok[OF kv])
  obtain st2 where st2: "stPut L st1 (annotKeyP p) (hashBytes ?h) = Inr st2"
    "rdS L st2 = (rdS L st1)(annotKeyP p \<mapsto> hashBytes ?h)" "Database st2 = Database st1"
    "rd L (staging st2) = (rd L (staging st1))(annotKeyP p \<mapsto> hashBytes ?h)"
    by (rule stPut_ok[OF kv])
  obtain st3 where st3: "stPut L st2 (pairsKeyP p) [CHR 0x01] = Inr st3"
    "rdS L st3 = (rdS L st2)(pairsKeyP p \<mapsto> [CHR 0x01])" "Database st3 = Database st2"
    "rd L (staging st3) = (rd L (staging st2))(pairsKeyP p \<mapsto> [CHR 0x01])"
    by (rule stPut_ok[OF kv])
  have has: "stHas L st2 (pairsKeyP p) = Inr (rdS L (stagingDB c) (pairsKeyP p) \<noteq> None)"
    by (simp add: stHas_rdS[OF kv] st2(2) st1(2))
  have r: "flushBitmap L p c = Inr (c\<lparr>stagingDB := if rdS L (stagingDB c) (pairsKeyP p) = None then st3 else st2,
         stateDB := setAnnotSlot L (stateDB c) (apKey p) (apVal p) ?h\<rparr>)"
    using st1(1) st2(1) st3(1) has b
    by (auto simp: flushBitmap_def annotKeyP_def pairsKeyP_def Let_def)
  show ?thesis
    by (rule exI, rule conjI, rule r) (simp add: flushWrites_def Let_def st1 st2 st3)
qed

lemma flushWrites_simps:
  "flushWrites L p bs g (bitmapKey h) = (if h = Keccak256Hash L bs then Some bs else g (bitmapKey h))"
  "flushWrites L p bs g (annotKeyP q) =
     (if annotKeyP q = annotKeyP p then Some (hashBytes (Keccak256Hash L bs)) else g (annotKeyP q))"
  "flushWrites L p bs g (addrKey a) = g (addrKey a)" "flushWrites L p bs g (idKey i) = g (idKey i)"
  "prefix prefixAnnot k \<Longrightarrow> flushWrites L p bs g k \<noteq> None \<longleftrightarrow> k = annotKeyP p \<or> g k \<noteq> None"
  "prefix prefixPairs k \<Longrightarrow> flushWrites L p bs g k \<noteq> None \<longleftrightarrow> k = pairsKeyP p \<or> g k \<noteq> None"
proof -
  have *: "\<not> prefix prefixAnnot (bitmapKey h)" "\<not> prefix prefixAnnot (pairsKeyP q)"
    "\<not> prefix prefixPairs (bitmapKey h)" "\<not> prefix prefixPairs (annotKeyP q)" for h q
    by (simp_all add: key_defs prefix_defs annotKeyP_def pairsKeyP_def)
  show "prefix prefixAnnot k \<Longrightarrow> flushWrites L p bs g k \<noteq> None \<longleftrightarrow> k = annotKeyP p \<or> g k \<noteq> None"
    "prefix prefixPairs k \<Longrightarrow> flushWrites L p bs g k \<noteq> None \<longleftrightarrow> k = pairsKeyP p \<or> g k \<noteq> None"
    using * by (auto simp: flushWrites_def Let_def split: if_splits)
qed (auto simp: flushWrites_def Let_def)

lemma index_keys_ok_flush:
  assumes "index_keys_ok U g" "p \<in> U" "slots_ok L U"
  shows "index_keys_ok U (flushWrites L p bs g)"
proof -
  have "flushWrites L p bs g (pairsKeyP q) \<noteq> None"
    if "q \<in> U" "flushWrites L p bs g (annotKeyP q) \<noteq> None" for q
  proof -
    have "q = p \<or> g (pairsKeyP q) \<noteq> None"
      using that assms(1) annotKeyP_inject(1)[OF assms(3) that(1) assms(2)]
      by (auto simp: flushWrites_simps(2) index_keys_ok_def split: if_splits)
    then show ?thesis by (simp only: flushWrites_simps(6)[OF annotKeyP_prefix(2)]) auto
  qed
  moreover have "k \<in> annotKeyP ` U" if "prefix prefixAnnot k" "flushWrites L p bs g k \<noteq> None" for k
    using that assms(1,2) flushWrites_simps(5)[OF that(1), of L p bs g] unfolding index_keys_ok_def by blast
  moreover have "k \<in> pairsKeyP ` U" if "prefix prefixPairs k" "flushWrites L p bs g k \<noteq> None" for k
    using that assms(1,2) flushWrites_simps(6)[OF that(1), of L p bs g] unfolding index_keys_ok_def by blast
  ultimately show ?thesis unfolding index_keys_ok_def by blast
qed

lemma blobs_ok_flush:
  "blobs_ok L H g \<Longrightarrow> bs \<in> H \<Longrightarrow> blobs_ok L H (flushWrites L p bs g)"
  by (auto simp: blobs_ok_def flushWrites_simps split: if_splits)

lemma setAnnotSlot_simps:
  assumes "account_ok L" "slots_ok L U" "p \<in> U"
  shows "q \<in> U \<Longrightarrow> slotOf L (setAnnotSlot L s (apKey p) (apVal p) h) q = (if q = p then h else slotOf L s q)"
    and "idSlotOf L (setAnnotSlot L s (apKey p) (apVal p) h) i = idSlotOf L s i"
    and "readEntityCount L (setAnnotSlot L s (apKey p) (apVal p) h) = readEntityCount L s"
    and "sdGetCode L (setAnnotSlot L s (apKey p) (apVal p) h) a = sdGetCode L s a"
    and "sdGetNonce L (setAnnotSlot L s (apKey p) (apVal p) h) a = sdGetNonce L s a"
    and "derived L g s \<Longrightarrow> derived L g (setAnnotSlot L s (apKey p) (apVal p) h)"
  using assms slot_kinds_differ[OF assms(2)] annotSlotKey_inject[OF assms(2)]
  by (auto simp: setAnnotSlot_def slotOf_def idSlotOf_def readEntityCount_def lib_simps Let_def
      intro: derived.setState) (metis slot_kinds_differ)+

lemma ptr_ok_flush:
  assumes "blobs_ok L H g" "bs \<in> H" "hash_ok L U H" "p \<in> U" "q \<in> U" "q \<noteq> p" "account_ok L"
    "ptr_ok L g s q S"
  shows "ptr_ok L (flushWrites L p bs g) (setAnnotSlot L s (apKey p) (apVal p) (Keccak256Hash L bs)) q S"
proof -
  have slots: "slots_ok L U" using assms(3) by (simp add: hash_ok_def)
  have "bs' = bs" if "g (bitmapKey (Keccak256Hash L bs)) = Some bs'" for bs'
    using that assms(1-3) by (auto simp: blobs_ok_def hash_ok_def inj_on_def)
  then show ?thesis
    using assms(4-8) annotKeyP_inject(1)[OF slots assms(5,4)] setAnnotSlot_simps(1)[OF assms(7) slots assms(4,5)]
    by (auto simp: ptr_ok_def flushWrites_simps)
qed

lemma flushBitmap_ok:
  assumes ok: "lib_ok L" and h: "hash_ok L U H" and inv: "mid_inv L U H c T n P" and P: "P \<subseteq> U" "p \<in> U"
    and b: "map_of (dirtyBitmaps c) p = Some b" "bmSet L b = idsOf L T p"
    and bs: "\<And>bs. bmMarshal L b = Inr bs \<Longrightarrow> bs \<in> H"
  shows "\<exists>st s. flushBitmap L p c = Inr (c\<lparr>stagingDB := st, stateDB := s\<rparr>)
     \<and> Database st = Database (stagingDB c)
     \<and> mid_inv L U H (c\<lparr>stagingDB := st, stateDB := s\<rparr>) T n (insert p P)"
proof -
  obtain bs b' where m: "bmMarshal L b = Inr bs" "bs \<noteq> []" "bmUnmarshal L bs = Inr b'" "bmSet L b' = bmSet L b"
    using bmMarshal_ok[of L b] ok by blast
  have H: "bs \<in> H" using bs m(1) .
  have slots: "slots_ok L U" and nz: "Keccak256Hash L bs \<noteq> 0" using h H by (auto simp: hash_ok_def)
  have acc: "account_ok L" using ok by blast
  let ?h = "Keccak256Hash L bs" and ?g = "rdS L (stagingDB c)"
  let ?s = "setAnnotSlot L (stateDB c) (apKey p) (apVal p) ?h"
  note ss = setAnnotSlot_simps[OF acc slots P(2)]
  obtain st where st: "flushBitmap L p c = Inr (c\<lparr>stagingDB := st, stateDB := ?s\<rparr>)"
    "rdS L st = flushWrites L p bs ?g" "Database st = Database (stagingDB c)"
    "\<And>k. rd L (staging st) k \<noteq> None \<Longrightarrow> rd L (staging (stagingDB c)) k \<noteq> None \<or> stagedKey k"
    using flushBitmap_eq[OF ok b(1) m(1)] by blast
  have "ptr_ok L (flushWrites L p bs ?g) ?s q (idsOf L T q)" if "q \<in> insert p P" for q
  proof (cases "q = p")
    case True
    then show ?thesis using m b(2) nz P(2) by (auto simp: ptr_ok_def flushWrites_simps ss)
  next
    case False
    with that P inv have "q \<in> U" "ptr_ok L ?g (stateDB c) q (idsOf L T q)"
      by (auto simp: mid_inv_def)
    with False show ?thesis using ptr_ok_flush[OF _ H h P(2) _ False acc] inv by (simp add: mid_inv_def)
  qed
  moreover have "ids_ok L (flushWrites L p bs ?g) ?s T n"
    using inv by (simp add: mid_inv_def ids_ok_def flushWrites_simps ss)
  moreover have "code_ok L ?s a (T a)" for a
    using inv code_ok_cong[OF ss(4)] by (simp add: mid_inv_def)
  moreover have stk: "\<forall>k. rd L (staging st) k \<noteq> None \<longrightarrow> stagedKey k"
    using st(4) inv unfolding mid_inv_def by blast
  ultimately have "mid_inv L U H (c\<lparr>stagingDB := st, stateDB := ?s\<rparr>) T n (insert p P)"
    using inv P(2) H slots st(2,3) ss(5,6) stk unfolding mid_inv_def
    by (simp add: index_keys_ok_flush blobs_ok_flush)
  with st show ?thesis by blast
qed

lemma flushBitmaps_fold:
  assumes ok: "lib_ok L" and h: "hash_ok L U H" and "mid_inv L U H c T n P" "P \<subseteq> U" "set ps \<subseteq> U"
    and "\<And>p. p \<in> set ps \<Longrightarrow> \<exists>b. map_of (dirtyBitmaps c) p = Some b \<and> bmSet L b = idsOf L T p"
    and "\<And>p b bs. map_of (dirtyBitmaps c) p = Some b \<Longrightarrow> bmMarshal L b = Inr bs \<Longrightarrow> bs \<in> H"
  shows "\<exists>st s. foldRes (flushBitmap L) ps c = Inr (c\<lparr>stagingDB := st, stateDB := s\<rparr>)
     \<and> Database st = Database (stagingDB c)
     \<and> mid_inv L U H (c\<lparr>stagingDB := st, stateDB := s\<rparr>) T n (P \<union> set ps)"
  using assms(3-7)
proof (induction ps arbitrary: c P)
  case Nil
  then show ?case by (intro exI[of _ "stagingDB c"] exI[of _ "stateDB c"]) simp
next
  case (Cons p ps)
  obtain b where b: "map_of (dirtyBitmaps c) p = Some b" "bmSet L b = idsOf L T p"
    using Cons.prems(4)[of p] by auto
  have pU: "p \<in> U" using Cons.prems(3) by simp
  obtain st s where 1: "flushBitmap L p c = Inr (c\<lparr>stagingDB := st, stateDB := s\<rparr>)"
     "Database st = Database (stagingDB c)"
     "mid_inv L U H (c\<lparr>stagingDB := st, stateDB := s\<rparr>) T n (insert p P)"
    using flushBitmap_ok[OF ok h Cons.prems(1,2) pU b Cons.prems(5)[OF b(1)]] by blast
  have 2: "insert p P \<subseteq> U" "set ps \<subseteq> U" using Cons.prems(2,3) by auto
  have "\<exists>st' s'. foldRes (flushBitmap L) ps (c\<lparr>stagingDB := st, stateDB := s\<rparr>)
       = Inr (c\<lparr>stagingDB := st', stateDB := s'\<rparr>) \<and> Database st' = Database st
     \<and> mid_inv L U H (c\<lparr>stagingDB := st', stateDB := s'\<rparr>) T n (insert p P \<union> set ps)"
    using Cons.IH[OF 1(3) 2] Cons.prems(4,5) by simp
  with 1(1,2) show ?case by auto
qed

lemma flushBitmaps_ok:
  assumes ok: "lib_ok L" and h: "hash_ok L U H" and b: "bms_ok L U cs (idsOf L T)"
    and inv: "mid_inv L U H (cs\<lparr>stateDB := s'\<rparr>) T n {p \<in> U. map_of (dirtyBitmaps cs) p = None}"
    and bs: "\<And>p b bs. map_of (dirtyBitmaps cs) p = Some b \<Longrightarrow> bmMarshal L b = Inr bs \<Longrightarrow> bs \<in> H"
  shows "\<exists>st s. flushBitmaps L (cs\<lparr>stateDB := s'\<rparr>) = Inr (cs\<lparr>stagingDB := st, stateDB := s\<rparr>)
     \<and> Database st = Database (stagingDB cs) \<and> mid_inv L U H (cs\<lparr>stagingDB := st, stateDB := s\<rparr>) T n U"
proof -
  let ?ps = "rangePairs L (map fst (dirtyBitmaps cs))" and ?P = "{p \<in> U. map_of (dirtyBitmaps cs) p = None}"
  have "distinct (map fst (dirtyBitmaps cs))" using b by (simp add: bms_ok_def)
  then have ps: "set ?ps = dom (map_of (dirtyBitmaps cs))"
    using ok by (simp add: lib_simps lib_ok_def dom_map_of_conv_image_fst)
  then have U: "set ?ps \<subseteq> U" using b by (simp add: bms_ok_def dom_map_of_conv_image_fst)
  have S: "\<exists>bm. map_of (dirtyBitmaps cs) p = Some bm \<and> bmSet L bm = idsOf L T p" if "p \<in> set ?ps" for p
  proof -
    from that obtain bm where "map_of (dirtyBitmaps cs) p = Some bm" unfolding ps by blast
    then show ?thesis using b U that unfolding bms_ok_def by blast
  qed
  have PU: "?P \<union> set ?ps = U" using U unfolding ps by auto
  have "?P \<subseteq> U" by blast
  from flushBitmaps_fold[OF ok h inv this U] S bs show ?thesis
    unfolding PU by (simp add: flushBitmaps_def)
qed

section \<open>Writing entries\<close>

lemma applyBatch_puts_notin:
  "k \<notin> fst ` set kvs \<Longrightarrow> applyBatch (map (\<lambda>(k, v). BPut k v) kvs) g k = g k"
  by (induction kvs arbitrary: g) auto

lemma applyBatch_puts_in:
  assumes "(k, v) \<in> set kvs" "\<And>w. (k, w) \<in> set kvs \<Longrightarrow> w = v"
  shows "applyBatch (map (\<lambda>(k, v). BPut k v) kvs) g k = Some v"
  using assms
proof (induction kvs arbitrary: g)
  case (Cons kw kvs)
  obtain k' w where kw: "kw = (k', w)" by fastforce
  show ?case
  proof (cases "k \<in> fst ` set kvs")
    case True
    then obtain w' where w': "(k, w') \<in> set kvs" by auto
    have "w' = v" by (rule Cons.prems(2)) (simp add: w')
    with w' have "(k, v) \<in> set kvs" by simp
    from Cons.IH[OF this] Cons.prems(2) show ?thesis by simp
  next
    case False
    then have "(k, v) \<notin> set kvs" by (metis fst_conv image_eqI)
    with Cons.prems(1) have "kw = (k, v)" by simp
    with False show ?thesis by (simp add: applyBatch_puts_notin)
  qed
qed simp

lemma applyBatch_map_add:
  "applyBatch (map (\<lambda>(k, v). BPut k v) kvs) (g ++ m) = g ++ applyBatch (map (\<lambda>(k, v). BPut k v) kvs) m"
  by (induction kvs arbitrary: m) (auto simp: map_add_upd[symmetric] simp del: map_add_upd)

lemma putAll_rdS:
  assumes "kv_ok L" "putAll L kvs st = Inr st'"
  shows "rdS L st' = applyBatch (map (\<lambda>(k, v). BPut k v) kvs) (rdS L st) \<and> Database st' = Database st"
  using assms rd_dbWrite[OF assms(1)]
  by (auto simp: putAll_def stBatchWrite_def andThen_eq_Inr rdS_def applyBatch_map_add)

lemma stPut_rdS:
  assumes "kv_ok L" "stPut L st k v = Inr st'"
  shows "rdS L st' = (rdS L st)(k \<mapsto> v) \<and> Database st' = Database st"
  by (rule stPut_ok[OF assms(1), of st k v]) (use assms(2) in simp)

text \<open>The atomic flush makes what the write buffer reads the content of the database.\<close>

lemma stCommit_rd:
  assumes kv: "kv_ok L" and c: "stCommit L st = Inr db"
  shows "rd L db = rdS L st"
proof
  fix k
  let ?kvs = "dbIter L (staging st) [] []"
  have s: "(k, v) \<in> set ?kvs \<longleftrightarrow> rd L (staging st) k = Some v" for v
    using kv by (simp add: lib_simps)
  have r: "rd L db = applyBatch (map (\<lambda>(k, v). BPut k v) ?kvs) (rd L (Database st))"
    using rd_dbWrite[OF kv] c by (simp add: stCommit_def)
  show "rd L db k = rdS L st k"
  proof (cases "rd L (staging st) k")
    case None
    with s have "k \<notin> fst ` set ?kvs" by auto
    then show ?thesis using None by (simp add: r applyBatch_puts_notin rdS_def map_add_def)
  next
    case (Some v)
    with s have "(k, v) \<in> set ?kvs" "\<And>w. (k, w) \<in> set ?kvs \<Longrightarrow> w = v" by auto
    from applyBatch_puts_in[OF this] show ?thesis using Some by (simp add: r rdS_def map_add_def)
  qed
qed

section \<open>The commit\<close>

text \<open>The blobs a commit writes: marshalled bitmaps, trie nodes and code.\<close>

definition commitBlobs :: "('db, 'bm, 'sdb) lib \<Rightarrow> ('db, 'bm, 'sdb) CacheStore \<Rightarrow> bytes set" where
  "commitBlobs L cs =
     {bs. \<exists>p b. map_of (dirtyBitmaps cs) p = Some b \<and> bmMarshal L b = Inr bs} \<union>
     {v. \<exists>c root codes dirty nodes k. andThen (flushEntities L cs) (flushBitmaps L) = Inr c \<and>
        sdCommit L (stateDB c) (blockNumber c) = Inr (root, codes, dirty) \<and>
        trieCommit L dirty root = Inr nodes \<and> (k, v) \<in> set (codes @ nodes)}"

text \<open>The entries a commit writes about the block itself.\<close>

definition blockWrites ::
    "uint64 \<Rightarrow> hash \<Rightarrow> hash \<Rightarrow> hash \<Rightarrow> (bytes \<rightharpoonup> bytes) \<Rightarrow> (bytes \<rightharpoonup> bytes)" where
  "blockWrites number bh ph root g = g(rootKey bh \<mapsto> hashBytes root, parentKey bh \<mapsto> hashBytes ph,
     blockNumberKey number \<mapsto> hashBytes bh, headKey \<mapsto> encodeHead number bh root)"

lemma flush_bitmaps_in:
  assumes ok: "lib_ok L" and h: "hash_ok L U H" and inv: "cs_inv L U H cs T n"
    and bl: "\<And>p b bs. map_of (dirtyBitmaps cs) p = Some b \<Longrightarrow> bmMarshal L b = Inr bs \<Longrightarrow> bs \<in> H"
  shows "\<exists>st s. andThen (flushEntities L cs) (flushBitmaps L) = Inr (cs\<lparr>stagingDB := st, stateDB := s\<rparr>)
     \<and> Database st = Database (stagingDB cs) \<and> mid_inv L U H (cs\<lparr>stagingDB := st, stateDB := s\<rparr>) T n U"
proof -
  obtain s1 where s1: "flushEntities L cs = Inr (cs\<lparr>stateDB := s1\<rparr>)"
    "mid_inv L U H (cs\<lparr>stateDB := s1\<rparr>) T n {p \<in> U. map_of (dirtyBitmaps cs) p = None}"
    using flushEntities_ok[OF ok inv] by blast
  have b: "bms_ok L U cs (idsOf L T)" using inv by (simp add: cs_inv_def)
  from flushBitmaps_ok[OF ok h b s1(2) bl] s1(1) show ?thesis by simp
qed

lemma flush_ok:
  assumes "lib_ok L" "hash_ok L U H" "cs_inv L U H cs T n" "commitBlobs L cs \<subseteq> H"
  shows "\<exists>st s. andThen (flushEntities L cs) (flushBitmaps L) = Inr (cs\<lparr>stagingDB := st, stateDB := s\<rparr>)
     \<and> Database st = Database (stagingDB cs) \<and> mid_inv L U H (cs\<lparr>stagingDB := st, stateDB := s\<rparr>) T n U"
proof (rule flush_bitmaps_in[OF assms(1-3)])
  fix p b bs assume "map_of (dirtyBitmaps cs) p = Some b" "bmMarshal L b = Inr bs"
  then show "bs \<in> H" using assms(4) unfolding commitBlobs_def by blast
qed

lemma Commit_succeeds:
  assumes ok: "lib_ok L" and io: "io_ok L" and h: "hash_ok L U H" and inv: "cs_inv L U H cs T n"
    and bl: "commitBlobs L cs \<subseteq> H"
  shows "\<exists>root db. Commit L cs = Inr (root, db)"
proof -
  have put: "\<exists>st'. stPut L st k v = Inr st'" for st k v using stPut_ok ok by (metis lib_okD(1))
  have all: "\<exists>st'. putAll L kvs st = Inr st'" for st kvs
    using io_okD(1)[OF io, of "staging st" "map (\<lambda>(k, v). BPut k v) kvs"]
    by (auto simp: putAll_def stBatchWrite_def)
  have cm: "\<exists>db. stCommit L st = Inr db" for st
    using io_okD(1)[OF io] by (simp add: stCommit_def)
  obtain st s where f: "andThen (flushEntities L cs) (flushBitmaps L) = Inr (cs\<lparr>stagingDB := st, stateDB := s\<rparr>)"
    using flush_ok[OF ok h inv bl] by blast
  then obtain c1 where c1: "flushEntities L cs = Inr c1" "flushBitmaps L c1 = Inr (cs\<lparr>stagingDB := st, stateDB := s\<rparr>)"
    by (auto simp: andThen_eq_Inr)
  obtain root codes dirty where sc: "sdCommit L s (blockNumber cs) = Inr (root, codes, dirty)"
    using io_okD(3)[OF io] by (metis prod_cases3)
  obtain nodes where tc: "trieCommit L dirty root = Inr nodes" using io_okD(4)[OF io] by blast
  obtain st1 where st1: "putAll L codes st = Inr st1" using all by blast
  obtain st2 where st2: "putAll L nodes st1 = Inr st2" using all by blast
  obtain st3 where st3: "stPut L st2 (rootKey (blockHash cs)) (hashBytes root) = Inr st3" using put by blast
  obtain st4 where st4: "stPut L st3 (parentKey (blockHash cs)) (hashBytes (parentHash cs)) = Inr st4"
    using put by blast
  obtain st5 where st5: "stPut L st4 (blockNumberKey (blockNumber cs)) (hashBytes (blockHash cs)) = Inr st5"
    using put by blast
  obtain st6 where st6: "stPut L st5 headKey (encodeHead (blockNumber cs) (blockHash cs) root) = Inr st6"
    using put by blast
  obtain db where "stCommit L st6 = Inr db" using cm by blast
  then show ?thesis by (simp add: Commit_def c1 sc tc st1 st2 st3 st4 st5 st6)
qed

lemma Commit_view:
  assumes ok: "lib_ok L" and h: "hash_ok L U H" and inv: "cs_inv L U H cs T n"
    and bl: "commitBlobs L cs \<subseteq> H" and c: "Commit L cs = Inr (root, db)"
  shows "\<exists>st s codes dirty nodes. mid_inv L U H (cs\<lparr>stagingDB := st, stateDB := s\<rparr>) T n U
     \<and> Database st = Database (stagingDB cs)
     \<and> sdCommit L s (blockNumber cs) = Inr (root, codes, dirty) \<and> trieCommit L dirty root = Inr nodes
     \<and> (\<forall>(k, v) \<in> set (codes @ nodes). v \<in> H)
     \<and> rd L db = blockWrites (blockNumber cs) (blockHash cs) (parentHash cs) root
         (applyBatch (map (\<lambda>(k, v). BPut k v) (codes @ nodes)) (rdS L st))"
proof -
  have kv: "kv_ok L" using ok by blast
  obtain st s where f: "andThen (flushEntities L cs) (flushBitmaps L) = Inr (cs\<lparr>stagingDB := st, stateDB := s\<rparr>)"
    "Database st = Database (stagingDB cs)" "mid_inv L U H (cs\<lparr>stagingDB := st, stateDB := s\<rparr>) T n U"
    using flush_ok[OF ok h inv bl] by blast
  from f(1) c obtain codes dirty nodes st1 st2 st3 st4 st5 st6 where
    r: "sdCommit L s (blockNumber cs) = Inr (root, codes, dirty)" "trieCommit L dirty root = Inr nodes"
    and st: "putAll L codes st = Inr st1" "putAll L nodes st1 = Inr st2"
      "stPut L st2 (rootKey (blockHash cs)) (hashBytes root) = Inr st3"
      "stPut L st3 (parentKey (blockHash cs)) (hashBytes (parentHash cs)) = Inr st4"
      "stPut L st4 (blockNumberKey (blockNumber cs)) (hashBytes (blockHash cs)) = Inr st5"
      "stPut L st5 headKey (encodeHead (blockNumber cs) (blockHash cs) root) = Inr st6"
      "stCommit L st6 = Inr db"
    by (auto simp: Commit_def andThen_eq_Inr)
  have "rd L db = blockWrites (blockNumber cs) (blockHash cs) (parentHash cs) root
         (applyBatch (map (\<lambda>(k, v). BPut k v) (codes @ nodes)) (rdS L st))"
    by (simp add: blockWrites_def stCommit_rd[OF kv st(7)] stPut_rdS[OF kv st(6)] stPut_rdS[OF kv st(5)]
        stPut_rdS[OF kv st(4)] stPut_rdS[OF kv st(3)] putAll_rdS[OF kv st(2)] putAll_rdS[OF kv st(1)])
  moreover have "\<forall>(k, v) \<in> set (codes @ nodes). v \<in> H"
  proof clarify
    fix k v assume "(k, v) \<in> set (codes @ nodes)"
    then have "v \<in> commitBlobs L cs" using f(1) r
      unfolding commitBlobs_def by (auto intro!: exI[of _ "cs\<lparr>stagingDB := st, stateDB := s\<rparr>"])
    then show "v \<in> H" using bl by blast
  qed
  ultimately show ?thesis using f r by blast
qed

text \<open>Content-addressed writes of blobs without collision never change an entry.\<close>

lemma puts_content:
  assumes h: "inj_on (Keccak256Hash L) H" and e: "\<And>k v. (k, v) \<in> set kvs \<Longrightarrow> nodeEntry L k v \<and> v \<in> H"
  shows "(k, v) \<in> set kvs \<Longrightarrow> applyBatch (map (\<lambda>(k, v). BPut k v) kvs) g k = Some v"
    and "g k = Some v \<Longrightarrow> v \<in> H \<Longrightarrow> nodeEntry L k v
      \<Longrightarrow> applyBatch (map (\<lambda>(k, v). BPut k v) kvs) g k = Some v"
proof -
  have u: "v = w" if "nodeEntry L k v \<and> v \<in> H" "nodeEntry L k w \<and> w \<in> H" for k v w
    using that nodeEntry_unique h by (metis inj_onD)
  show wr: "(k, v) \<in> set kvs \<Longrightarrow> applyBatch (map (\<lambda>(k, v). BPut k v) kvs) g k = Some v"
    by (rule applyBatch_puts_in) (use u e in blast)+
  show "applyBatch (map (\<lambda>(k, v). BPut k v) kvs) g k = Some v"
    if "g k = Some v" "v \<in> H" "nodeEntry L k v"
  proof (cases "k \<in> fst ` set kvs")
    case True
    then obtain w where "(k, w) \<in> set kvs" by auto
    with u[OF e] that have "(k, v) \<in> set kvs" by blast
    then show ?thesis by (rule wr)
  next
    case False
    then show ?thesis using that by (simp add: applyBatch_puts_notin)
  qed
qed

lemma consistent_transport:
  assumes c: "consistent L U H g s T n" and g: "\<And>k. stagedKey k \<Longrightarrow> g' k = g k"
    and st: "sdGetState L s' (systemAddress L) = sdGetState L s (systemAddress L)"
    and code: "sdGetCode L s' = sdGetCode L s"
  shows "consistent L U H g' s' T n"
proof -
  have keys: "g' (bitmapKey h) = g (bitmapKey h)" "g' (addrKey a) = g (addrKey a)" "g' (idKey i) = g (idKey i)"
    "g' (annotKeyP p) = g (annotKeyP p)" for h a i p
    using g by (simp_all add: annotKeyP_def)
  have "stagedKey k" if "\<not> foreignKey k" for k
    using that by (auto simp: foreignKey_def) (auto simp: stagedKey_def)
  then have ix: "index_keys_ok U g' = index_keys_ok U g" "blobs_ok L H g' = blobs_ok L H g"
    by (intro index_frame g; assumption)+
  have "code_ok L s' a t = code_ok L s a t" for a t
    by (intro code_ok_cong) (simp add: code)
  then show ?thesis
    using c unfolding consistent_def ix
    by (simp add: ids_ok_def ptr_ok_def slotOf_def idSlotOf_def readEntityCount_def st keys)
qed

text \<open>
  A successful commit makes the table of the block the table of the database: the new root opens a
  state consistent with it, every earlier root still opens the state it did, and of the entries about
  blocks only those of this block change.
\<close>

lemma Commit_ok:
  assumes ok: "lib_ok L" and h: "hash_ok L U H" and inv: "cs_inv L U H cs T n"
    and bl: "commitBlobs L cs \<subseteq> H" and nd: "nodes_ok L H (rd L (Database (stagingDB cs)))"
    and c: "Commit L cs = Inr (root, db)"
  shows "trieLe (rd L (Database (stagingDB cs))) (rd L db)" "nodes_ok L H (rd L db)"
    "\<exists>sdb. stateNew L (rd L db) root = Inr sdb \<and> consistent L U H (rd L db) sdb T n
       \<and> sdGetNonce L sdb (systemAddress L) \<noteq> 0"
    "arkivKey k \<Longrightarrow> \<not> stagedKey k \<Longrightarrow>
       rd L db k = blockWrites (blockNumber cs) (blockHash cs) (parentHash cs) root (rd L (Database (stagingDB cs))) k"
    "rd L (Database (stagingDB cs)) k \<noteq> None \<Longrightarrow> rd L db k \<noteq> None"
proof -
  let ?g0 = "rd L (Database (stagingDB cs))"
  obtain st s codes dirty nodes where v: "mid_inv L U H (cs\<lparr>stagingDB := st, stateDB := s\<rparr>) T n U"
    "Database st = Database (stagingDB cs)" "sdCommit L s (blockNumber cs) = Inr (root, codes, dirty)"
    "trieCommit L dirty root = Inr nodes" "\<forall>(k, v) \<in> set (codes @ nodes). v \<in> H"
    and db: "rd L db = blockWrites (blockNumber cs) (blockHash cs) (parentHash cs) root
         (applyBatch (map (\<lambda>(k, v). BPut k v) (codes @ nodes)) (rdS L st))"
    using Commit_view[OF ok h inv bl c] by blast
  let ?kvs = "codes @ nodes" and ?b = "applyBatch (map (\<lambda>(k, v). BPut k v) (codes @ nodes)) (rdS L st)"
  have e: "nodeEntry L k v \<and> v \<in> H" if "(k, v) \<in> set ?kvs" for k v
    using commit_keys[OF _ v(3,4) that] v(5) that ok by blast
  have ek: "\<not> arkivKey k" if "(k, v) \<in> set ?kvs" for k v
  proof -
    have "\<not> arkivKey (hashBytes (Keccak256Hash L v))" using e[OF that] h by (simp add: hash_ok_def)
    then show ?thesis using e[OF that] by (auto simp: nodeEntry_def arkivKey_def)
  qed
  have inj: "inj_on (Keccak256Hash L) H" using h by (simp add: hash_ok_def)
  have bw: "blockWrites nb bh ph r g k = g k" if "\<not> arkivKey k \<or> stagedKey k" for nb bh ph r g k
    using that by (auto simp: blockWrites_def)
  have stg: "rdS L st k = ?g0 k" if "\<not> stagedKey k" for k
    using v(1,2) that by (auto simp: mid_inv_def rdS_def map_add_def split: option.splits)
  have ba: "?b k = rdS L st k" if "arkivKey k" for k
    using ek that by (intro applyBatch_puts_notin) (metis fst_conv imageE prod.collapse)
  have node: "rd L db k = Some v \<and> nodeEntry L k v \<and> v \<in> H" if "(k, v) \<in> set ?kvs" for k v
    unfolding db using puts_content(1)[OF inj e that] bw ek[OF that] e[OF that] by simp
  have old: "rd L db k = Some v" if "?g0 k = Some v" "\<not> arkivKey k" for k v
  proof -
    have "rdS L st k = Some v" using stg that stagedKey_arkivKey by metis
    moreover have "v \<in> H" "nodeEntry L k v" using nd that by (auto simp: nodes_ok_def)
    ultimately have "?b k = Some v" by (intro puts_content(2)[OF inj e])
    then show ?thesis using that(2) by (simp add: db bw)
  qed
  show le: "trieLe ?g0 (rd L db)" using old by (simp add: trieLe_def)
  show "nodes_ok L H (rd L db)" unfolding nodes_ok_def
  proof (intro allI impI)
    fix k w assume k: "rd L db k = Some w" "\<not> arkivKey k"
    show "w \<in> H \<and> nodeEntry L k w"
    proof (cases "k \<in> fst ` set ?kvs")
      case True
      then obtain v where "(k, v) \<in> set ?kvs" by force
      from node[OF this] k show ?thesis by simp
    next
      case False
      then have "?g0 k = Some w" using k stg stagedKey_arkivKey
        by (metis applyBatch_puts_notin bw db)
      then show ?thesis using nd k(2) by (simp add: nodes_ok_def)
    qed
  qed
  show "rd L db k = blockWrites (blockNumber cs) (blockHash cs) (parentHash cs) root ?g0 k"
    if "arkivKey k" "\<not> stagedKey k"
    using ba[OF that(1)] stg[OF that(2)] by (simp add: db blockWrites_def)
  have keep: "applyBatch (map (\<lambda>(k, v). BPut k v) kvs) g k \<noteq> None" if "g k \<noteq> None" for kvs g k
    using that by (induction kvs arbitrary: g) auto
  have "rdS L st k \<noteq> None" if "?g0 k \<noteq> None" for k
    using that v(2) by (auto simp: rdS_def map_add_def split: option.splits)
  then show "rd L db k \<noteq> None" if "?g0 k \<noteq> None" for k
    using keep that by (simp add: db blockWrites_def)
  have "derived L ?g0 s" using v(1,2) by (simp add: mid_inv_def)
  from stateNew_commit[OF _ this v(3,4) le] node ok obtain sdb where
    sdb: "stateNew L (rd L db) root = Inr sdb" "sameState L s sdb" by blast
  have n0: "sdGetNonce L s (systemAddress L) \<noteq> 0" using v(1) by (simp add: mid_inv_def)
  have "consistent L U H (rdS L st) s T n" using v(1) by (simp add: mid_inv_def consistent_def)
  then have "consistent L U H (rd L db) sdb T n"
    by (rule consistent_transport)
      (use sdb n0 ba bw stagedKey_arkivKey in \<open>auto simp: db sameState_def\<close>)
  then show "\<exists>sdb. stateNew L (rd L db) root = Inr sdb \<and> consistent L U H (rd L db) sdb T n
       \<and> sdGetNonce L sdb (systemAddress L) \<noteq> 0"
    using sdb n0 by (auto simp: sameState_def)
qed

end
