(* ===== verification/Store_Correct.thy ===== *)
theory Store_Correct
  imports Commit_Correct
begin

text \<open>
  The store as a whole: its invariant, and the proof that processing a block implements the sequence of
  the specifications of its operations, or fails and leaves the store as it was.
\<close>

section \<open>The invariant of the store\<close>

text \<open>
  The head root opens a state consistent with the database, and the system account exists unless
  nothing has been committed yet.
\<close>

definition store_inv ::
    "('db, 'bm, 'sdb) lib \<Rightarrow> annotPair set \<Rightarrow> bytes set \<Rightarrow> 'db Store \<Rightarrow> table \<Rightarrow> uint64 \<Rightarrow> bool" where
  "store_inv L U H s T n \<longleftrightarrow>
     (\<exists>sdb. stateNew L (rd L (rawDB s)) (headRoot s) = Inr sdb \<and>
        consistent L U H (rd L (rawDB s)) sdb T n \<and>
        (sdGetNonce L sdb (systemAddress L) \<noteq> 0 \<or> \<not> sdExist L sdb (systemAddress L))) \<and>
     nodes_ok L H (rd L (rawDB s))"

text \<open>The persisted head, which \<open>New\<close> reads back, is the head in memory.\<close>

definition head_ok :: "('db, 'bm, 'sdb) lib \<Rightarrow> 'db Store \<Rightarrow> bool" where
  "head_ok L s \<longleftrightarrow>
     rd L (rawDB s) headKey = Some (encodeHead (headNumber s) (headHash s) (headRoot s))"

section \<open>Specification of a block\<close>

definition blockOps :: "ArkivBlock \<Rightarrow> ArkivOperation list" where
  "blockOps block = concat (map (\<lambda>tx. map (injectTx tx) (txOperations tx)) (Transactions block))"

definition absBlock :: "('db, 'bm, 'sdb) lib \<Rightarrow> ArkivBlock \<Rightarrow> astate \<Rightarrow> astate option" where
  "absBlock L block = absFold (absOp L (Number (Header block))) (blockOps block)"

definition block_ok ::
    "('db, 'bm, 'sdb) lib \<Rightarrow> annotPair set \<Rightarrow> ArkivBlock \<Rightarrow> astate \<Rightarrow> bool" where
  "block_ok L U block =
     preFold (absOp L (Number (Header block))) (op_ok L U (Number (Header block))) (blockOps block)"

text \<open>The blobs the block would write lie in the set on which the hash function has no collision.\<close>

definition blobs_in :: "('db, 'bm, 'sdb) lib \<Rightarrow> bytes set \<Rightarrow> 'db Store \<Rightarrow> ArkivBlock \<Rightarrow> bool" where
  "blobs_in L H s block \<longleftrightarrow> (\<forall>cs. stageBlock L s block = Inr cs \<longrightarrow> commitBlobs L cs \<subseteq> H)"

lemma blobs_inD: "blobs_in L H s block \<Longrightarrow> stageBlock L s block = Inr cs \<Longrightarrow> commitBlobs L cs \<subseteq> H"
  by (simp add: blobs_in_def)

section \<open>The operations of a block\<close>

lemma okOption_andThen: "okOption (andThen r f) = Option.bind (okOption r) (\<lambda>x. okOption (f x))"
  by (cases r) auto

lemma okOption_wrapErr [simp]: "okOption (wrapErr m r) = okOption r"
  by (cases r) auto

lemma okOption_foldRes_cong:
  assumes "\<And>x s. okOption (f x s) = okOption (g (h x) s)"
  shows "okOption (foldRes f xs s) = okOption (foldRes g (map h xs) s)"
  by (induction xs arbitrary: s) (auto simp: okOption_andThen assms split: Option.bind_split)

lemma applyTx_foldRes:
  "okOption (applyTx L tx cs) = okOption (foldRes (\<lambda>op cs. applyOp L cs op) (map (injectTx tx) (txOperations tx)) cs)"
  unfolding applyTx_def by (rule okOption_foldRes_cong) simp

lemma transactions_foldRes:
  "okOption (foldRes (applyTx L) txs cs) =
   okOption (foldRes (\<lambda>op cs. applyOp L cs op) (concat (map (\<lambda>tx. map (injectTx tx) (txOperations tx)) txs)) cs)"
proof (induction txs arbitrary: cs)
  case (Cons tx txs)
  then show ?case
    by (simp add: okOption_andThen foldRes_append applyTx_foldRes)
qed simp

section \<open>Opening the write buffer\<close>

lemma initSystemAccount_same:
  assumes "account_ok L"
  shows "sdGetState L (initSystemAccount L s) = sdGetState L s"
    "sdGetCode L (initSystemAccount L s) = sdGetCode L s"
    "derived L g s \<Longrightarrow> derived L g (initSystemAccount L s)"
    "sdGetNonce L s (systemAddress L) \<noteq> 0 \<or> \<not> sdExist L s (systemAddress L) \<Longrightarrow>
       sdGetNonce L (initSystemAccount L s) (systemAddress L) \<noteq> 0"
  using assms not_exist_zero[OF assms, of s "systemAddress L"]
  by (auto simp: initSystemAccount_def fun_eq_iff lib_simps intro: derived.intros)

definition openBlock ::
    "('db, 'bm, 'sdb) lib \<Rightarrow> 'db Store \<Rightarrow> ArkivBlock \<Rightarrow> 'sdb \<Rightarrow> ('db, 'bm, 'sdb) CacheStore" where
  "openBlock L s block sdb =
     \<lparr>stagingDB = newStagingDB L (rawDB s), stateDB = initSystemAccount L sdb,
      blockNumber = Number (Header block), blockHash = Hash (Header block),
      parentHash = ParentHash (Header block), dirtyEntities = [], dirtyBitmaps = []\<rparr>"

lemma stageBlock_open:
  assumes "kv_ok L" "stateNew L (rd L (rawDB s)) (headRoot s) = Inr sdb"
  shows "stageBlock L s block = foldRes (applyTx L) (Transactions block) (openBlock L s block sdb)"
  using assms by (simp add: stageBlock_def newCacheStore_def openBlock_def Let_def)

lemma openBlock_inv:
  assumes ok: "lib_ok L" and s: "stateNew L (rd L (rawDB s)) (headRoot s) = Inr sdb"
    "consistent L U H (rd L (rawDB s)) sdb T n"
    "sdGetNonce L sdb (systemAddress L) \<noteq> 0 \<or> \<not> sdExist L sdb (systemAddress L)"
  shows "cs_inv L U H (openBlock L s block sdb) T n"
proof -
  have kv: "kv_ok L" and acc: "account_ok L" using ok by blast+
  note i = initSystemAccount_same[OF acc]
  have "derived L (rd L (rawDB s)) (initSystemAccount L sdb)"
    using s(1) by (intro i(3) derived.opened)
  moreover have "code_ok L (initSystemAccount L sdb) a t = code_ok L sdb a t" for a t
    by (rule code_ok_cong) (simp add: i)
  ultimately show ?thesis
    using s(2) i(4)[OF s(3)] kv
    by (simp add: cs_inv_def openBlock_def consistent_def bms_ok_def slots_cong[OF i(1)])
      (simp add: newStagingDB_def lib_simps)
qed

lemma stageBlock_ok:
  assumes ok: "lib_ok L" and h: "hash_ok L U H" and inv: "store_inv L U H s T n"
    and b: "block_ok L U block (T, n)"
  shows "case absBlock L block (T, n) of
      None \<Rightarrow> \<exists>e. stageBlock L s block = Inl e
    | Some (T', n') \<Rightarrow> \<exists>cs. stageBlock L s block = Inr cs \<and> cs_inv L U H cs T' n' \<and>
        blockNumber cs = Number (Header block) \<and> blockHash cs = Hash (Header block) \<and>
        parentHash cs = ParentHash (Header block) \<and> Database (stagingDB cs) = rawDB s"
proof -
  obtain sdb where s: "stateNew L (rd L (rawDB s)) (headRoot s) = Inr sdb"
    "consistent L U H (rd L (rawDB s)) sdb T n"
    "sdGetNonce L sdb (systemAddress L) \<noteq> 0 \<or> \<not> sdExist L sdb (systemAddress L)"
    using inv unfolding store_inv_def by blast
  let ?cs = "openBlock L s block sdb"
  have n: "blockNumber ?cs = Number (Header block)" "blockHash ?cs = Hash (Header block)"
    "parentHash ?cs = ParentHash (Header block)" "Database (stagingDB ?cs) = rawDB s"
    by (simp_all add: openBlock_def newStagingDB_def)
  have "okOption (stageBlock L s block) = okOption (foldRes (\<lambda>op cs. applyOp L cs op) (blockOps block) ?cs)"
    by (simp only: stageBlock_open[OF lib_okD(1)[OF ok] s(1)] transactions_foldRes blockOps_def)
  moreover have "preFold (absOp L (blockNumber ?cs)) (op_ok L U (blockNumber ?cs)) (blockOps block) (T, n)"
    using b by (simp add: block_ok_def n)
  note seq = dispatch.sequence[OF ok h openBlock_inv[OF ok s] this, unfolded n, folded absBlock_def]
  ultimately show ?thesis
    using seq by (auto simp: sameBlock_def n okOption_eq_None split: option.splits)
qed

section \<open>Processing a block\<close>

lemma processBlock_error:
  assumes "lib_ok L" "hash_ok L U H" "store_inv L U H s T n" "block_ok L U block (T, n)"
    "absBlock L block (T, n) = None"
  shows "\<exists>e. processBlock L s block = Inl e"
  using stageBlock_ok[OF assms(1-4)] assms(5) by (auto simp: processBlock_def)

lemma processBlock_commits:
  assumes ok: "lib_ok L" and h: "hash_ok L U H" and inv: "store_inv L U H s T n"
    and b: "block_ok L U block (T, n)" and a: "absBlock L block (T, n) = Some (T', n')"
    and bl: "blobs_in L H s block"
    and r: "processBlock L s block = Inr (root, s')"
  shows "store_inv L U H s' T' n'" "head_ok L s'" "headRoot s' = root"
    "headHash s' = Hash (Header block)" "headNumber s' = Number (Header block)"
    "trieLe (rd L (rawDB s)) (rd L (rawDB s'))"
    "arkivKey k \<Longrightarrow> \<not> stagedKey k \<Longrightarrow> rd L (rawDB s') k = blockWrites (Number (Header block))
       (Hash (Header block)) (ParentHash (Header block)) root (rd L (rawDB s)) k"
    "rd L (rawDB s) k \<noteq> None \<Longrightarrow> rd L (rawDB s') k \<noteq> None"
proof -
  obtain cs where cs: "stageBlock L s block = Inr cs" "cs_inv L U H cs T' n'"
    "blockNumber cs = Number (Header block)" "blockHash cs = Hash (Header block)"
    "parentHash cs = ParentHash (Header block)" "Database (stagingDB cs) = rawDB s"
    using stageBlock_ok[OF ok h inv b] a by auto
  have nd: "nodes_ok L H (rd L (Database (stagingDB cs)))" using inv cs(6) by (simp add: store_inv_def)
  from r cs(1) obtain db where db: "Commit L cs = Inr (root, db)"
    "s' = \<lparr>rawDB = db, headRoot = root, headHash = Hash (Header block), headNumber = Number (Header block)\<rparr>"
    by (auto simp: processBlock_def andThen_eq_Inr)
  note c = Commit_ok[OF ok h cs(2) blobs_inD[OF bl cs(1)] nd db(1), unfolded cs(3-6)]
  show "store_inv L U H s' T' n'" using c(2,3) by (auto simp: store_inv_def db(2))
  show "headRoot s' = root" "headHash s' = Hash (Header block)" "headNumber s' = Number (Header block)"
    by (simp_all add: db(2))
  show "trieLe (rd L (rawDB s)) (rd L (rawDB s'))" using c(1) by (simp add: db(2))
  show "rd L (rawDB s') k = blockWrites (Number (Header block))
       (Hash (Header block)) (ParentHash (Header block)) root (rd L (rawDB s)) k"
    if "arkivKey k" "\<not> stagedKey k" using c(4)[OF that] by (simp add: db(2))
  show "rd L (rawDB s) k \<noteq> None \<Longrightarrow> rd L (rawDB s') k \<noteq> None" using c(5) by (simp add: db(2))
  show "head_ok L s'" using c(4)[of headKey] by (simp add: head_ok_def db(2) blockWrites_def)
qed

lemma processBlock_returns:
  assumes ok: "lib_ok L" and io: "io_ok L" and h: "hash_ok L U H" and inv: "store_inv L U H s T n"
    and b: "block_ok L U block (T, n)" and a: "absBlock L block (T, n) = Some (T', n')"
    and bl: "blobs_in L H s block"
  shows "\<exists>root s'. processBlock L s block = Inr (root, s')"
proof -
  obtain cs where cs: "stageBlock L s block = Inr cs" "cs_inv L U H cs T' n'"
    using stageBlock_ok[OF ok h inv b] a by auto
  from Commit_succeeds[OF ok io h cs(2) blobs_inD[OF bl cs(1)]] cs(1) show ?thesis
    by (auto simp: processBlock_def)
qed

section \<open>Starting the store\<close>

lemma New_head:
  assumes "rd L db headKey = Some (encodeHead number h root)"
  shows "New L db = \<lparr>rawDB = db, headRoot = root, headHash = h, headNumber = number\<rparr>"
  using assms by (simp add: New_def rd_def length_encodeHead decodeHead_encodeHead)

text \<open>A store is restored from its database alone.\<close>

lemma New_restores:
  assumes "head_ok L s"
  shows "New L (rawDB s) = s"
  using New_head assms by (metis Store.surjective head_ok_def old.unit.exhaust)

lemma New_empty:
  assumes ok: "lib_ok L" and e: "rd L db = Map.empty"
  shows "store_inv L U H (New L db) Map.empty 0"
proof -
  obtain er where "dbGet L db headKey = Inl er"
    using fun_cong[OF e, of headKey] by (auto simp: rd_def okOption_eq_None)
  then have n: "New L db = \<lparr>rawDB = db, headRoot = EmptyRootHash L, headHash = 0, headNumber = 0\<rparr>"
    by (simp add: New_def)
  obtain sdb where s: "stateNew L Map.empty (EmptyRootHash L) = Inr sdb" "\<And>a. \<not> sdExist L sdb a"
    using stateNew_empty[OF lib_okD(6)[OF ok]] by auto
  have z: "sdGetState L sdb a k = 0" "sdGetCode L sdb a = []" for a k
    using not_exist_zero[OF lib_okD(5)[OF ok] s(2)] by simp_all
  have "consistent L U H Map.empty sdb Map.empty 0"
    by (simp add: consistent_def table_ok_def ids_ok_def code_ok_def ptr_ok_def idsOf_def z slotOf_def
        idSlotOf_def readEntityCount_def index_keys_ok_def blobs_ok_def)
  with s show ?thesis by (simp add: store_inv_def n e nodes_ok_def)
qed

end
