(* ===== verification/Revert_Correct.thy ===== *)
theory Revert_Correct
  imports Store_Correct
begin

text \<open>
  Reverting blocks: what the trie at an earlier root still says about its table, that later commits and
  reverts keep it, and that repopulation (\<open>store/revert.go\<close>) brings the mutable entries of the database
  back to that table. Annotation pointers are restored completely. Entries of the number index are only
  ever removed, so a revert restores the whole store exactly when they still record the earlier table.
\<close>

section \<open>History\<close>

definition hist_ptr ::
    "('db, 'bm, 'sdb) lib \<Rightarrow> (bytes \<rightharpoonup> bytes) \<Rightarrow> 'sdb \<Rightarrow> annotPair \<Rightarrow> uint64 set \<Rightarrow> bool" where
  "hist_ptr L g s p S \<longleftrightarrow>
     (slotOf L s p = 0 \<and> S = {}) \<or>
     (\<exists>bs b. slotOf L s p \<noteq> 0 \<and> g (bitmapKey (slotOf L s p)) = Some bs \<and> bs \<noteq> [] \<and>
        bmUnmarshal L bs = Inr b \<and> bmSet L b = S \<and> g (pairsKeyP p) \<noteq> None)"

text \<open>The root \<open>r\<close> opens, in the entries \<open>g\<close>, a trie that describes the table \<open>T\<close>.\<close>

definition root_ok ::
    "('db, 'bm, 'sdb) lib \<Rightarrow> annotPair set \<Rightarrow> (bytes \<rightharpoonup> bytes) \<Rightarrow> hash \<Rightarrow> table \<Rightarrow> uint64 \<Rightarrow> bool" where
  "root_ok L U g r T n \<longleftrightarrow>
     (\<exists>s. stateNew L g r = Inr s \<and> table_ok L U T \<and> (\<forall>a. code_ok L s a (T a)) \<and>
        (\<forall>p \<in> U. hist_ptr L g s p (idsOf L T p)) \<and>
        (\<forall>a i e. T a = Some (i, e) \<longrightarrow> idSlotOf L s i = addrSlot a \<and> i \<noteq> 0 \<and> i \<le> n) \<and>
        (\<forall>i. idSlotOf L s i \<noteq> 0 \<longrightarrow> (\<exists>a e. T a = Some (i, e))) \<and> readEntityCount L s = n \<and>
        (sdGetNonce L s (systemAddress L) \<noteq> 0 \<or> \<not> sdExist L s (systemAddress L)))"

text \<open>Entries that only grow: trie nodes, blobs and the existence index.\<close>

definition histLe :: "(bytes \<rightharpoonup> bytes) \<Rightarrow> (bytes \<rightharpoonup> bytes) \<Rightarrow> bool" where
  "histLe g g' \<longleftrightarrow> trieLe g g' \<and>
     (\<forall>h v. g (bitmapKey h) = Some v \<longrightarrow> g' (bitmapKey h) = Some v) \<and>
     (\<forall>p. g (pairsKeyP p) \<noteq> None \<longrightarrow> g' (pairsKeyP p) \<noteq> None)"

lemma histLe_refl [simp]: "histLe g g"
  by (simp add: histLe_def)

lemma histLe_trans [trans]: "histLe g g' \<Longrightarrow> histLe g' g'' \<Longrightarrow> histLe g g''"
  unfolding histLe_def by (meson trieLe_trans)

lemma reopen:
  assumes ok: "lib_ok L" and s: "stateNew L g r = Inr s" and le: "trieLe g g'"
    and n: "sdGetNonce L s (systemAddress L) \<noteq> 0 \<or> \<not> sdExist L s (systemAddress L)"
  obtains s' where "stateNew L g' r = Inr s'" "sdGetCode L s' = sdGetCode L s"
    "sdGetState L s' (systemAddress L) = sdGetState L s (systemAddress L)"
    "sdGetNonce L s' (systemAddress L) \<noteq> 0 \<or> \<not> sdExist L s' (systemAddress L)"
proof -
  obtain s' where s': "stateNew L g' r = Inr s'" "sameState L s s'" "\<And>a. sdExist L s' a = sdExist L s a"
    using stateNew_mono[OF lib_okD(6)[OF ok] s le] by blast
  have acc: "account_ok L" using ok by blast
  have "sdGetState L s' (systemAddress L) k = sdGetState L s (systemAddress L) k" for k
  proof (cases "sdExist L s (systemAddress L)")
    case True
    with n s'(2) show ?thesis by (auto simp: sameState_def)
  next
    case False
    with s'(3) show ?thesis by (simp add: not_exist_zero[OF acc])
  qed
  then show thesis using that s' n by (auto simp: sameState_def fun_eq_iff)
qed

lemma system_slots_cong:
  assumes "sdGetState L s' (systemAddress L) = sdGetState L s (systemAddress L)"
  shows "slotOf L s' = slotOf L s" "idSlotOf L s' = idSlotOf L s" "readEntityCount L s' = readEntityCount L s"
  using assms by (auto simp: fun_eq_iff slotOf_def idSlotOf_def readEntityCount_def)

lemma root_ok_mono:
  assumes ok: "lib_ok L" and r: "root_ok L U g r T n" and le: "histLe g g'"
  shows "root_ok L U g' r T n"
proof -
  obtain s where s: "stateNew L g r = Inr s" "table_ok L U T" "\<And>a. code_ok L s a (T a)"
     "\<And>p. p \<in> U \<Longrightarrow> hist_ptr L g s p (idsOf L T p)"
     "\<forall>a i e. T a = Some (i, e) \<longrightarrow> idSlotOf L s i = addrSlot a \<and> i \<noteq> 0 \<and> i \<le> n"
     "\<forall>i. idSlotOf L s i \<noteq> 0 \<longrightarrow> (\<exists>a e. T a = Some (i, e))" "readEntityCount L s = n"
     "sdGetNonce L s (systemAddress L) \<noteq> 0 \<or> \<not> sdExist L s (systemAddress L)"
    using r unfolding root_ok_def by blast
  have "trieLe g g'" using le by (simp add: histLe_def)
  from reopen[OF ok s(1) this s(8)] obtain s' where s': "stateNew L g' r = Inr s'"
    "sdGetCode L s' = sdGetCode L s" "sdGetState L s' (systemAddress L) = sdGetState L s (systemAddress L)"
    "sdGetNonce L s' (systemAddress L) \<noteq> 0 \<or> \<not> sdExist L s' (systemAddress L)" .
  note sl = system_slots_cong[OF s'(3)]
  have "hist_ptr L g' s' p (idsOf L T p)" if "p \<in> U" for p
    using s(4)[OF that] le unfolding hist_ptr_def histLe_def sl by blast
  moreover have "code_ok L s' a (T a)" for a
    using s(3) code_ok_cong[OF fun_cong[OF s'(2)]] by simp
  ultimately show ?thesis unfolding root_ok_def using s' s(2,5,6,7) by (auto simp: sl)
qed

lemma store_inv_root_ok:
  assumes "store_inv L U H s T n"
  shows "root_ok L U (rd L (rawDB s)) (headRoot s) T n"
proof -
  let ?g = "rd L (rawDB s)"
  obtain sdb where s: "stateNew L ?g (headRoot s) = Inr sdb" "consistent L U H ?g sdb T n"
    "sdGetNonce L sdb (systemAddress L) \<noteq> 0 \<or> \<not> sdExist L sdb (systemAddress L)"
    using assms unfolding store_inv_def by blast
  have "hist_ptr L ?g sdb p (idsOf L T p)" if p: "p \<in> U" for p
  proof -
    have "ptr_ok L ?g sdb p (idsOf L T p)" using s(2) p by (simp add: consistent_def)
    moreover have "?g (annotKeyP p) \<noteq> None \<Longrightarrow> ?g (pairsKeyP p) \<noteq> None"
      using s(2) p unfolding consistent_def index_keys_ok_def by blast
    ultimately show ?thesis unfolding ptr_ok_def hist_ptr_def by fastforce
  qed
  with s show ?thesis unfolding root_ok_def consistent_def ids_ok_def by blast
qed

text \<open>Processing a block keeps every earlier root readable, with the table it had.\<close>

lemma processBlock_histLe:
  assumes ok: "lib_ok L" and h: "hash_ok L U H" and inv: "store_inv L U H s T n"
    and b: "block_ok L U block (T, n)" and a: "absBlock L block (T, n) = Some (T', n')"
    and bl: "blobs_in L H s block"
    and r: "processBlock L s block = Inr (root, s')"
  shows "histLe (rd L (rawDB s)) (rd L (rawDB s'))"
proof -
  note c = processBlock_commits[OF ok h inv b a bl r]
  have bo: "blobs_ok L H (rd L (rawDB s))" "blobs_ok L H (rd L (rawDB s'))"
    using inv c(1) by (auto simp: store_inv_def consistent_def)
  have "rd L (rawDB s') (bitmapKey x) = Some v" if v: "rd L (rawDB s) (bitmapKey x) = Some v" for x v
  proof -
    obtain w where w: "rd L (rawDB s') (bitmapKey x) = Some w" using c(8)[of "bitmapKey x"] v by auto
    have "w = v" using v w bo h by (auto simp: blobs_ok_def hash_ok_def inj_on_def)
    with w show ?thesis by simp
  qed
  moreover have "rd L (rawDB s') (pairsKeyP p) \<noteq> None" if "rd L (rawDB s) (pairsKeyP p) \<noteq> None" for p
    using c(8)[OF that] .
  ultimately show ?thesis using c(6) unfolding histLe_def by blast
qed

section \<open>The batch of a revert\<close>

fun opKey :: "batchOp \<Rightarrow> bytes" where
  "opKey (BPut k v) = k"
| "opKey (BDelete k) = k"

fun opVal :: "batchOp \<Rightarrow> bytes option" where
  "opVal (BPut k v) = Some v"
| "opVal (BDelete k) = None"

lemma applyBatchOp_eq: "applyBatchOp op g = g(opKey op := opVal op)"
  by (cases op) auto

lemma applyBatch_untouched:
  "k \<notin> opKey ` set ops \<Longrightarrow> applyBatch ops g k = g k"
  by (induction ops arbitrary: g) (auto simp: applyBatchOp_eq)

lemma applyBatch_cong:
  "g k = h k \<Longrightarrow> applyBatch ops g k = applyBatch ops h k"
proof (induction ops arbitrary: g h)
  case (Cons op ops)
  have "applyBatchOp op g k = applyBatchOp op h k" using Cons.prems by (simp add: applyBatchOp_eq)
  then show ?case by (simp add: Cons.IH[of "applyBatchOp op g" "applyBatchOp op h"])
qed simp

text \<open>Operations that agree on a key determine its value, whatever their order.\<close>

lemma applyBatch_det:
  assumes "\<And>op. op \<in> set ops \<Longrightarrow> opKey op = k \<Longrightarrow> opVal op = v"
    and "k \<in> opKey ` set ops \<or> g k = v"
  shows "applyBatch ops g k = v"
  using assms
proof (induction ops arbitrary: g)
  case (Cons op ops)
  have "k \<in> opKey ` set ops \<or> (applyBatchOp op g) k = v"
    using Cons.prems by (auto simp: applyBatchOp_eq)
  with Cons show ?case by simp
qed simp

lemma splitAtNul_append:
  "CHR 0x00 \<notin> set a \<Longrightarrow> splitAtNul (a @ CHR 0x00 # b) = Some (a, b)"
  by (induction a) auto

text \<open>The batch operation for one pair, and those for one entry of the number index.\<close>

definition annotOp :: "('db, 'bm, 'sdb) lib \<Rightarrow> 'sdb \<Rightarrow> annotPair \<Rightarrow> batchOp" where
  "annotOp L s p = (if slotOf L s p = 0 then BDelete (annotKeyP p)
     else BPut (annotKeyP p) (hashBytes (slotOf L s p)))"

lemma repopulateAnnotEntry_pair:
  assumes "CHR 0x00 \<notin> set (apKey p)"
  shows "repopulateAnnotEntry L s (pairsKeyP p) = [annotOp L s p]"
  using splitAtNul_append[OF assms]
  by (simp add: repopulateAnnotEntry_def pairsKeyP_def pairsKey_def annotOp_def slotOf_def annotKeyP_def Let_def)

lemma repopulateAnnot_ops:
  assumes ok: "lib_ok L" and slots: "slots_ok L U" and ix: "index_keys_ok U (rd L raw)"
    and r: "repopulateAnnot L raw s = Inr ops"
  shows "set ops = annotOp L s ` {p \<in> U. rd L raw (pairsKeyP p) \<noteq> None}"
proof -
  have ops: "set ops = (\<Union>kv \<in> set (dbIter L raw prefixPairs []). set (repopulateAnnotEntry L s (fst kv)))"
    using r by (auto simp: repopulateAnnot_def Let_def case_prod_beta split: option.splits) force
  have it: "set (dbIter L raw prefixPairs []) = {(k, v). rd L raw k = Some v \<and> prefix prefixPairs k}"
    by (rule set_dbIter_all[OF lib_okD(1)[OF ok]])
  have e: "set (repopulateAnnotEntry L s (pairsKeyP p)) = {annotOp L s p}" if "p \<in> U" for p
    using repopulateAnnotEntry_pair[of p L s] slots that by (simp add: slots_ok_def)
  have "\<exists>p \<in> U. k = pairsKeyP p" if "rd L raw k = Some v" "prefix prefixPairs k" for k v
    using ix that by (auto simp: index_keys_ok_def)
  then show ?thesis
    unfolding ops it by (fastforce simp: e)
qed

lemma repopulateIDEntry_idKey:
  "repopulateIDEntry L s (idKey i, v) =
     (if idSlotOf L s i = 0
      then (if length v = 20 then [BDelete (addrKey (BytesToAddress v))] else []) @ [BDelete (idKey i)]
      else [])"
  by (simp add: repopulateIDEntry_def idSlotOf_def Let_def) (simp add: idKey_def)

lemma repopulateIDEntry_other:
  assumes "prefix prefixID k" "\<And>i. k \<noteq> idKey i"
  shows "repopulateIDEntry L s (k, v) = []"
proof -
  obtain b where k: "k = prefixID @ b" using assms(1) by (auto simp: prefix_def)
  have "length b \<noteq> 8"
  proof
    assume "length b = 8"
    then have "k = idKey (bytesUint64 b)" by (simp add: k idKey_def uint64Bytes_bytesUint64)
    with assms(2) show False by blast
  qed
  then show ?thesis by (simp add: repopulateIDEntry_def k)
qed

lemma repopulateIDs_ops:
  assumes ok: "lib_ok L" and r: "repopulateIDs L raw s = Inr ops"
  shows "set ops = {op. \<exists>i v. rd L raw (idKey i) = Some v \<and> idSlotOf L s i = 0 \<and>
    (op = BDelete (idKey i) \<or> length v = 20 \<and> op = BDelete (addrKey (BytesToAddress v)))}"
proof -
  have ops: "set ops = (\<Union>kv \<in> set (dbIter L raw prefixID []). set (repopulateIDEntry L s kv))"
    using r by (auto simp: repopulateIDs_def Let_def split: option.splits)
  have it: "set (dbIter L raw prefixID []) = {(k, v). rd L raw k = Some v \<and> prefix prefixID k}"
    by (rule set_dbIter_all[OF lib_okD(1)[OF ok]])
  have pre: "prefix prefixID (idKey i)" for i by (simp add: idKey_def)
  show ?thesis
  proof (intro set_eqI iffI)
    fix op assume "op \<in> set ops"
    then obtain k v where kv: "rd L raw k = Some v" "prefix prefixID k" "op \<in> set (repopulateIDEntry L s (k, v))"
      unfolding ops it by blast
    obtain i where "k = idKey i"
    proof (cases "\<exists>i. k = idKey i")
      case False
      then show ?thesis using repopulateIDEntry_other[OF kv(2), of L s v] kv(3) by simp
    qed blast
    with kv show "op \<in> {op. \<exists>i v. rd L raw (idKey i) = Some v \<and> idSlotOf L s i = 0 \<and>
      (op = BDelete (idKey i) \<or> length v = 20 \<and> op = BDelete (addrKey (BytesToAddress v)))}"
      by (auto simp: repopulateIDEntry_idKey split: if_splits)
  next
    fix op assume "op \<in> {op. \<exists>i v. rd L raw (idKey i) = Some v \<and> idSlotOf L s i = 0 \<and>
      (op = BDelete (idKey i) \<or> length v = 20 \<and> op = BDelete (addrKey (BytesToAddress v)))}"
    then obtain i v where iv: "rd L raw (idKey i) = Some v" "idSlotOf L s i = 0"
      "op = BDelete (idKey i) \<or> length v = 20 \<and> op = BDelete (addrKey (BytesToAddress v))" by blast
    then have "op \<in> set (repopulateIDEntry L s (idKey i, v))" by (auto simp: repopulateIDEntry_idKey)
    moreover have "(idKey i, v) \<in> set (dbIter L raw prefixID [])" using iv(1) pre by (simp add: it)
    ultimately show "op \<in> set ops" unfolding ops by blast
  qed
qed

section \<open>What repopulation restores\<close>

text \<open>The entries about blocks, which a revert rewrites after repopulation.\<close>

definition chainKey :: "bytes \<Rightarrow> bool" where
  "chainKey k \<longleftrightarrow> k = headKey \<or> (\<exists>h. k = rootKey h) \<or> (\<exists>h. k = parentKey h) \<or> (\<exists>n. k = blockNumberKey n)"

lemma chainKey_simps [simp]:
  "chainKey headKey" "chainKey (rootKey h)" "chainKey (parentKey h)" "chainKey (blockNumberKey n)"
  "\<not> chainKey (idKey i)" "\<not> chainKey (addrKey a)" "\<not> chainKey (bitmapKey x)" "\<not> chainKey (annotKeyP p)"
  "\<not> chainKey (pairsKeyP p)"
  by (auto simp: chainKey_def annotKeyP_def pairsKeyP_def)

lemma chainKey_classes:
  assumes "chainKey k"
  shows "arkivKey k" "\<not> stagedKey k" "foreignKey k"
  using assms by (auto simp: chainKey_def)

lemma headKey_distinct [simp]: "headKey \<noteq> rootKey h" "headKey \<noteq> parentKey h" "headKey \<noteq> blockNumberKey n"
  by (simp_all add: key_defs prefix_defs)

text \<open>
  The number index records the table: each live entity under its own number and address, and no other
  number under that address. The address 0 is excluded because its slot value is that of no entity.
\<close>

definition ids_current :: "(bytes \<rightharpoonup> bytes) \<Rightarrow> table \<Rightarrow> bool" where
  "ids_current g T \<longleftrightarrow>
     (\<forall>a i e. T a = Some (i, e) \<longrightarrow> a \<noteq> 0 \<and> g (addrKey a) = Some (encodeUint64 i) \<and>
        g (idKey i) = Some (addrBytes a)) \<and>
     (\<forall>a i e j. T a = Some (i, e) \<longrightarrow> g (idKey j) = Some (addrBytes a) \<longrightarrow> j = i)"

text \<open>What a batch of repopulation followed by entries about blocks makes of the database.\<close>

lemma repopulated:
  assumes ok: "lib_ok L" and slots: "slots_ok L U" and ix: "index_keys_ok U (rd L raw)"
    and r: "repopulatePebbleDB L raw s = Inr ops" and tl: "opKey ` set tail \<subseteq> Collect chainKey"
  defines "g' \<equiv> applyBatch (ops @ tail) (rd L raw)"
  shows "p \<in> U \<Longrightarrow> rd L raw (pairsKeyP p) \<noteq> None \<or> slotOf L s p = 0 \<Longrightarrow>
      g' (annotKeyP p) = (if slotOf L s p = 0 then None else Some (hashBytes (slotOf L s p)))"
    and "idSlotOf L s i \<noteq> 0 \<Longrightarrow> g' (idKey i) = rd L raw (idKey i)"
    and "idSlotOf L s i = 0 \<Longrightarrow> g' (idKey i) = None"
    and "(\<And>i. rd L raw (idKey i) = Some (addrBytes a) \<Longrightarrow> idSlotOf L s i \<noteq> 0) \<Longrightarrow>
      g' (addrKey a) = rd L raw (addrKey a)"
    and "rd L raw (idKey i) = Some (addrBytes a) \<Longrightarrow> idSlotOf L s i = 0 \<Longrightarrow> g' (addrKey a) = None"
    and "k \<notin> annotKeyP ` U \<Longrightarrow> (\<And>i. k \<noteq> idKey i) \<Longrightarrow> (\<And>a. k \<noteq> addrKey a) \<Longrightarrow> \<not> chainKey k \<Longrightarrow>
      g' k = rd L raw k"
    and "chainKey k \<Longrightarrow> g' k = applyBatch tail (rd L raw) k"
proof -
  obtain ops1 ops2 where o: "repopulateAnnot L raw s = Inr ops1" "repopulateIDs L raw s = Inr ops2" "ops = ops1 @ ops2"
    using r by (auto simp: repopulatePebbleDB_def andThen_eq_Inr)
  note s1 = repopulateAnnot_ops[OF ok slots ix o(1)] and s2 = repopulateIDs_ops[OF ok o(2)]
  have ak: "opKey (annotOp L s p) = annotKeyP p"
    "opVal (annotOp L s p) = (if slotOf L s p = 0 then None else Some (hashBytes (slotOf L s p)))" for p
    by (simp_all add: annotOp_def)
  have k1: "opKey op \<in> annotKeyP ` U" if "op \<in> set ops1" for op using that ak(1) by (auto simp: s1)
  have k2: "(\<exists>i. opKey op = idKey i \<and> idSlotOf L s i = 0) \<or> (\<exists>a. opKey op = addrKey a)" "opVal op = None"
    if "op \<in> set ops2" for op using that unfolding s2 by fastforce+
  have k3: "chainKey (opKey op)" if "op \<in> set tail" for op using tl that by blast
  have all: "set (ops @ tail) = set ops1 \<union> set ops2 \<union> set tail" by (simp add: o(3) Un_assoc)
  have ne: "annotKeyP p \<noteq> idKey i" "annotKeyP p \<noteq> addrKey a" "idKey i \<noteq> addrKey a" for p i a
    by (simp_all add: annotKeyP_def)
  have src: "op \<in> set ops1 \<or> op \<in> set ops2 \<or> op \<in> set tail" if "op \<in> set (ops @ tail)" for op
    using that by (auto simp: o(3))
  have o1: "op \<in> set ops1" if "op \<in> set (ops @ tail)" "opKey op = annotKeyP p" for op p
    using src[OF that(1)] k2(1)[of op] k3[of op] ne by (auto simp: that(2))
  have o2: "op \<in> set ops2" if "op \<in> set (ops @ tail)" "opKey op = idKey i \<or> opKey op = addrKey a" for op i a
    using src[OF that(1)] k1[of op] k3[of op] that(2) ne[symmetric] by auto
  show "g' (annotKeyP p) = (if slotOf L s p = 0 then None else Some (hashBytes (slotOf L s p)))"
    if p: "p \<in> U" "rd L raw (pairsKeyP p) \<noteq> None \<or> slotOf L s p = 0"
    unfolding g'_def
  proof (rule applyBatch_det)
    fix op assume op: "op \<in> set (ops @ tail)" "opKey op = annotKeyP p"
    then have "op \<in> set ops1" by (rule o1)
    then obtain q where q: "q \<in> U" "op = annotOp L s q" unfolding s1 by blast
    with op(2) have "q = p" using annotKeyP_inject(1)[OF slots q(1) p(1)] by (simp add: ak)
    with q(2) show "opVal op = (if slotOf L s p = 0 then None else Some (hashBytes (slotOf L s p)))" by (simp add: ak)
  next
    show "annotKeyP p \<in> opKey ` set (ops @ tail) \<or>
      rd L raw (annotKeyP p) = (if slotOf L s p = 0 then None else Some (hashBytes (slotOf L s p)))"
    proof (cases "rd L raw (pairsKeyP p) = None")
      case True
      then have "rd L raw (annotKeyP p) = None" using ix p(1) unfolding index_keys_ok_def by blast
      then show ?thesis using p(2) True by simp
    next
      case False
      then have "annotOp L s p \<in> set (ops @ tail)" using p(1) by (simp add: o(3) s1)
      then show ?thesis using ak(1) by (metis image_eqI)
    qed
  qed
  show "g' (idKey i) = rd L raw (idKey i)" if "idSlotOf L s i \<noteq> 0"
    unfolding g'_def
  proof (rule applyBatch_untouched)
    show "idKey i \<notin> opKey ` set (ops @ tail)"
    proof (rule notI, erule imageE)
      fix op assume op: "idKey i = opKey op" "op \<in> set (ops @ tail)"
      then have "op \<in> set ops2" using o2[OF op(2)] by metis
      from k2(1)[OF this] show False using that ne(3) by (auto simp: op(1)[symmetric])
    qed
  qed
  show "g' (idKey i) = None" if "idSlotOf L s i = 0"
    unfolding g'_def
  proof (rule applyBatch_det)
    fix op assume op: "op \<in> set (ops @ tail)" "opKey op = idKey i"
    then have "op \<in> set ops2" using o2 by blast
    then show "opVal op = None" by (rule k2(2))
  next
    show "idKey i \<in> opKey ` set (ops @ tail) \<or> rd L raw (idKey i) = None"
    proof (cases "rd L raw (idKey i)")
      case (Some v)
      then have "BDelete (idKey i) \<in> set ops2" using that by (auto simp: s2)
      then have "opKey (BDelete (idKey i)) \<in> opKey ` set (ops @ tail)" unfolding all by blast
      then show ?thesis by simp
    qed simp
  qed
  show "g' (addrKey a) = rd L raw (addrKey a)"
    if a: "\<And>i. rd L raw (idKey i) = Some (addrBytes a) \<Longrightarrow> idSlotOf L s i \<noteq> 0"
    unfolding g'_def
  proof (rule applyBatch_untouched, rule notI)
    assume "addrKey a \<in> opKey ` set (ops @ tail)"
    then obtain op where op: "op \<in> set (ops @ tail)" "opKey op = addrKey a" by (metis imageE)
    then have "op \<in> set ops2" using o2 by blast
    then obtain i v where "rd L raw (idKey i) = Some v" "idSlotOf L s i = 0" "length v = 20" "a = BytesToAddress v"
      using op(2) unfolding s2 by auto
    then show False using a[of i] by (simp add: addrBytes_BytesToAddress)
  qed
  show "g' (addrKey a) = None" if "rd L raw (idKey i) = Some (addrBytes a)" "idSlotOf L s i = 0"
    unfolding g'_def
  proof (rule applyBatch_det)
    fix op assume op: "op \<in> set (ops @ tail)" "opKey op = addrKey a"
    then have "op \<in> set ops2" using o2 by blast
    then show "opVal op = None" by (rule k2(2))
  next
    have "BDelete (addrKey a) \<in> set ops2" using that unfolding s2
      by (auto intro!: exI[of _ i] exI[of _ "addrBytes a"])
    then have "opKey (BDelete (addrKey a)) \<in> opKey ` set (ops @ tail)" unfolding all by blast
    then show "addrKey a \<in> opKey ` set (ops @ tail) \<or> rd L raw (addrKey a) = None" by simp
  qed
  show "g' k = rd L raw k"
    if "k \<notin> annotKeyP ` U" "\<And>i. k \<noteq> idKey i" "\<And>a. k \<noteq> addrKey a" "\<not> chainKey k"
    unfolding g'_def
  proof (rule applyBatch_untouched, rule notI, erule imageE)
    fix op assume op: "k = opKey op" "op \<in> set (ops @ tail)"
    from src[OF op(2)] show False using that k1[of op] k2(1)[of op] k3[of op] by (auto simp: op(1))
  qed
  show "g' k = applyBatch tail (rd L raw) k" if "chainKey k"
  proof -
    have "k \<notin> opKey ` set ops"
    proof (rule notI, erule imageE)
      fix op assume op: "k = opKey op" "op \<in> set ops"
      then have "op \<in> set ops1 \<or> op \<in> set ops2" by (simp add: o(3))
      then show False using that k1[of op] k2(1)[of op] by (auto simp: op(1))
    qed
    then have "applyBatch ops (rd L raw) k = rd L raw k" by (rule applyBatch_untouched)
    then show ?thesis
      by (simp add: g'_def applyBatch_cong[of "applyBatch ops (rd L raw)" k "rd L raw"])
  qed
qed

lemma repopulated_histLe:
  assumes ok: "lib_ok L" and slots: "slots_ok L U" and ix: "index_keys_ok U (rd L raw)"
    and r: "repopulatePebbleDB L raw s = Inr ops" and tl: "opKey ` set tail \<subseteq> Collect chainKey"
  shows "histLe (rd L raw) (applyBatch (ops @ tail) (rd L raw))"
proof -
  note u = repopulated(6)[OF ok slots ix r tl]
  have "applyBatch (ops @ tail) (rd L raw) k = rd L raw k" if "\<not> arkivKey k" for k
    by (rule u) (use that in \<open>auto simp: annotKeyP_def chainKey_def\<close>)
  moreover have "applyBatch (ops @ tail) (rd L raw) (bitmapKey h) = rd L raw (bitmapKey h)" for h
    by (rule u) auto
  moreover have "applyBatch (ops @ tail) (rd L raw) (pairsKeyP p) = rd L raw (pairsKeyP p)" for p
    by (rule u) (auto simp: not_sym[OF keyP_families(7)] not_sym[OF keyP_families(8)]
      not_sym[OF keyP_families(9)] not_sym[OF keyP_families(10)])
  ultimately show ?thesis unfolding histLe_def trieLe_def by simp
qed

lemma repopulated_index:
  assumes ok: "lib_ok L" and slots: "slots_ok L U" and ix: "index_keys_ok U (rd L raw)"
    and bo: "blobs_ok L H (rd L raw)" and nd: "nodes_ok L H (rd L raw)"
    and r: "repopulatePebbleDB L raw s = Inr ops" and tl: "opKey ` set tail \<subseteq> Collect chainKey"
    and hist: "\<forall>p \<in> U. hist_ptr L (rd L raw) s p (S p)"
  defines "g' \<equiv> applyBatch (ops @ tail) (rd L raw)"
  shows "index_keys_ok U g'" "blobs_ok L H g'" "nodes_ok L H g'" "p \<in> U \<Longrightarrow> ptr_ok L g' s p (S p)"
proof -
  note rp = repopulated[OF ok slots ix r tl, folded g'_def]
  have b: "g' (bitmapKey x) = rd L raw (bitmapKey x)" for x by (rule rp(6)) auto
  have pk: "g' k = rd L raw k" if "prefix prefixPairs k" for k
    by (rule rp(6)) (use that in \<open>auto simp: annotKeyP_def chainKey_def key_defs prefix_defs\<close>)
  have nk: "g' k = rd L raw k" if "\<not> arkivKey k" for k
    by (rule rp(6)) (use that in \<open>auto simp: annotKeyP_def chainKey_def\<close>)
  have pp: "rd L raw (pairsKeyP p) \<noteq> None \<or> slotOf L s p = 0" if "p \<in> U" for p
    using hist that by (auto simp: hist_ptr_def)
  show "blobs_ok L H g'" using bo by (simp add: blobs_ok_def b)
  show "nodes_ok L H g'" using nd nk unfolding nodes_ok_def by metis
  show "ptr_ok L g' s p (S p)" if "p \<in> U" for p
    using hist[rule_format, OF that] rp(1)[OF that pp[OF that]] by (auto simp: ptr_ok_def hist_ptr_def b)
  have an: "k \<in> annotKeyP ` U" if "prefix prefixAnnot k" "g' k \<noteq> None" for k
  proof (rule ccontr)
    assume n: "k \<notin> annotKeyP ` U"
    have "g' k = rd L raw k"
      by (rule rp(6)[OF n]) (use that in \<open>auto simp: chainKey_def key_defs prefix_defs\<close>)
    then show False using ix that n unfolding index_keys_ok_def by metis
  qed
  have third: "g' (pairsKeyP p) \<noteq> None" if p: "p \<in> U" "g' (annotKeyP p) \<noteq> None" for p
  proof -
    have "slotOf L s p \<noteq> 0" using rp(1)[OF p(1) pp[OF p(1)]] p(2) by auto
    then show ?thesis using pp[OF p(1)] pk by simp
  qed
  have pr: "k \<in> pairsKeyP ` U" if "prefix prefixPairs k" "g' k \<noteq> None" for k
    using ix pk[OF that(1)] that unfolding index_keys_ok_def by metis
  show "index_keys_ok U g'" unfolding index_keys_ok_def using an pr third by blast
qed

lemma repopulate_restores:
  assumes ok: "lib_ok L" and h: "hash_ok L U H" and inv: "store_inv L U H s T n"
    and root: "root_ok L U (rd L (rawDB s)) r Tp np" and ids: "ids_current (rd L (rawDB s)) Tp"
    and s0: "stateNew L (rd L (rawDB s)) r = Inr sdb"
    and rp: "repopulatePebbleDB L (rawDB s) sdb = Inr ops" and tl: "opKey ` set tail \<subseteq> Collect chainKey"
    and db: "rd L db = applyBatch (ops @ tail) (rd L (rawDB s))"
  shows "store_inv L U H \<lparr>rawDB = db, headRoot = r, headHash = hh, headNumber = hn\<rparr> Tp np"
proof -
  let ?g = "rd L (rawDB s)"
  have slots: "slots_ok L U" using h by (simp add: hash_ok_def)
  have c: "index_keys_ok U ?g" "blobs_ok L H ?g" "nodes_ok L H ?g"
    using inv by (auto simp: store_inv_def consistent_def)
  have R: "table_ok L U Tp" "\<And>a. code_ok L sdb a (Tp a)" "\<forall>p \<in> U. hist_ptr L ?g sdb p (idsOf L Tp p)"
     "\<And>a i e. Tp a = Some (i, e) \<Longrightarrow> idSlotOf L sdb i = addrSlot a \<and> i \<noteq> 0 \<and> i \<le> np"
     "\<And>i. idSlotOf L sdb i \<noteq> 0 \<Longrightarrow> \<exists>a e. Tp a = Some (i, e)" "readEntityCount L sdb = np"
     "sdGetNonce L sdb (systemAddress L) \<noteq> 0 \<or> \<not> sdExist L sdb (systemAddress L)"
  proof -
    obtain x where x: "stateNew L ?g r = Inr x" "table_ok L U Tp" "\<forall>a. code_ok L x a (Tp a)"
      "\<forall>p \<in> U. hist_ptr L ?g x p (idsOf L Tp p)"
      "\<forall>a i e. Tp a = Some (i, e) \<longrightarrow> idSlotOf L x i = addrSlot a \<and> i \<noteq> 0 \<and> i \<le> np"
      "\<forall>i. idSlotOf L x i \<noteq> 0 \<longrightarrow> (\<exists>a e. Tp a = Some (i, e))" "readEntityCount L x = np"
      "sdGetNonce L x (systemAddress L) \<noteq> 0 \<or> \<not> sdExist L x (systemAddress L)"
      using root unfolding root_ok_def by blast
    moreover from x(1) s0 have "x = sdb" by simp
    ultimately show "table_ok L U Tp" "\<And>a. code_ok L sdb a (Tp a)"
      "\<forall>p \<in> U. hist_ptr L ?g sdb p (idsOf L Tp p)"
      "\<And>a i e. Tp a = Some (i, e) \<Longrightarrow> idSlotOf L sdb i = addrSlot a \<and> i \<noteq> 0 \<and> i \<le> np"
      "\<And>i. idSlotOf L sdb i \<noteq> 0 \<Longrightarrow> \<exists>a e. Tp a = Some (i, e)" "readEntityCount L sdb = np"
      "sdGetNonce L sdb (systemAddress L) \<noteq> 0 \<or> \<not> sdExist L sdb (systemAddress L)" by blast+
  qed
  note ri = repopulated_index[OF ok slots c rp tl R(3), folded db]
  note re = repopulated[OF ok slots c(1) rp tl, folded db]
  have le: "trieLe ?g (rd L db)" using repopulated_histLe[OF ok slots c(1) rp tl] by (simp add: histLe_def db)
  have live: "rd L db (addrKey a) = Some (encodeUint64 i) \<and> rd L db (idKey i) = Some (addrBytes a)"
    if t: "Tp a = Some (i, e)" for a i e
  proof -
    have g: "a \<noteq> 0" "?g (addrKey a) = Some (encodeUint64 i)" "?g (idKey i) = Some (addrBytes a)"
      and u: "\<And>j. ?g (idKey j) = Some (addrBytes a) \<Longrightarrow> j = i"
      using ids t unfolding ids_current_def by blast+
    have nz: "idSlotOf L sdb i \<noteq> 0" using R(4)[OF t] g(1) by simp
    have "rd L db (addrKey a) = ?g (addrKey a)" by (rule re(4)) (use u nz in blast)
    then show ?thesis using re(2)[OF nz] g by simp
  qed
  have "ids_ok L (rd L db) sdb Tp np" unfolding ids_ok_def using live R(4,5,6) by blast
  then have con: "consistent L U H (rd L db) sdb Tp np"
    unfolding consistent_def using R(1,2) ri(1,2,4) by blast
  obtain s' where s': "stateNew L (rd L db) r = Inr s'" "sdGetCode L s' = sdGetCode L sdb"
    "sdGetState L s' (systemAddress L) = sdGetState L sdb (systemAddress L)"
    "sdGetNonce L s' (systemAddress L) \<noteq> 0 \<or> \<not> sdExist L s' (systemAddress L)"
    by (rule reopen[OF ok s0 le R(7)])
  have "consistent L U H (rd L db) s' Tp np" by (rule consistent_transport[OF con refl s'(3,2)])
  with s'(1,4) ri(3) show ?thesis by (auto simp: store_inv_def)
qed

section \<open>Reverting\<close>

definition ancestorRootOf :: "('db, 'bm, 'sdb) lib \<Rightarrow> (bytes \<rightharpoonup> bytes) \<Rightarrow> hash \<Rightarrow> hash" where
  "ancestorRootOf L g h = (case g (rootKey h) of Some b \<Rightarrow> BytesToHash b | None \<Rightarrow> EmptyRootHash L)"

text \<open>Reverting one block is reverting the list of that block.\<close>

lemma revertToAncestor_single: "revertToAncestor L s [ref] = revertBlock L s ref"
proof -
  have "(if refNumber ref > 0 then refNumber ref - 1 else refNumber ref) =
      (if refNumber ref > 0 then refNumber ref - 1 else 0)"
    by (simp add: word_gt_0)
  then show ?thesis by (simp add: revertToAncestor_def revertBlock_def deleteRef_def Let_def)
qed

definition revertTail :: "ArkivBlockRef list \<Rightarrow> uint64 \<Rightarrow> hash \<Rightarrow> hash \<Rightarrow> batchOp list" where
  "revertTail refs number h root =
     concat (map deleteRef refs) @ [BPut headKey (encodeHead number h root)]"

lemma revertTail_keys: "opKey ` set (revertTail refs number h root) \<subseteq> Collect chainKey"
  by (auto simp: revertTail_def deleteRef_def)

definition parentNumber :: "ArkivBlockRef \<Rightarrow> uint64" where
  "parentNumber ref = (if refNumber ref > 0 then refNumber ref - 1 else refNumber ref)"

lemma revertToAncestor_view:
  assumes kv: "kv_ok L" and r: "revertToAncestor L s refs = Inr s'"
  obtains pb sdb ops where "refs \<noteq> []" "rd L (rawDB s) (parentKey (refHash (last refs))) = Some pb"
    "stateNew L (rd L (rawDB s)) (ancestorRootOf L (rd L (rawDB s)) (BytesToHash pb)) = Inr sdb"
    "repopulatePebbleDB L (rawDB s) sdb = Inr ops"
    "headRoot s' = ancestorRootOf L (rd L (rawDB s)) (BytesToHash pb)" "headHash s' = BytesToHash pb"
    "headNumber s' = parentNumber (last refs)"
    "rd L (rawDB s') = applyBatch (ops @ revertTail refs (parentNumber (last refs)) (BytesToHash pb) (headRoot s')) (rd L (rawDB s))"
proof -
  have root: "(case dbGet L (rawDB s) (rootKey x) of Inl _ \<Rightarrow> EmptyRootHash L | Inr b \<Rightarrow> BytesToHash b)
      = ancestorRootOf L (rd L (rawDB s)) x" for x
    by (cases "dbGet L (rawDB s) (rootKey x)") (simp_all add: ancestorRootOf_def rd_def)
  from r have "refs \<noteq> []" by (auto simp: revertToAncestor_def)
  with r obtain pb sdb ops db where v:
    "dbGet L (rawDB s) (parentKey (refHash (last refs))) = Inr pb"
    "stateNew L (rd L (rawDB s)) (ancestorRootOf L (rd L (rawDB s)) (BytesToHash pb)) = Inr sdb"
    "repopulatePebbleDB L (rawDB s) sdb = Inr ops"
    "dbWrite L (rawDB s) (ops @ revertTail refs (parentNumber (last refs)) (BytesToHash pb)
       (ancestorRootOf L (rd L (rawDB s)) (BytesToHash pb))) = Inr db"
    "s' = \<lparr>rawDB = db, headRoot = ancestorRootOf L (rd L (rawDB s)) (BytesToHash pb),
       headHash = BytesToHash pb, headNumber = parentNumber (last refs)\<rparr>"
    by (auto simp: revertToAncestor_def andThen_eq_Inr Let_def root revertTail_def parentNumber_def)
  from that[OF \<open>refs \<noteq> []\<close>, of pb sdb ops] v rd_dbWrite[OF kv v(4)] show thesis
    by (simp add: rd_def)
qed

text \<open>The head and the entries about blocks after a revert.\<close>

lemma applyBatch_revertTail:
  "applyBatch (revertTail refs number h root) g headKey = Some (encodeHead number h root)"
  "ref \<in> set refs \<Longrightarrow> applyBatch (revertTail refs number h root) g (rootKey (refHash ref)) = None"
  "ref \<in> set refs \<Longrightarrow> applyBatch (revertTail refs number h root) g (parentKey (refHash ref)) = None"
  "ref \<in> set refs \<Longrightarrow> applyBatch (revertTail refs number h root) g (blockNumberKey (refNumber ref)) = None"
proof -
  have hd: "applyBatch (revertTail refs number h root) g k =
      (if k = headKey then Some (encodeHead number h root) else applyBatch (concat (map deleteRef refs)) g k)" for k
    by (simp add: revertTail_def)
  have del: "applyBatch (concat (map deleteRef refs)) g k = None"
    if "ref \<in> set refs" "k \<in> opKey ` set (deleteRef ref)" for k
  proof (rule applyBatch_det)
    have "set (deleteRef ref) \<subseteq> set (concat (map deleteRef refs))" using that(1) by auto
    with that(2) show "k \<in> opKey ` set (concat (map deleteRef refs)) \<or> g k = None" by blast
  qed (auto simp: deleteRef_def)
  show "applyBatch (revertTail refs number h root) g headKey = Some (encodeHead number h root)"
    by (simp add: hd)
  show "ref \<in> set refs \<Longrightarrow> applyBatch (revertTail refs number h root) g (rootKey (refHash ref)) = None"
    "ref \<in> set refs \<Longrightarrow> applyBatch (revertTail refs number h root) g (parentKey (refHash ref)) = None"
    "ref \<in> set refs \<Longrightarrow> applyBatch (revertTail refs number h root) g (blockNumberKey (refNumber ref)) = None"
    using del[of "rootKey (refHash ref)"] del[of "parentKey (refHash ref)"] del[of "blockNumberKey (refNumber ref)"]
    by (simp_all add: hd deleteRef_def not_sym[OF headKey_distinct(1)] not_sym[OF headKey_distinct(2)]
        not_sym[OF headKey_distinct(3)])
qed

lemma revert_head:
  assumes ok: "lib_ok L" and h: "hash_ok L U H" and inv: "store_inv L U H s T n"
    and r: "revertToAncestor L s refs = Inr s'"
  shows "head_ok L s'" "headNumber s' = parentNumber (last refs)"
    "rd L (rawDB s) (parentKey (refHash (last refs))) = Some pb \<Longrightarrow> headHash s' = BytesToHash pb"
    "ref \<in> set refs \<Longrightarrow> rd L (rawDB s') (rootKey (refHash ref)) = None"
    "histLe (rd L (rawDB s)) (rd L (rawDB s'))"
proof -
  have slots: "slots_ok L U" using h by (simp add: hash_ok_def)
  have ix: "index_keys_ok U (rd L (rawDB s))" using inv by (auto simp: store_inv_def consistent_def)
  have "head_ok L s' \<and> headNumber s' = parentNumber (last refs) \<and>
      (rd L (rawDB s) (parentKey (refHash (last refs))) = Some pb \<longrightarrow> headHash s' = BytesToHash pb) \<and>
      (ref \<in> set refs \<longrightarrow> rd L (rawDB s') (rootKey (refHash ref)) = None) \<and>
      histLe (rd L (rawDB s)) (rd L (rawDB s'))"
  proof (cases rule: revertToAncestor_view[OF lib_okD(1)[OF ok] r])
    case (1 pb' sdb ops)
    note tk = revertTail_keys[of refs "parentNumber (last refs)" "BytesToHash pb'" "headRoot s'"]
    note c = repopulated(7)[OF ok slots ix 1(4) tk, folded 1(8)]
    note hl = repopulated_histLe[OF ok slots ix 1(4) tk, folded 1(8)]
    have hd: "rd L (rawDB s') headKey = Some (encodeHead (parentNumber (last refs)) (BytesToHash pb') (headRoot s'))"
      by (simp only: c chainKey_simps applyBatch_revertTail)
    have "rd L (rawDB s') (rootKey (refHash ref)) = None" if "ref \<in> set refs"
      by (simp only: c chainKey_simps applyBatch_revertTail that)
    with hl hd show ?thesis using 1(2,6,7) by (simp add: head_ok_def)
  qed
  then show "head_ok L s'" "headNumber s' = parentNumber (last refs)"
    "rd L (rawDB s) (parentKey (refHash (last refs))) = Some pb \<Longrightarrow> headHash s' = BytesToHash pb"
    "ref \<in> set refs \<Longrightarrow> rd L (rawDB s') (rootKey (refHash ref)) = None"
    "histLe (rd L (rawDB s)) (rd L (rawDB s'))" by blast+
qed

text \<open>
  A revert to an ancestor whose root describes \<open>Tp\<close> restores the whole store to \<open>Tp\<close> when the number
  index still records it, and restores the annotation index in any case.
\<close>

lemma revert_restores:
  assumes ok: "lib_ok L" and h: "hash_ok L U H" and inv: "store_inv L U H s T n"
    and r: "revertToAncestor L s refs = Inr s'" and root: "root_ok L U (rd L (rawDB s)) (headRoot s') Tp np"
    and ids: "ids_current (rd L (rawDB s)) Tp"
  shows "store_inv L U H s' Tp np"
proof (cases rule: revertToAncestor_view[OF lib_okD(1)[OF ok] r])
  case (1 pb sdb ops)
  have "store_inv L U H \<lparr>rawDB = rawDB s', headRoot = headRoot s', headHash = headHash s',
    headNumber = headNumber s'\<rparr> Tp np"
    by (rule repopulate_restores[OF ok h inv root ids _ 1(4) revertTail_keys 1(8)]) (simp add: 1)
  then show ?thesis by (simp add: store_inv_def)
qed

lemma revert_annotations:
  assumes ok: "lib_ok L" and h: "hash_ok L U H" and inv: "store_inv L U H s T n"
    and r: "revertToAncestor L s refs = Inr s'" and root: "root_ok L U (rd L (rawDB s)) (headRoot s') Tp np"
    and p: "p \<in> U"
  shows "\<exists>sdb. stateNew L (rd L (rawDB s)) (headRoot s') = Inr sdb \<and>
    ptr_ok L (rd L (rawDB s')) sdb p (idsOf L Tp p)"
proof (cases rule: revertToAncestor_view[OF lib_okD(1)[OF ok] r])
  case (1 pb sdb ops)
  note tk = revertTail_keys[of refs "parentNumber (last refs)" "BytesToHash pb" "headRoot s'"]
  have slots: "slots_ok L U" using h by (simp add: hash_ok_def)
  have c: "index_keys_ok U (rd L (rawDB s))" "blobs_ok L H (rd L (rawDB s))" "nodes_ok L H (rd L (rawDB s))"
    using inv by (auto simp: store_inv_def consistent_def)
  have s0: "stateNew L (rd L (rawDB s)) (headRoot s') = Inr sdb" by (simp add: 1)
  have "\<forall>q \<in> U. hist_ptr L (rd L (rawDB s)) sdb q (idsOf L Tp q)"
    using root s0 unfolding root_ok_def by auto
  from repopulated_index(4)[OF ok slots c 1(4) tk this, folded 1(8)] p s0 show ?thesis by blast
qed

text \<open>
  No revert writes an entry of the number index: a number that is missing stays missing, whatever the
  trie at the ancestor says, and a number the ancestor does not know takes the entry of its address
  away with it.
\<close>

lemma revert_ids:
  assumes ok: "lib_ok L" and h: "hash_ok L U H" and inv: "store_inv L U H s T n"
    and r: "revertToAncestor L s refs = Inr s'"
  shows "rd L (rawDB s) (idKey i) = None \<Longrightarrow> rd L (rawDB s') (idKey i) = None"
    and "stateNew L (rd L (rawDB s)) (headRoot s') = Inr sdb \<Longrightarrow> idSlotOf L sdb i = 0 \<Longrightarrow>
      rd L (rawDB s') (idKey i) = None \<and>
      (rd L (rawDB s) (idKey i) = Some (addrBytes a) \<longrightarrow> rd L (rawDB s') (addrKey a) = None)"
proof -
  have slots: "slots_ok L U" using h by (simp add: hash_ok_def)
  have ix: "index_keys_ok U (rd L (rawDB s))" using inv by (auto simp: store_inv_def consistent_def)
  have "(rd L (rawDB s) (idKey i) = None \<longrightarrow> rd L (rawDB s') (idKey i) = None) \<and>
    (stateNew L (rd L (rawDB s)) (headRoot s') = Inr sdb \<longrightarrow> idSlotOf L sdb i = 0 \<longrightarrow>
      rd L (rawDB s') (idKey i) = None \<and>
      (rd L (rawDB s) (idKey i) = Some (addrBytes a) \<longrightarrow> rd L (rawDB s') (addrKey a) = None))"
  proof (cases rule: revertToAncestor_view[OF lib_okD(1)[OF ok] r])
    case (1 pb x ops)
    note tk = revertTail_keys[of refs "parentNumber (last refs)" "BytesToHash pb" "headRoot s'"]
    note re = repopulated(2,3,5)[OF ok slots ix 1(4) tk, folded 1(8)]
    have "rd L (rawDB s') (idKey i) = None" if "rd L (rawDB s) (idKey i) = None"
      using re(1,2)[of i] that by (cases "idSlotOf L x i = 0") auto
    then show ?thesis using re(2,3)[of i] 1(3,5) by auto
  qed
  then show "rd L (rawDB s) (idKey i) = None \<Longrightarrow> rd L (rawDB s') (idKey i) = None"
    and "stateNew L (rd L (rawDB s)) (headRoot s') = Inr sdb \<Longrightarrow> idSlotOf L sdb i = 0 \<Longrightarrow>
      rd L (rawDB s') (idKey i) = None \<and>
      (rd L (rawDB s) (idKey i) = Some (addrBytes a) \<longrightarrow> rd L (rawDB s') (addrKey a) = None)" by blast+
qed

text \<open>The entries about the blocks that stay are kept.\<close>

lemma revert_keeps_chain:
  assumes ok: "lib_ok L" and h: "hash_ok L U H" and inv: "store_inv L U H s T n"
    and r: "revertToAncestor L s refs = Inr s'"
    and k: "chainKey k" "k \<noteq> headKey" "\<And>ref. ref \<in> set refs \<Longrightarrow> k \<notin> opKey ` set (deleteRef ref)"
  shows "rd L (rawDB s') k = rd L (rawDB s) k"
proof (cases rule: revertToAncestor_view[OF lib_okD(1)[OF ok] r])
  case (1 pb sdb ops)
  have slots: "slots_ok L U" using h by (simp add: hash_ok_def)
  have ix: "index_keys_ok U (rd L (rawDB s))" using inv by (auto simp: store_inv_def consistent_def)
  note c = repopulated(7)[OF ok slots ix 1(4) revertTail_keys[of refs "parentNumber (last refs)" "BytesToHash pb" "headRoot s'"] k(1),
      folded 1(8)]
  have "k \<notin> opKey ` set (revertTail refs (parentNumber (last refs)) (BytesToHash pb) (headRoot s'))"
    using k(2,3) unfolding revertTail_def by (auto simp: image_iff)
  then show ?thesis unfolding c by (rule applyBatch_untouched)
qed

lemma revert_returns:
  assumes ok: "lib_ok L" and io: "io_ok L"
    and p: "rd L (rawDB s) (parentKey (refHash (last refs))) = Some pb" "refs \<noteq> []"
    and root: "root_ok L U (rd L (rawDB s)) (ancestorRootOf L (rd L (rawDB s)) (BytesToHash pb)) Tp np"
  shows "\<exists>s'. revertToAncestor L s refs = Inr s'"
proof -
  have g: "dbGet L (rawDB s) (parentKey (refHash (last refs))) = Inr pb" using p(1) by (simp add: rd_def)
  have root': "(case dbGet L (rawDB s) (rootKey x) of Inl _ \<Rightarrow> EmptyRootHash L | Inr b \<Rightarrow> BytesToHash b)
      = ancestorRootOf L (rd L (rawDB s)) x" for x
    by (cases "dbGet L (rawDB s) (rootKey x)") (simp_all add: ancestorRootOf_def rd_def)
  obtain sdb where sdb: "stateNew L (rd L (rawDB s)) (ancestorRootOf L (rd L (rawDB s)) (BytesToHash pb)) = Inr sdb"
    using root unfolding root_ok_def by blast
  obtain ops where ops: "repopulatePebbleDB L (rawDB s) sdb = Inr ops"
    by (simp add: repopulatePebbleDB_def repopulateAnnot_def repopulateIDs_def Let_def io_okD(2)[OF io])
  show ?thesis using p(2)
    by (simp add: revertToAncestor_def g Let_def root' sdb ops)
      (use io_okD(1)[OF io] in \<open>metis andThen_simps(1) wrapErr_simps(1)\<close>)
qed

end
