(* ===== verification/Store_Query.thy ===== *)
theory Store_Query
  imports Store
begin

text \<open>
  The read side of the store (\<open>store/query.go\<close>): opening the state of a block, the bitmap of one
  annotation pair, the scans over the pointer index, entities and numbers. A loop over a database
  iterator is a recursion over the list of its entries; \<open>break\<close> ends the recursion.
\<close>

section \<open>State of a block\<close>

definition openStateAt :: "('db, 'bm, 'sdb) lib \<Rightarrow> 'db Store \<Rightarrow> uint64 \<Rightarrow> 'sdb res" where
  "openStateAt L s atBlockNumber =
     (if atBlockNumber = 0 then stateNew L (rd L (rawDB s)) (headRoot s)
      else andThen (wrapErr ''block %d not found'' (dbGet L (rawDB s) (blockNumberKey atBlockNumber)))
        (\<lambda>hb. andThen (wrapErr ''state root not found for block %d''
            (dbGet L (rawDB s) (rootKey (BytesToHash hb))))
        (\<lambda>rootBytes. stateNew L (rd L (rawDB s)) (BytesToHash rootBytes))))"

definition ReadAnnotBitmap ::
    "('db, 'bm, 'sdb) lib \<Rightarrow> 'db Store \<Rightarrow> uint64 \<Rightarrow> string \<Rightarrow> string \<Rightarrow> 'bm res" where
  "ReadAnnotBitmap L s atBlockNumber key val =
     andThen (openStateAt L s atBlockNumber) (\<lambda>sdb.
     let h = sdGetState L sdb (systemAddress L) (annotSlotKey L key val)
     in if h = 0 then Inr (bmNew L)
        else case dbGet L (rawDB s) (bitmapKey h) of
            Inl _ \<Rightarrow> Inr (bmNew L)
          | Inr bmBytes \<Rightarrow>
              if length bmBytes = 0 then Inr (bmNew L)
              else wrapErr ''unmarshal bitmap for (%s, %s)'' (bmUnmarshal L bmBytes))"

definition AllEntities :: "('db, 'bm, 'sdb) lib \<Rightarrow> 'db Store \<Rightarrow> uint64 \<Rightarrow> 'bm res" where
  "AllEntities L s atBlockNumber = ReadAnnotBitmap L s atBlockNumber ''$all'' ''true''"

section \<open>Scans of the pointer index\<close>

definition annotKeyPrefix :: "string \<Rightarrow> bytes" where
  "annotKeyPrefix key = prefixAnnot @ key @ [CHR 0x00]"

definition loadBitmapFromPointer :: "('db, 'bm, 'sdb) lib \<Rightarrow> 'db Store \<Rightarrow> bytes \<Rightarrow> 'bm option" where
  "loadBitmapFromPointer L s hb =
     (if length hb \<noteq> 32 then None
      else case dbGet L (rawDB s) (bitmapKey (BytesToHash hb)) of
          Inl _ \<Rightarrow> None
        | Inr bmBytes \<Rightarrow> if length bmBytes = 0 then None else okOption (bmUnmarshal L bmBytes))"

definition orPointer :: "('db, 'bm, 'sdb) lib \<Rightarrow> 'db Store \<Rightarrow> 'bm \<Rightarrow> bytes \<Rightarrow> 'bm" where
  "orPointer L s result hb =
     (case loadBitmapFromPointer L s hb of Some bm \<Rightarrow> bmOr L result bm | None \<Rightarrow> result)"

fun scanNumeric ::
    "('db, 'bm, 'sdb) lib \<Rightarrow> 'db Store \<Rightarrow> nat \<Rightarrow> uint64 \<Rightarrow> (bytes \<times> bytes) list \<Rightarrow> 'bm \<Rightarrow> 'bm" where
  "scanNumeric L s plen hi [] result = result"
| "scanNumeric L s plen hi ((k, v) # it) result =
     (if length k \<noteq> plen + 8 then scanNumeric L s plen hi it result
      else if bytesUint64 (drop plen k) > hi then result
      else scanNumeric L s plen hi it (orPointer L s result v))"

definition IterateNumericAnnotBitmaps ::
    "('db, 'bm, 'sdb) lib \<Rightarrow> 'db Store \<Rightarrow> string \<Rightarrow> uint64 \<Rightarrow> uint64 \<Rightarrow> 'bm" where
  "IterateNumericAnnotBitmaps L s key lo hi =
     (let p = annotKeyPrefix key;
          startSuffix = (if lo > 0 then uint64Bytes lo else [])
      in scanNumeric L s (length p) hi (dbIter L (rawDB s) p startSuffix) (bmNew L))"

fun scanString ::
    "('db, 'bm, 'sdb) lib \<Rightarrow> 'db Store \<Rightarrow> nat \<Rightarrow> string option \<Rightarrow> bool \<Rightarrow> string option \<Rightarrow> bool
      \<Rightarrow> (bytes \<times> bytes) list \<Rightarrow> 'bm \<Rightarrow> 'bm" where
  "scanString L s plen lo loIncl hi hiIncl [] result = result"
| "scanString L s plen lo loIncl hi hiIncl ((k, v) # it) result =
     (if length k \<le> plen then scanString L s plen lo loIncl hi hiIncl it result
      else let suffix = drop plen k in
        if lo \<noteq> None \<and> \<not> loIncl \<and> Some suffix = lo then scanString L s plen lo loIncl hi hiIncl it result
        else if (case hi of None \<Rightarrow> False | Some h \<Rightarrow> suffix > h \<or> suffix = h \<and> \<not> hiIncl) then result
        else scanString L s plen lo loIncl hi hiIncl it (orPointer L s result v))"

definition IterateStringAnnotBitmaps ::
    "('db, 'bm, 'sdb) lib \<Rightarrow> 'db Store \<Rightarrow> string \<Rightarrow> string option \<Rightarrow> bool \<Rightarrow> string option \<Rightarrow> bool \<Rightarrow> 'bm" where
  "IterateStringAnnotBitmaps L s key lo loIncl hi hiIncl =
     (let p = annotKeyPrefix key;
          startSuffix = (case lo of Some l \<Rightarrow> l | None \<Rightarrow> [])
      in scanString L s (length p) lo loIncl hi hiIncl (dbIter L (rawDB s) p startSuffix) (bmNew L))"

text \<open>The loop of \<open>prefixSuccessor\<close>; \<open>Suc i\<close> stands for the index \<open>i\<close>, 0 for having passed the first byte.\<close>

fun prefixSuccessorLoop :: "bytes \<Rightarrow> nat \<Rightarrow> string option" where
  "prefixSuccessorLoop b 0 = None"
| "prefixSuccessorLoop b (Suc i) =
     (if b ! i < CHR 0xFF then Some (take (Suc i) (b[i := char_of (of_char (b ! i) + 1 :: nat)]))
      else prefixSuccessorLoop b i)"

definition prefixSuccessor :: "string \<Rightarrow> string option" where
  "prefixSuccessor p = prefixSuccessorLoop p (length p)"

definition IteratePrefixAnnotBitmaps :: "('db, 'bm, 'sdb) lib \<Rightarrow> 'db Store \<Rightarrow> string \<Rightarrow> string \<Rightarrow> 'bm" where
  "IteratePrefixAnnotBitmaps L s key p = IterateStringAnnotBitmaps L s key (Some p) True (prefixSuccessor p) False"

text \<open>The loop over the pattern is the recursion; a star tries every suffix of the string.\<close>

function globMatch :: "string \<Rightarrow> string \<Rightarrow> bool" where
  "globMatch [] s = (s = [])"
| "globMatch (c # pattern) s =
     (if c = CHR ''*''
      then let rest = dropWhile (\<lambda>c. c = CHR ''*'') pattern
           in rest = [] \<or> list_ex (\<lambda>i. globMatch rest (drop i s)) [0..<Suc (length s)]
      else case s of [] \<Rightarrow> False
         | d # s' \<Rightarrow> (c = CHR ''?'' \<or> c = d) \<and> globMatch pattern s')"
  by pat_completeness auto
termination
  by (relation "measure (\<lambda>(p, s). length p)")
    (auto simp: less_Suc_eq_le length_dropWhile_le)

fun scanGlob ::
    "('db, 'bm, 'sdb) lib \<Rightarrow> 'db Store \<Rightarrow> nat \<Rightarrow> string \<Rightarrow> (bytes \<times> bytes) list \<Rightarrow> 'bm \<Rightarrow> 'bm" where
  "scanGlob L s plen pattern [] result = result"
| "scanGlob L s plen pattern ((k, v) # it) result =
     (if length k \<le> plen then scanGlob L s plen pattern it result
      else if \<not> globMatch pattern (drop plen k) then scanGlob L s plen pattern it result
      else scanGlob L s plen pattern it (orPointer L s result v))"

definition IterateGlobAnnotBitmaps :: "('db, 'bm, 'sdb) lib \<Rightarrow> 'db Store \<Rightarrow> string \<Rightarrow> string \<Rightarrow> 'bm" where
  "IterateGlobAnnotBitmaps L s key pattern =
     (let p = annotKeyPrefix key
      in scanGlob L s (length p) pattern (dbIter L (rawDB s) p []) (bmNew L))"

section \<open>Entities and numbers\<close>

definition GetEntityBytes :: "('db, 'bm, 'sdb) lib \<Rightarrow> 'db Store \<Rightarrow> uint64 \<Rightarrow> address \<Rightarrow> bytes res" where
  "GetEntityBytes L s atBlockNumber addr =
     andThen (openStateAt L s atBlockNumber) (\<lambda>sdb.
     let code = sdGetCode L sdb addr
     in if length code = 0 then Inl (Errorf ''entity not found: %s'') else Inr code)"

definition GetEntity :: "('db, 'bm, 'sdb) lib \<Rightarrow> 'db Store \<Rightarrow> uint64 \<Rightarrow> address \<Rightarrow> Entity res" where
  "GetEntity L s atBlockNumber addr =
     andThen (openStateAt L s atBlockNumber) (\<lambda>sdb.
     let code = sdGetCode L sdb addr
     in if length code = 0 then Inl (Errorf ''entity not found: %s'') else decodeEntity L code)"

definition IDToAddress :: "('db, 'bm, 'sdb) lib \<Rightarrow> 'db Store \<Rightarrow> uint64 \<Rightarrow> address option" where
  "IDToAddress L s i =
     (case dbGet L (rawDB s) (idKey i) of
        Inl _ \<Rightarrow> None
      | Inr data \<Rightarrow> if length data \<noteq> 20 then None else Some (BytesToAddress data))"

section \<open>Globs\<close>

text \<open>The language of a pattern, without the collapsing of stars.\<close>

fun globSpec :: "string \<Rightarrow> string \<Rightarrow> bool" where
  "globSpec [] s = (s = [])"
| "globSpec (c # p) s =
     (if c = CHR ''*'' then (\<exists>i \<le> length s. globSpec p (drop i s))
      else if c = CHR ''?'' then s \<noteq> [] \<and> globSpec p (tl s)
      else s \<noteq> [] \<and> hd s = c \<and> globSpec p (tl s))"

lemma globSpec_dropStars:
  "(\<exists>i \<le> length s. globSpec (dropWhile (\<lambda>c. c = CHR ''*'') p) (drop i s)) \<longleftrightarrow> (\<exists>i \<le> length s. globSpec p (drop i s))"
proof (induction p arbitrary: s)
  case (Cons c p)
  show ?case
  proof (cases "c = CHR ''*''")
    case True
    have "(\<exists>i \<le> length s. globSpec (c # p) (drop i s)) \<longleftrightarrow>
        (\<exists>i \<le> length s. \<exists>j \<le> length s - i. globSpec p (drop (j + i) s))"
      by (simp add: True)
    also have "\<dots> \<longleftrightarrow> (\<exists>i \<le> length s. globSpec p (drop i s))"
    proof safe
      fix i j assume "i \<le> length s" "j \<le> length s - i" "globSpec p (drop (j + i) s)"
      then show "\<exists>i \<le> length s. globSpec p (drop i s)" by (intro exI[of _ "j + i"]) simp
    next
      fix i assume "i \<le> length s" "globSpec p (drop i s)"
      then show "\<exists>i \<le> length s. \<exists>j \<le> length s - i. globSpec p (drop (j + i) s)"
        by (intro exI[of _ i] exI[of _ 0] conjI) simp_all
    qed
    finally show ?thesis using Cons.IH True by simp
  qed simp
qed simp

lemma globMatch_globSpec: "globMatch p s = globSpec p s"
proof (induction p s rule: globMatch.induct)
  case (2 c pattern s)
  show ?case
  proof (cases "c = CHR ''*''")
    case True
    let ?r = "dropWhile (\<lambda>c. c = CHR ''*'') pattern"
    have "list_ex (\<lambda>i. globMatch ?r (drop i s)) [0..<Suc (length s)] \<longleftrightarrow>
        (\<exists>i \<le> length s. globSpec ?r (drop i s))"
    proof -
      have "globMatch ?r (drop i s) = globSpec ?r (drop i s)" if "i \<in> set [0..<Suc (length s)]" for i
        using "2.IH"(1)[OF True refl that] .
      then show ?thesis unfolding list_ex_iff set_upt Bex_def atLeastLessThan_iff less_Suc_eq_le by auto
    qed
    moreover have "\<exists>i \<le> length s. globSpec ?r (drop i s)" if "?r = []"
      unfolding that by (intro exI[of _ "length s"]) simp
    ultimately have "globMatch (c # pattern) s \<longleftrightarrow> (\<exists>i \<le> length s. globSpec ?r (drop i s))"
      unfolding globMatch.simps Let_def if_P[OF True] by blast
    then show ?thesis unfolding globSpec_dropStars by (simp only: globSpec.simps if_P[OF True])
  next
    case False
    then show ?thesis using "2.IH"(2) by (cases s) auto
  qed
qed simp

text \<open>A pattern without wildcards but for a final star is the prefix test.\<close>

lemma globSpec_prefix:
  assumes "CHR ''*'' \<notin> set q" "CHR ''?'' \<notin> set q"
  shows "globSpec (q @ ''*'') s \<longleftrightarrow> prefix q s"
  using assms
proof (induction q arbitrary: s)
  case Nil
  have "\<exists>i \<le> length s. drop i s = []" by (rule exI[of _ "length s"]) simp
  then show ?case by simp
next
  case (Cons c q)
  then show ?case by (cases s) auto
qed

section \<open>The successor of a prefix\<close>

text \<open>
  The strings with prefix \<open>p\<close> are exactly the interval from \<open>p\<close>, included, to its successor, excluded, or
  without upper bound when there is no successor.
\<close>

lemma of_char_FF: "of_char (CHR 0xFF) = (255 :: nat)"
  by simp

lemma char_FF_max: "c < CHR 0xFF \<longleftrightarrow> c \<noteq> CHR 0xFF"
proof -
  have "of_char c < (256 :: nat)" by (rule nat_of_char_less_256)
  then have "(of_char c :: nat) < 255 \<longleftrightarrow> (of_char c :: nat) \<noteq> 255" by arith
  then show ?thesis by (metis less_char_def of_char_FF of_char_eq_iff)
qed

lemma char_succ_less:
  assumes "c < CHR 0xFF"
  shows "d < char_of (of_char c + 1 :: nat) \<longleftrightarrow> d \<le> c"
proof -
  have "(of_char c :: nat) < 255" using assms unfolding less_char_def of_char_FF .
  then have "(of_char (char_of (of_char c + 1 :: nat)) :: nat) = of_char c + 1" by (simp add: of_char_of)
  then show ?thesis unfolding less_char_def less_eq_char_def by auto
qed

lemma FF_prefix: "prefix (replicate n (CHR 0xFF)) v \<longleftrightarrow> replicate n (CHR 0xFF) \<le> v"
proof (induction n arbitrary: v)
  case (Suc n)
  show ?case
  proof (cases v)
    case (Cons d w)
    have "\<not> CHR 0xFF < d" using char_FF_max[of d] by (metis less_asym)
    then show ?thesis using Suc.IH[of w] Cons by auto
  qed simp
qed simp

lemma succ_prefix:
  assumes "c < CHR 0xFF"
  shows "prefix (q @ c # replicate n (CHR 0xFF)) v \<longleftrightarrow>
    q @ c # replicate n (CHR 0xFF) \<le> v \<and> v < q @ [char_of (of_char c + 1 :: nat)]"
proof (induction q arbitrary: v)
  case Nil
  show ?case
  proof (cases v)
    case (Cons d w)
    have "d # w < [char_of (of_char c + 1 :: nat)] \<longleftrightarrow> d \<le> c"
      unfolding char_succ_less[OF assms, of d, symmetric] Cons_less_Cons by (simp only: not_less_Nil simp_thms)
    moreover have "c # replicate n (CHR 0xFF) \<le> d # w \<longleftrightarrow> c < d \<or> c = d \<and> replicate n (CHR 0xFF) \<le> w"
      by simp
    moreover have "prefix (c # replicate n (CHR 0xFF)) (d # w) \<longleftrightarrow> c = d \<and> replicate n (CHR 0xFF) \<le> w"
      using FF_prefix[of n w] by simp
    moreover have "(c < d \<or> c = d \<and> R) \<and> d \<le> c \<longleftrightarrow> c = d \<and> R" for R
      by (metis leD order_refl)
    ultimately show ?thesis unfolding Cons append_Nil by (simp only:)
  qed simp
next
  case (Cons x q)
  show ?case
  proof (cases v)
    case v: (Cons d w)
    have "(x < d \<or> x = d \<and> A) \<and> (d < x \<or> d = x \<and> B) \<longleftrightarrow> x = d \<and> A \<and> B" for A B
      by (metis less_asym)
    then show ?thesis unfolding v append_Cons Cons_less_Cons Cons_le_Cons Cons_prefix_Cons Cons.IH[of w] by (simp only:)
  qed simp
qed

lemma prefixSuccessorLoop_cases:
  assumes "i \<le> length b"
  shows "(prefixSuccessorLoop b i = None \<and> take i b = replicate i (CHR 0xFF)) \<or>
    (\<exists>q c n. c < CHR 0xFF \<and> take i b = q @ c # replicate n (CHR 0xFF) \<and>
       prefixSuccessorLoop b i = Some (q @ [char_of (of_char c + 1 :: nat)]))"
  using assms
proof (induction i)
  case (Suc i)
  then have i: "i < length b" by simp
  have t: "take (Suc i) b = take i b @ [b ! i]" by (rule take_Suc_conv_app_nth[OF i])
  show ?case
  proof (cases "b ! i < CHR 0xFF")
    case True
    have "take (Suc i) (b[i := x]) = take i b @ [x]" for x
      using i by (simp add: take_Suc_conv_app_nth)
    then show ?thesis using True t
      by (intro disjI2 exI[of _ "take i b"] exI[of _ "b ! i"] exI[of _ 0]) simp
  next
    case False
    then have ff: "b ! i = CHR 0xFF" by (simp add: char_FF_max)
    from Suc.IH i consider "prefixSuccessorLoop b i = None" "take i b = replicate i (CHR 0xFF)"
      | q c n where "c < CHR 0xFF" "take i b = q @ c # replicate n (CHR 0xFF)"
        "prefixSuccessorLoop b i = Some (q @ [char_of (of_char c + 1 :: nat)])" by fastforce
    then show ?thesis
    proof cases
      case 1
      then show ?thesis using False t ff by (simp add: replicate_append_same)
    next
      case 2
      then show ?thesis using False t ff
        by (intro disjI2 exI[of _ q] exI[of _ c] exI[of _ "Suc n"]) (simp add: replicate_append_same)
    qed
  qed
qed simp

lemma prefixSuccessor_interval:
  "prefix p v \<longleftrightarrow> p \<le> v \<and> (case prefixSuccessor p of None \<Rightarrow> True | Some h \<Rightarrow> v < h)"
proof -
  from prefixSuccessorLoop_cases[OF order_refl, of p] consider
      "prefixSuccessor p = None" "p = replicate (length p) (CHR 0xFF)"
    | q c n where "c < CHR 0xFF" "p = q @ c # replicate n (CHR 0xFF)"
        "prefixSuccessor p = Some (q @ [char_of (of_char c + 1 :: nat)])"
    unfolding prefixSuccessor_def by auto
  then show ?thesis
  proof cases
    case 1
    then show ?thesis using FF_prefix[of "length p" v] by simp
  next
    case 2
    then show ?thesis using succ_prefix[OF 2(1), of q n v] by simp
  qed
qed

section \<open>What a scan collects\<close>

definition ptrSet :: "('db, 'bm, 'sdb) lib \<Rightarrow> 'db Store \<Rightarrow> bytes \<Rightarrow> uint64 set" where
  "ptrSet L s v = (case loadBitmapFromPointer L s v of None \<Rightarrow> {} | Some b \<Rightarrow> bmSet L b)"

lemma bmSet_orPointer:
  "roaring_ok L \<Longrightarrow> bmSet L (orPointer L s r v) = bmSet L r \<union> ptrSet L s v"
  by (auto simp: orPointer_def ptrSet_def lib_simps split: option.splits)

lemma append_less [simp]: "p @ a < p @ (b :: bytes) \<longleftrightarrow> a < b"
  by (induction p) auto

lemma append_le [simp]: "p @ a \<le> p @ (b :: bytes) \<longleftrightarrow> a \<le> b"
  by (induction p) auto

text \<open>An iterator over a prefix yields the suffixes in order.\<close>

definition withPrefix :: "bytes \<Rightarrow> (bytes \<times> bytes) list \<Rightarrow> (bytes \<times> bytes) list" where
  "withPrefix p xs = map (\<lambda>(x, v). (p @ x, v)) xs"

lemma dbIter_suffixes:
  assumes kv: "kv_ok L"
  obtains xs where "dbIter L db p st = withPrefix p xs" "sorted_wrt (<) (map fst xs)"
    "set xs = {(x, v). rd L db (p @ x) = Some v \<and> st \<le> x}"
proof -
  let ?it = "dbIter L db p st"
  let ?xs = "map (\<lambda>(k, v). (drop (length p) k, v)) ?it"
  have s: "set ?it = {(k, v). rd L db k = Some v \<and> prefix p k \<and> p @ st \<le> k}" by (rule set_dbIter[OF kv])
  have i: "?it = withPrefix p ?xs"
  proof -
    have "map (\<lambda>kv. (p @ drop (length p) (fst kv), snd kv)) ?it = map id ?it"
      by (rule map_cong[OF refl]) (use s in \<open>auto simp: prefix_def\<close>)
    then show ?thesis by (simp add: withPrefix_def case_prod_beta o_def)
  qed
  have "sorted_wrt (<) (map fst (withPrefix p ?xs))" using dbIter_sorted[OF kv, of db p st] i by simp
  then have "sorted_wrt (<) (map fst ?xs)"
    unfolding withPrefix_def by (simp add: sorted_wrt_map case_prod_beta del: map_map)
  moreover have "set ?xs = {(x, v). rd L db (p @ x) = Some v \<and> st \<le> x}"
  proof (intro set_eqI iffI)
    fix y assume "y \<in> set ?xs"
    then show "y \<in> {(x, v). rd L db (p @ x) = Some v \<and> st \<le> x}" using s by (auto simp: prefix_def)
  next
    fix y assume "y \<in> {(x, v). rd L db (p @ x) = Some v \<and> st \<le> x}"
    then obtain x v where y: "y = (x, v)" "rd L db (p @ x) = Some v" "st \<le> x" by blast
    then have "(p @ x, v) \<in> set ?it" using s by simp
    then have "(\<lambda>(k, v). (drop (length p) k, v)) (p @ x, v) \<in> set ?xs" by (metis image_eqI image_set)
    then show "y \<in> set ?xs" using y(1) by simp
  qed
  ultimately show thesis using that i by blast
qed

lemma scanGlob_set:
  assumes "roaring_ok L"
  shows "bmSet L (scanGlob L s (length p) pat (withPrefix p xs) r) =
    bmSet L r \<union> (\<Union>(x, v) \<in> {(x, v) \<in> set xs. x \<noteq> [] \<and> globMatch pat x}. ptrSet L s v)"
proof (induction xs arbitrary: r)
  case (Cons xv xs)
  obtain x v where xv: "xv = (x, v)" by fastforce
  have "withPrefix p (xv # xs) = (p @ x, v) # withPrefix p xs" by (simp add: withPrefix_def xv)
  then show ?case using Cons.IH
    by (auto simp: xv bmSet_orPointer[OF assms] split: if_splits)
qed (simp add: withPrefix_def)

text \<open>A break is sound because everything behind it is out of range, too.\<close>

definition belowHi :: "string option \<Rightarrow> bool \<Rightarrow> string \<Rightarrow> bool" where
  "belowHi hi hiIncl x = (case hi of None \<Rightarrow> True | Some h \<Rightarrow> x < h \<or> (x = h \<and> hiIncl))"

lemma belowHi_antimono: "x < y \<Longrightarrow> belowHi hi hiIncl y \<Longrightarrow> belowHi hi hiIncl x"
  by (auto simp: belowHi_def split: option.splits)

lemma scanString_set:
  assumes r: "roaring_ok L" and "sorted_wrt (<) (map fst xs)"
  shows "bmSet L (scanString L s (length p) lo loIncl hi hiIncl (withPrefix p xs) r) = bmSet L r \<union>
    (\<Union>(x, v) \<in> {(x, v) \<in> set xs. x \<noteq> [] \<and> (lo = Some x \<longrightarrow> loIncl) \<and> belowHi hi hiIncl x}. ptrSet L s v)"
  using assms(2)
proof (induction xs arbitrary: r)
  case (Cons xv xs)
  obtain x v where xv: "xv = (x, v)" by fastforce
  have w: "withPrefix p (xv # xs) = (p @ x, v) # withPrefix p xs" by (simp add: withPrefix_def xv)
  have IH: "bmSet L (scanString L s (length p) lo loIncl hi hiIncl (withPrefix p xs) r) = bmSet L r \<union>
    (\<Union>(x, v) \<in> {(x, v) \<in> set xs. x \<noteq> [] \<and> (lo = Some x \<longrightarrow> loIncl) \<and> belowHi hi hiIncl x}. ptrSet L s v)" for r
    using Cons.IH Cons.prems by simp
  have later: "x < y" if "(y, u) \<in> set xs" for y u using Cons.prems that by (force simp: xv)
  have brk: "(case hi of None \<Rightarrow> False | Some h \<Rightarrow> h < x \<or> x = h \<and> \<not> hiIncl) \<longleftrightarrow> \<not> belowHi hi hiIncl x"
    by (auto simp: belowHi_def split: option.splits)
  have one: "{(y, u) \<in> set (xv # xs). P y} = (if P x then {(x, v)} else {}) \<union> {(y, u) \<in> set xs. P y}" for P
    by (auto simp: xv)
  consider "x = [] \<or> (lo = Some x \<and> \<not> loIncl)" | "x \<noteq> []" "lo = Some x \<longrightarrow> loIncl" "\<not> belowHi hi hiIncl x"
    | "x \<noteq> []" "lo = Some x \<longrightarrow> loIncl" "belowHi hi hiIncl x" by blast
  then show ?case
  proof cases
    case 1
    then have "scanString L s (length p) lo loIncl hi hiIncl (withPrefix p (xv # xs)) r =
        scanString L s (length p) lo loIncl hi hiIncl (withPrefix p xs) r" by (auto simp: w)
    then show ?thesis unfolding one using 1 IH by auto
  next
    case 2
    then have "scanString L s (length p) lo loIncl hi hiIncl (withPrefix p (xv # xs)) r = r"
      using brk by (auto simp: w)
    moreover have "{(y, u) \<in> set xs. y \<noteq> [] \<and> (lo = Some y \<longrightarrow> loIncl) \<and> belowHi hi hiIncl y} = {}"
      using 2(3) later belowHi_antimono by blast
    ultimately show ?thesis unfolding one using 2 by auto
  next
    case 3
    then have "scanString L s (length p) lo loIncl hi hiIncl (withPrefix p (xv # xs)) r =
        scanString L s (length p) lo loIncl hi hiIncl (withPrefix p xs) (orPointer L s r v)"
      using brk by (auto simp: w)
    then show ?thesis unfolding one using 3 IH by (simp add: bmSet_orPointer[OF r] Un_assoc)
  qed
qed (simp add: withPrefix_def)

lemma scanNumeric_set:
  assumes r: "roaring_ok L" and "sorted_wrt (<) (map fst xs)"
  shows "bmSet L (scanNumeric L s (length p) hi (withPrefix p xs) r) = bmSet L r \<union>
    (\<Union>(x, v) \<in> {(x, v) \<in> set xs. length x = 8 \<and> bytesUint64 x \<le> hi}. ptrSet L s v)"
  using assms(2)
proof (induction xs arbitrary: r)
  case (Cons xv xs)
  obtain x v where xv: "xv = (x, v)" by fastforce
  have w: "withPrefix p (xv # xs) = (p @ x, v) # withPrefix p xs" by (simp add: withPrefix_def xv)
  have IH: "bmSet L (scanNumeric L s (length p) hi (withPrefix p xs) r) = bmSet L r \<union>
    (\<Union>(x, v) \<in> {(x, v) \<in> set xs. length x = 8 \<and> bytesUint64 x \<le> hi}. ptrSet L s v)" for r
    using Cons.IH Cons.prems by simp
  have later: "x < y" if "(y, u) \<in> set xs" for y u using Cons.prems that by (force simp: xv)
  have one: "{(y, u) \<in> set (xv # xs). P y} = (if P x then {(x, v)} else {}) \<union> {(y, u) \<in> set xs. P y}" for P
    by (auto simp: xv)
  have num: "bytesUint64 a < bytesUint64 b" if "length a = 8" "length b = 8" "a < b" for a b
    using that by (metis uint64Bytes_bytesUint64 uint64Bytes_less_iff)
  consider "length x \<noteq> 8" | "length x = 8" "hi < bytesUint64 x" | "length x = 8" "bytesUint64 x \<le> hi"
    by fastforce
  then show ?case
  proof cases
    case 1
    then show ?thesis unfolding one using IH by (simp add: w)
  next
    case 2
    then have "scanNumeric L s (length p) hi (withPrefix p (xv # xs)) r = r" by (simp add: w)
    moreover have "{(y, u) \<in> set xs. length y = 8 \<and> bytesUint64 y \<le> hi} = {}"
      using 2 later num by fastforce
    ultimately show ?thesis unfolding one using 2 by auto
  next
    case 3
    then show ?thesis unfolding one using IH leD[OF 3(2)] by (simp add: w bmSet_orPointer[OF r] Un_assoc)
  qed
qed (simp add: withPrefix_def)

text \<open>The union of the stored bitmaps of a key over the values that satisfy a predicate.\<close>

definition annotScan :: "('db, 'bm, 'sdb) lib \<Rightarrow> 'db Store \<Rightarrow> string \<Rightarrow> (string \<Rightarrow> bool) \<Rightarrow> uint64 set" where
  "annotScan L s key P = (\<Union>(x, v) \<in> {(x, v). rd L (rawDB s) (annotKey key x) = Some v \<and> P x}. ptrSet L s v)"

definition aboveLo :: "string option \<Rightarrow> bool \<Rightarrow> string \<Rightarrow> bool" where
  "aboveLo lo loIncl x = (case lo of None \<Rightarrow> True | Some l \<Rightarrow> l < x \<or> (l = x \<and> loIncl))"

lemma annotKeyPrefix_append [simp]: "annotKeyPrefix key @ x = annotKey key x"
  by (simp add: annotKeyPrefix_def annotKey_def)

lemma annotScan_cong: "(\<And>x. P x \<longleftrightarrow> Q x) \<Longrightarrow> annotScan L s key P = annotScan L s key Q"
  by (simp add: annotScan_def)

lemma IterateGlob_set:
  assumes kv: "kv_ok L" and r: "roaring_ok L"
  shows "bmSet L (IterateGlobAnnotBitmaps L s key pat) = annotScan L s key (\<lambda>x. x \<noteq> [] \<and> globMatch pat x)"
proof (rule dbIter_suffixes[OF kv, of "rawDB s" "annotKeyPrefix key" "[]"])
  fix xs assume xs: "dbIter L (rawDB s) (annotKeyPrefix key) [] = withPrefix (annotKeyPrefix key) xs"
    "set xs = {(x, v). rd L (rawDB s) (annotKeyPrefix key @ x) = Some v \<and> [] \<le> x}"
  show ?thesis
    by (simp add: IterateGlobAnnotBitmaps_def Let_def xs scanGlob_set[OF r] bmSet_simps[OF r] annotScan_def)
qed

lemma IterateString_set:
  assumes kv: "kv_ok L" and r: "roaring_ok L"
  shows "bmSet L (IterateStringAnnotBitmaps L s key lo loIncl hi hiIncl) =
    annotScan L s key (\<lambda>x. x \<noteq> [] \<and> aboveLo lo loIncl x \<and> belowHi hi hiIncl x)"
proof (rule dbIter_suffixes[OF kv, of "rawDB s" "annotKeyPrefix key" "case lo of Some l \<Rightarrow> l | None \<Rightarrow> []"])
  fix xs assume xs: "dbIter L (rawDB s) (annotKeyPrefix key) (case lo of Some l \<Rightarrow> l | None \<Rightarrow> []) =
      withPrefix (annotKeyPrefix key) xs" "sorted_wrt (<) (map fst xs)"
    "set xs = {(x, v). rd L (rawDB s) (annotKeyPrefix key @ x) = Some v \<and> (case lo of Some l \<Rightarrow> l | None \<Rightarrow> []) \<le> x}"
  have lo: "(case lo of Some l \<Rightarrow> l | None \<Rightarrow> []) \<le> x \<and> (lo = Some x \<longrightarrow> loIncl) \<longleftrightarrow> aboveLo lo loIncl x" for x
    by (auto simp: aboveLo_def split: option.splits)
  have "{(x, v) \<in> set xs. x \<noteq> [] \<and> (lo = Some x \<longrightarrow> loIncl) \<and> belowHi hi hiIncl x} =
      {(x, v). rd L (rawDB s) (annotKey key x) = Some v \<and> x \<noteq> [] \<and> aboveLo lo loIncl x \<and> belowHi hi hiIncl x}"
    using lo by (auto simp: xs(3))
  then show ?thesis
    by (simp add: IterateStringAnnotBitmaps_def Let_def xs(1) scanString_set[OF r xs(2)] bmSet_simps[OF r] annotScan_def)
qed

lemma IterateNumeric_set:
  assumes kv: "kv_ok L" and r: "roaring_ok L"
  shows "bmSet L (IterateNumericAnnotBitmaps L s key lo hi) =
    annotScan L s key (\<lambda>x. length x = 8 \<and> lo \<le> bytesUint64 x \<and> bytesUint64 x \<le> hi)"
proof (rule dbIter_suffixes[OF kv, of "rawDB s" "annotKeyPrefix key" "if lo > 0 then uint64Bytes lo else []"])
  fix xs assume xs: "dbIter L (rawDB s) (annotKeyPrefix key) (if lo > 0 then uint64Bytes lo else []) =
      withPrefix (annotKeyPrefix key) xs" "sorted_wrt (<) (map fst xs)"
    "set xs = {(x, v). rd L (rawDB s) (annotKeyPrefix key @ x) = Some v \<and> (if lo > 0 then uint64Bytes lo else []) \<le> x}"
  have lo: "(if lo > 0 then uint64Bytes lo else []) \<le> x \<longleftrightarrow> lo \<le> bytesUint64 x" if "length x = 8" for x
  proof (cases "lo > 0")
    case True
    have "uint64Bytes lo \<le> uint64Bytes (bytesUint64 x) \<longleftrightarrow> lo \<le> bytesUint64 x" by (rule uint64Bytes_le_iff)
    with True that show ?thesis by (simp add: uint64Bytes_bytesUint64)
  next
    case False
    then have "lo = 0" by (simp add: word_gt_0)
    then show ?thesis by simp
  qed
  have "{(x, v) \<in> set xs. length x = 8 \<and> bytesUint64 x \<le> hi} =
      {(x, v). rd L (rawDB s) (annotKey key x) = Some v \<and> length x = 8 \<and> lo \<le> bytesUint64 x \<and> bytesUint64 x \<le> hi}"
    using lo by (auto simp: xs(3))
  then show ?thesis
    by (simp add: IterateNumericAnnotBitmaps_def Let_def xs(1) scanNumeric_set[OF r xs(2)] bmSet_simps[OF r] annotScan_def)
qed

lemma IteratePrefix_set:
  assumes kv: "kv_ok L" and r: "roaring_ok L"
  shows "bmSet L (IteratePrefixAnnotBitmaps L s key p) = annotScan L s key (\<lambda>x. x \<noteq> [] \<and> prefix p x)"
proof -
  have "aboveLo (Some p) True x \<and> belowHi (prefixSuccessor p) False x \<longleftrightarrow> prefix p x" for x
    using prefixSuccessor_interval[of p x]
    by (auto simp: aboveLo_def belowHi_def le_less split: option.splits)
  then show ?thesis unfolding IteratePrefixAnnotBitmaps_def IterateString_set[OF kv r] by simp
qed

lemma IteratePrefix_IterateGlob:
  assumes "kv_ok L" "roaring_ok L" "CHR ''*'' \<notin> set p" "CHR ''?'' \<notin> set p"
  shows "bmSet L (IteratePrefixAnnotBitmaps L s key p) = bmSet L (IterateGlobAnnotBitmaps L s key (p @ ''*''))"
  unfolding IteratePrefix_set[OF assms(1,2)] IterateGlob_set[OF assms(1,2)] globMatch_globSpec
  using globSpec_prefix[OF assms(3,4)] by simp

end
