(* ===== verification/Query_Lang.thy ===== *)
theory Query_Lang
  imports Store_Query
begin

text \<open>
  The query language: the parse tree the grammar of \<open>query/language.go\<close> produces, and its
  normalisation (\<open>query/normalize.go\<close>) to a disjunction of conjunctions of leaf terms with negations
  pushed to the leaves. The parser itself is generated by a library from struct tags, so it is a
  parameter of \<open>Parse\<close>. Every \<open>panic\<close> and every dereference of a nil pointer is an error \<open>Panic\<close> here.
\<close>

section \<open>Parse trees\<close>

record Value =
  valString :: "string option"
  valNumber :: "uint64 option"

record Values =
  valuesStrings :: "string list"
  valuesNumbers :: "uint64 list"

text \<open>The four comparisons have the same two fields.\<close>

record VarValue =
  cmpVar :: string
  cmpValue :: Value

type_synonym LessThan = VarValue
type_synonym LessOrEqualThan = VarValue
type_synonym GreaterThan = VarValue
type_synonym GreaterOrEqualThan = VarValue

record Equality =
  eqVar :: string
  eqIsNot :: bool
  eqValue :: Value

record Inclusion =
  inVar :: string
  inIsNot :: bool
  inValues :: Values

record GlobExpr =
  glVar :: string
  glIsNot :: bool
  glValue :: string

text \<open>
  An \<open>EqualExpr\<close> has one pointer per alternative, in the order of the struct; \<open>None\<close> is nil. A list
  stands for a slice of pointers; a nil slice is the empty list.
\<close>

datatype Expression = Expression OrExpression
  and OrExpression = OrExpression AndExpression "OrRHS list"
  and OrRHS = OrRHS AndExpression
  and AndExpression = AndExpression EqualExpr "AndRHS list"
  and AndRHS = AndRHS EqualExpr
  and EqualExpr = EqualExpr "Paren option" "Equality option" "Inclusion option"
      "LessThan option" "LessOrEqualThan option" "GreaterThan option" "GreaterOrEqualThan option"
      "GlobExpr option"
  and Paren = Paren bool Expression

type_synonym TopLevel = "Expression option"

abbreviation parenExpr :: "Paren \<Rightarrow> EqualExpr" where
  "parenExpr p \<equiv> EqualExpr (Some p) None None None None None None None"

section \<open>Normal forms\<close>

record ASTTerm =
  tmAssign :: "Equality option"
  tmInclusion :: "Inclusion option"
  tmLessThan :: "LessThan option"
  tmLessOrEqualThan :: "LessOrEqualThan option"
  tmGreaterThan :: "GreaterThan option"
  tmGreaterOrEqualThan :: "GreaterOrEqualThan option"
  tmGlob :: "GlobExpr option"

type_synonym ASTAnd = "ASTTerm list"
type_synonym ASTOr = "ASTAnd list"
type_synonym ASTExpr = ASTOr
type_synonym AST = "ASTExpr option"

definition noTerm :: ASTTerm where
  "noTerm = \<lparr>tmAssign = None, tmInclusion = None, tmLessThan = None, tmLessOrEqualThan = None,
     tmGreaterThan = None, tmGreaterOrEqualThan = None, tmGlob = None\<rparr>"

section \<open>Leaves\<close>

definition addressVar :: "string \<Rightarrow> bool" where
  "addressVar v \<longleftrightarrow> v = ''$key'' \<or> v = ''$owner'' \<or> v = ''$creator''"

definition derefString :: "Value \<Rightarrow> string res" where
  "derefString v = (case valString v of Some s \<Rightarrow> Inr s | None \<Rightarrow> Inl (Panic ''nil pointer dereference''))"

definition normVarValue :: "(string \<Rightarrow> string) \<Rightarrow> VarValue \<Rightarrow> VarValue res" where
  "normVarValue uni e =
     (if addressVar (cmpVar e)
      then andThen (derefString (cmpValue e)) (\<lambda>s.
        Inr \<lparr>cmpVar = cmpVar e, cmpValue = \<lparr>valString = Some (toLower uni s), valNumber = None\<rparr>\<rparr>)
      else Inr e)"

text \<open>The four comparisons have the same fields and the same body.\<close>

definition normLessThan :: "(string \<Rightarrow> string) \<Rightarrow> LessThan \<Rightarrow> LessThan res" where
  "normLessThan = normVarValue"

definition invLessThan :: "LessThan \<Rightarrow> GreaterOrEqualThan" where
  "invLessThan e = \<lparr>cmpVar = cmpVar e, cmpValue = cmpValue e\<rparr>"

definition normLessOrEqualThan :: "(string \<Rightarrow> string) \<Rightarrow> LessOrEqualThan \<Rightarrow> LessOrEqualThan res" where
  "normLessOrEqualThan = normVarValue"

definition invLessOrEqualThan :: "LessOrEqualThan \<Rightarrow> GreaterThan" where
  "invLessOrEqualThan e = \<lparr>cmpVar = cmpVar e, cmpValue = cmpValue e\<rparr>"

definition normGreaterThan :: "(string \<Rightarrow> string) \<Rightarrow> GreaterThan \<Rightarrow> GreaterThan res" where
  "normGreaterThan = normVarValue"

definition invGreaterThan :: "GreaterThan \<Rightarrow> LessOrEqualThan" where
  "invGreaterThan e = \<lparr>cmpVar = cmpVar e, cmpValue = cmpValue e\<rparr>"

definition normGreaterOrEqualThan :: "(string \<Rightarrow> string) \<Rightarrow> GreaterOrEqualThan \<Rightarrow> GreaterOrEqualThan res" where
  "normGreaterOrEqualThan = normVarValue"

definition invGreaterOrEqualThan :: "GreaterOrEqualThan \<Rightarrow> LessThan" where
  "invGreaterOrEqualThan e = \<lparr>cmpVar = cmpVar e, cmpValue = cmpValue e\<rparr>"

lemma cmp_leaf_simps [simp]:
  "normLessThan = normVarValue" "normLessOrEqualThan = normVarValue"
  "normGreaterThan = normVarValue" "normGreaterOrEqualThan = normVarValue"
  "invLessThan e = e" "invLessOrEqualThan e = e" "invGreaterThan e = e" "invGreaterOrEqualThan e = e"
  by (simp_all add: normLessThan_def normLessOrEqualThan_def normGreaterThan_def normGreaterOrEqualThan_def
      invLessThan_def invLessOrEqualThan_def invGreaterThan_def invGreaterOrEqualThan_def)

definition normEquality :: "(string \<Rightarrow> string) \<Rightarrow> Equality \<Rightarrow> Equality res" where
  "normEquality uni e =
     (if addressVar (eqVar e)
      then andThen (derefString (eqValue e)) (\<lambda>s.
        Inr \<lparr>eqVar = eqVar e, eqIsNot = eqIsNot e, eqValue = \<lparr>valString = Some (toLower uni s), valNumber = None\<rparr>\<rparr>)
      else Inr e)"

definition normInclusion :: "(string \<Rightarrow> string) \<Rightarrow> Inclusion \<Rightarrow> Inclusion" where
  "normInclusion uni e =
     (if addressVar (inVar e)
      then \<lparr>inVar = inVar e, inIsNot = inIsNot e,
            inValues = \<lparr>valuesStrings = map (toLower uni) (valuesStrings (inValues e)), valuesNumbers = []\<rparr>\<rparr>
      else e)"

definition invEquality :: "Equality \<Rightarrow> Equality" where
  "invEquality e = e\<lparr>eqIsNot := \<not> eqIsNot e\<rparr>"

definition invInclusion :: "Inclusion \<Rightarrow> Inclusion" where
  "invInclusion e = e\<lparr>inIsNot := \<not> inIsNot e\<rparr>"

definition invGlob :: "GlobExpr \<Rightarrow> GlobExpr" where
  "invGlob e = e\<lparr>glIsNot := \<not> glIsNot e\<rparr>"

definition normGlob :: "GlobExpr \<Rightarrow> GlobExpr" where
  "normGlob e = e"

lemma normGlob_id [simp]: "normGlob e = e"
  by (simp add: normGlob_def)

definition invParen :: "Paren \<Rightarrow> Paren" where
  "invParen p = (case p of Paren isNot nested \<Rightarrow> Paren (\<not> isNot) nested)"

section \<open>Inversion\<close>

text \<open>A comparison is inverted to the opposite comparison; the fields are tried in the code's order.\<close>

definition invEqualExpr :: "EqualExpr \<Rightarrow> EqualExpr res" where
  "invEqualExpr e = (case e of EqualExpr paren assign incl lt le gt ge glob \<Rightarrow>
     (case paren of Some p \<Rightarrow> Inr (parenExpr (invParen p)) | None \<Rightarrow>
     (case lt of Some x \<Rightarrow> Inr (EqualExpr None None None None None None (Some (invLessThan x)) None) | None \<Rightarrow>
     (case le of Some x \<Rightarrow> Inr (EqualExpr None None None None None (Some (invLessOrEqualThan x)) None None) | None \<Rightarrow>
     (case gt of Some x \<Rightarrow> Inr (EqualExpr None None None None (Some (invGreaterThan x)) None None None) | None \<Rightarrow>
     (case ge of Some x \<Rightarrow> Inr (EqualExpr None None None (Some (invGreaterOrEqualThan x)) None None None None) | None \<Rightarrow>
     (case glob of Some x \<Rightarrow> Inr (EqualExpr None None None None None None None (Some (invGlob x))) | None \<Rightarrow>
     (case assign of Some x \<Rightarrow> Inr (EqualExpr None (Some (invEquality x)) None None None None None None) | None \<Rightarrow>
     (case incl of Some x \<Rightarrow> Inr (EqualExpr None None (Some (invInclusion x)) None None None None None) | None \<Rightarrow>
      Inl (Panic ''This should not happen!''))))))))))"

fun mapRes :: "('a \<Rightarrow> 'b res) \<Rightarrow> 'a list \<Rightarrow> 'b list res" where
  "mapRes f [] = Inr []"
| "mapRes f (x # xs) = andThen (f x) (\<lambda>y. andThen (mapRes f xs) (\<lambda>ys. Inr (y # ys)))"

definition invAndRHS :: "AndRHS \<Rightarrow> OrRHS res" where
  "invAndRHS r = (case r of AndRHS e \<Rightarrow> andThen (invEqualExpr e) (\<lambda>e'. Inr (OrRHS (AndExpression e' []))))"

definition invAndExpression :: "AndExpression \<Rightarrow> OrExpression res" where
  "invAndExpression e = (case e of AndExpression left right \<Rightarrow>
     andThen (invEqualExpr left) (\<lambda>l.
     andThen (mapRes invAndRHS right) (\<lambda>rs.
     Inr (OrExpression (AndExpression l []) rs))))"

definition invOrRHS :: "OrRHS \<Rightarrow> AndRHS res" where
  "invOrRHS r = (case r of OrRHS e \<Rightarrow>
     andThen (invAndExpression e) (\<lambda>e'. Inr (AndRHS (parenExpr (Paren False (Expression e'))))))"

definition invOrExpression :: "OrExpression \<Rightarrow> AndExpression res" where
  "invOrExpression e = (case e of OrExpression left right \<Rightarrow>
     andThen (invAndExpression left) (\<lambda>l.
     andThen (mapRes invOrRHS right) (\<lambda>rs.
     Inr (AndExpression (parenExpr (Paren False (Expression l))) rs))))"

definition invExpression :: "Expression \<Rightarrow> Expression res" where
  "invExpression e = (case e of Expression ore \<Rightarrow>
     andThen (invOrExpression ore) (\<lambda>newLeft. case newLeft of AndExpression left right \<Rightarrow>
       if right = [] then
         (case left of EqualExpr (Some (Paren _ nested)) _ _ _ _ _ _ _ \<Rightarrow> Inr nested
          | _ \<Rightarrow> Inl (Panic ''This should never happen!''))
       else Inr (Expression (OrExpression newLeft []))))"

section \<open>Normalisation\<close>

definition normEqualExpr :: "(string \<Rightarrow> string) \<Rightarrow> EqualExpr \<Rightarrow> ASTTerm res" where
  "normEqualExpr uni e = (case e of EqualExpr paren assign incl lt le gt ge glob \<Rightarrow>
     (if paren \<noteq> None then Inl (Panic ''Called EqualExpr::Normalize on a paren, this is a bug!'') else
     (case lt of Some x \<Rightarrow> andThen (normLessThan uni x) (\<lambda>x. Inr (noTerm\<lparr>tmLessThan := Some x\<rparr>)) | None \<Rightarrow>
     (case le of Some x \<Rightarrow> andThen (normLessOrEqualThan uni x) (\<lambda>x. Inr (noTerm\<lparr>tmLessOrEqualThan := Some x\<rparr>)) | None \<Rightarrow>
     (case gt of Some x \<Rightarrow> andThen (normGreaterThan uni x) (\<lambda>x. Inr (noTerm\<lparr>tmGreaterThan := Some x\<rparr>)) | None \<Rightarrow>
     (case ge of Some x \<Rightarrow> andThen (normGreaterOrEqualThan uni x) (\<lambda>x. Inr (noTerm\<lparr>tmGreaterOrEqualThan := Some x\<rparr>)) | None \<Rightarrow>
     (case glob of Some x \<Rightarrow> Inr (noTerm\<lparr>tmGlob := Some (normGlob x)\<rparr>) | None \<Rightarrow>
     (case assign of Some x \<Rightarrow> andThen (normEquality uni x) (\<lambda>x. Inr (noTerm\<lparr>tmAssign := Some x\<rparr>)) | None \<Rightarrow>
     (case incl of Some x \<Rightarrow> Inr (noTerm\<lparr>tmInclusion := Some (normInclusion uni x)\<rparr>) | None \<Rightarrow>
      Inl (Panic ''This should not happen!''))))))))))"

text \<open>The distribution of conjunction over disjunction, one conjunct after the other.\<close>

definition combineTerms :: "ASTOr list \<Rightarrow> ASTOr" where
  "combineTerms terms =
     fold (\<lambda>disjunctions ast. concat (map (\<lambda>conjunction. map (\<lambda>t. conjunction @ t) disjunctions) ast)) terms [[]]"

section \<open>Termination of normalisation\<close>

text \<open>
  Normalising a negated parenthesis first inverts its content, which wraps parts of it into new
  parentheses that are not negated. The nesting depth of parentheses does not grow by more than the
  one level just entered, and at that level the flag falls from true to false.
\<close>

lemma andThen_fcong [fundef_cong]:
  "r = r' \<Longrightarrow> (\<And>x. r' = Inr x \<Longrightarrow> f x = g x) \<Longrightarrow> andThen r f = andThen r' g"
  by (cases r') auto

lemma mapRes_fcong [fundef_cong]:
  "xs = ys \<Longrightarrow> (\<And>x. x \<in> set ys \<Longrightarrow> f x = g x) \<Longrightarrow> mapRes f xs = mapRes g ys"
proof (induction xs arbitrary: ys)
  case (Cons x xs)
  then have "mapRes f xs = mapRes g xs" "f x = g x" by auto
  then show ?case using Cons.prems(1) by auto
qed auto

lemma mapRes_Inr:
  "mapRes f xs = Inr ys \<longleftrightarrow> list_all2 (\<lambda>x y. f x = Inr y) xs ys"
  by (induction xs arbitrary: ys) (auto simp: andThen_eq_Inr list_all2_Cons1)

fun maxl :: "nat list \<Rightarrow> nat" where
  "maxl [] = 0"
| "maxl (x # xs) = max x (maxl xs)"

lemma maxl_le: "maxl xs \<le> n \<longleftrightarrow> (\<forall>x \<in> set xs. x \<le> n)"
  by (induction xs) auto

lemma maxl_ge: "x \<in> set xs \<Longrightarrow> x \<le> maxl xs"
  by (induction xs) auto

fun depExpression :: "Expression \<Rightarrow> nat"
  and depOr :: "OrExpression \<Rightarrow> nat"
  and depOrRHS :: "OrRHS \<Rightarrow> nat"
  and depAnd :: "AndExpression \<Rightarrow> nat"
  and depAndRHS :: "AndRHS \<Rightarrow> nat"
  and depEq :: "EqualExpr \<Rightarrow> nat"
  and depParen :: "Paren \<Rightarrow> nat" where
  "depExpression (Expression e) = depOr e"
| "depOr (OrExpression l rs) = max (depAnd l) (maxl (map depOrRHS rs))"
| "depOrRHS (OrRHS a) = depAnd a"
| "depAnd (AndExpression l rs) = max (depEq l) (maxl (map depAndRHS rs))"
| "depAndRHS (AndRHS e) = depEq e"
| "depEq (EqualExpr (Some p) _ _ _ _ _ _ _) = depParen p"
| "depEq (EqualExpr None _ _ _ _ _ _ _) = 0"
| "depParen (Paren n e) = Suc (depExpression e)"

fun wtParen :: "Paren \<Rightarrow> nat" where
  "wtParen (Paren n e) = 2 * Suc (depExpression e) + (if n then 1 else 0)"

fun wtEq :: "EqualExpr \<Rightarrow> nat" where
  "wtEq (EqualExpr (Some p) _ _ _ _ _ _ _) = wtParen p"
| "wtEq (EqualExpr None _ _ _ _ _ _ _) = 0"

fun wtAndRHS :: "AndRHS \<Rightarrow> nat" where
  "wtAndRHS (AndRHS e) = wtEq e"

fun wtAnd :: "AndExpression \<Rightarrow> nat" where
  "wtAnd (AndExpression l rs) = max (wtEq l) (maxl (map wtAndRHS rs))"

fun wtOrRHS :: "OrRHS \<Rightarrow> nat" where
  "wtOrRHS (OrRHS a) = wtAnd a"

fun wtOr :: "OrExpression \<Rightarrow> nat" where
  "wtOr (OrExpression l rs) = max (wtAnd l) (maxl (map wtOrRHS rs))"

fun wtExpression :: "Expression \<Rightarrow> nat" where
  "wtExpression (Expression e) = wtOr e"

lemma wtParen_le: "wtParen p \<le> 2 * depParen p + 1"
  by (cases p) auto

lemma wtEq_le: "wtEq e \<le> 2 * depEq e + 1"
  by (cases e rule: wtEq.cases) (simp_all add: wtParen_le[simplified])

lemma wtAnd_le: "wtAnd a \<le> 2 * depAnd a + 1"
proof (cases a)
  case (AndExpression l rs)
  have "wtAndRHS r \<le> 2 * maxl (map depAndRHS rs) + 1" if "r \<in> set rs" for r
  proof -
    have "wtAndRHS r \<le> 2 * depAndRHS r + 1" by (cases r) (simp add: wtEq_le[simplified])
    moreover have "depAndRHS r \<le> maxl (map depAndRHS rs)" using that by (intro maxl_ge) simp
    ultimately show ?thesis by linarith
  qed
  then have "maxl (map wtAndRHS rs) \<le> 2 * maxl (map depAndRHS rs) + 1" by (auto simp: maxl_le)
  with AndExpression wtEq_le[of l] show ?thesis by auto
qed

lemma wtOr_le: "wtOr a \<le> 2 * depOr a + 1"
proof (cases a)
  case (OrExpression l rs)
  have "wtOrRHS r \<le> 2 * maxl (map depOrRHS rs) + 1" if "r \<in> set rs" for r
  proof -
    have "wtOrRHS r \<le> 2 * depOrRHS r + 1" by (cases r) (simp add: wtAnd_le[simplified])
    moreover have "depOrRHS r \<le> maxl (map depOrRHS rs)" using that by (intro maxl_ge) simp
    ultimately show ?thesis by linarith
  qed
  then have "maxl (map wtOrRHS rs) \<le> 2 * maxl (map depOrRHS rs) + 1" by (auto simp: maxl_le)
  with OrExpression wtAnd_le[of l] show ?thesis by auto
qed

lemma wtExpression_le: "wtExpression e \<le> 2 * depExpression e + 1"
  by (cases e) (simp add: wtOr_le[simplified])

lemma depEq_inv: "invEqualExpr e = Inr e' \<Longrightarrow> depEq e' \<le> depEq e"
  by (cases e) (auto simp: invEqualExpr_def invParen_def split: option.splits Paren.splits)

lemma depAnd_inv:
  assumes "invAndExpression a = Inr e"
  shows "depOr e \<le> depAnd a"
proof (cases a)
  case (AndExpression l rs)
  with assms obtain l' rs' where l: "invEqualExpr l = Inr l'" and rs: "mapRes invAndRHS rs = Inr rs'"
    and e: "e = OrExpression (AndExpression l' []) rs'"
    by (auto simp: invAndExpression_def andThen_eq_Inr)
  have "depOrRHS r' \<le> depAndRHS r" if "invAndRHS r = Inr r'" for r r'
    using that depEq_inv by (cases r) (auto simp: invAndRHS_def andThen_eq_Inr)
  with rs have "maxl (map depOrRHS rs') \<le> maxl (map depAndRHS rs)"
    unfolding mapRes_Inr by (induction rs rs' rule: list_all2_induct) (auto intro: le_max_iff_disj[THEN iffD2])
  with depEq_inv[OF l] show ?thesis by (auto simp: e AndExpression)
qed

lemma invOrExpression_shape:
  assumes "invOrExpression x = Inr (AndExpression l rs)"
  shows "\<exists>w. l = parenExpr (Paren False w) \<and> depExpression w \<le> depOr x"
    and "r \<in> set rs \<Longrightarrow> \<exists>w. r = AndRHS (parenExpr (Paren False w)) \<and> depExpression w \<le> depOr x"
proof -
  obtain a bs where x: "x = OrExpression a bs" by (cases x)
  with assms obtain a' where l: "l = parenExpr (Paren False (Expression a'))" "invAndExpression a = Inr a'"
    and rs: "list_all2 (\<lambda>b r. invOrRHS b = Inr r) bs rs"
    by (auto simp: invOrExpression_def andThen_eq_Inr mapRes_Inr)
  show "\<exists>w. l = parenExpr (Paren False w) \<and> depExpression w \<le> depOr x"
    using l depAnd_inv[OF l(2)] by (auto simp: x)
  show "\<exists>w. r = AndRHS (parenExpr (Paren False w)) \<and> depExpression w \<le> depOr x" if r: "r \<in> set rs"
  proof -
    from rs r obtain b where b: "b \<in> set bs" "invOrRHS b = Inr r"
      by (induction bs rs rule: list_all2_induct) auto
    obtain c where c: "b = OrRHS c" by (cases b)
    with b(2) obtain c' where c': "invAndExpression c = Inr c'" "r = AndRHS (parenExpr (Paren False (Expression c')))"
      by (auto simp: invOrRHS_def andThen_eq_Inr)
    have "depOrRHS b \<le> maxl (map depOrRHS bs)" using b(1) by (intro maxl_ge) simp
    then show ?thesis using c' depAnd_inv[OF c'(1)] by (auto simp: x c)
  qed
qed

lemma wt_invExpression:
  assumes "invExpression e = Inr e'"
  shows "wtExpression e' < 2 * Suc (depExpression e) + 1"
proof -
  obtain x where e: "e = Expression x" by (cases e)
  from assms obtain y where y: "invOrExpression x = Inr y"
    by (auto simp: e invExpression_def andThen_eq_Inr)
  obtain l rs where "y = AndExpression l rs" by (cases y)
  with assms y have lr: "invOrExpression x = Inr (AndExpression l rs)"
    and e': "(if rs = [] then (case l of EqualExpr (Some (Paren _ nested)) _ _ _ _ _ _ _ \<Rightarrow> Inr nested
          | _ \<Rightarrow> Inl (Panic ''This should never happen!''))
       else Inr (Expression (OrExpression (AndExpression l rs) []))) = Inr e'"
    by (simp_all add: e invExpression_def)
  note sh = invOrExpression_shape[OF lr]
  obtain w where w: "l = parenExpr (Paren False w)" "depExpression w \<le> depOr x" using sh(1) by blast
  show ?thesis
  proof (cases "rs = []")
    case True
    then have "e' = w" using e' w by simp
    then show ?thesis using wtExpression_le[of w] w(2) by (simp add: e)
  next
    case False
    then have e': "e' = Expression (OrExpression (AndExpression l rs) [])" using e' by simp
    have "wtAndRHS r \<le> 2 * Suc (depOr x)" if r: "r \<in> set rs" for r
      using sh(2)[OF r] by auto
    then have "maxl (map wtAndRHS rs) \<le> 2 * Suc (depOr x)" by (auto simp: maxl_le)
    with w show ?thesis by (simp add: e e')
  qed
qed

section \<open>The recursion\<close>

function normExpression :: "(string \<Rightarrow> string) \<Rightarrow> Expression \<Rightarrow> ASTExpr res"
  and normOrExpression :: "(string \<Rightarrow> string) \<Rightarrow> OrExpression \<Rightarrow> ASTOr res"
  and normAndExpression :: "(string \<Rightarrow> string) \<Rightarrow> AndExpression \<Rightarrow> ASTOr res"
  and convertToTerms :: "(string \<Rightarrow> string) \<Rightarrow> EqualExpr \<Rightarrow> ASTOr res"
  and normParen :: "(string \<Rightarrow> string) \<Rightarrow> Paren \<Rightarrow> ASTExpr res" where
  "normExpression uni (Expression e) = normOrExpression uni e"
| "normOrExpression uni (OrExpression left right) =
     andThen (normAndExpression uni left) (\<lambda>terms.
     andThen (mapRes (\<lambda>rhs. case rhs of OrRHS e \<Rightarrow> normAndExpression uni e) right) (\<lambda>tss.
     Inr (terms @ concat tss)))"
| "normAndExpression uni (AndExpression left right) =
     andThen (convertToTerms uni left) (\<lambda>t.
     andThen (mapRes (\<lambda>rhs. case rhs of AndRHS e \<Rightarrow> convertToTerms uni e) right) (\<lambda>ts.
     Inr (combineTerms (t # ts))))"
| "convertToTerms uni (EqualExpr paren assign incl lt le gt ge glob) =
     (case paren of
        Some p \<Rightarrow> normParen uni p
      | None \<Rightarrow> andThen (normEqualExpr uni (EqualExpr paren assign incl lt le gt ge glob)) (\<lambda>t. Inr [[t]]))"
| "normParen uni (Paren isNot nested) =
     (if isNot then andThen (invExpression nested) (normExpression uni) else normExpression uni nested)"
  by pat_completeness auto
termination
proof (relation "inv_image (less_than <*lex*> less_than) (\<lambda>x. case x of
    Inl (Inl (_, e)) \<Rightarrow> (wtExpression e, 4)
  | Inl (Inr (_, e)) \<Rightarrow> (wtOr e, 3 :: nat)
  | Inr (Inl (_, e)) \<Rightarrow> (wtAnd e, 2)
  | Inr (Inr (Inl (_, e))) \<Rightarrow> (wtEq e, 1)
  | Inr (Inr (Inr (_, e))) \<Rightarrow> (wtParen e, 0))", goal_cases)
  case 1
  then show ?case by auto
next
  case (2 uni e)
  then show ?case by simp
next
  case (3 uni left right)
  then show ?case by auto
next
  case (4 uni left right x y z)
  then have "OrRHS z \<in> set right" by simp
  then have "wtOrRHS (OrRHS z) \<le> maxl (map wtOrRHS right)" by (intro maxl_ge) (simp only: set_map imageI)
  with 4 show ?case by auto
next
  case (5 uni left right)
  then show ?case by auto
next
  case (6 uni left right x y z)
  then have "AndRHS z \<in> set right" by simp
  then have "wtAndRHS (AndRHS z) \<le> maxl (map wtAndRHS right)" by (intro maxl_ge) (simp only: set_map imageI)
  with 6 show ?case by auto
next
  case (7 uni paren assign incl lt le gt ge glob p)
  then show ?case by simp
next
  case (8 uni isNot nested x)
  then show ?case using wt_invExpression[of nested x] by simp
next
  case (9 uni isNot nested)
  then show ?case using wtExpression_le[of nested] by simp
qed

definition normTopLevel :: "(string \<Rightarrow> string) \<Rightarrow> TopLevel \<Rightarrow> AST res" where
  "normTopLevel uni t =
     (case t of Some e \<Rightarrow> andThen (normExpression uni e) (\<lambda>x. Inr (Some x)) | None \<Rightarrow> Inr None)"

text \<open>\<open>Parse\<close> runs the generated parser, a parameter, and normalises its result.\<close>

definition Parse :: "(string \<Rightarrow> TopLevel res) \<Rightarrow> (string \<Rightarrow> string) \<Rightarrow> string \<Rightarrow> AST res" where
  "Parse ParseString uni s = andThen (ParseString s) (normTopLevel uni)"

end
