(* ===== verification/Query_Norm.thy ===== *)
theory Query_Norm
  imports Query_Lang
begin

text \<open>
  Correctness of normalisation. A parse tree is given a meaning with a polarity: a negation flips the
  polarity of everything below it, a disjunction read negatively is a conjunction, and a leaf read
  negatively is its inversion. The normal form has that meaning, no conjunction in it is empty, and
  normalisation only fails on a leaf that dereferences a nil pointer or has no field set.
\<close>

section \<open>Meaning of parse trees\<close>

text \<open>\<open>sem\<close> says whether an entity satisfies a leaf term.\<close>

definition leafHolds :: "(string \<Rightarrow> string) \<Rightarrow> (ASTTerm \<Rightarrow> bool) \<Rightarrow> EqualExpr \<Rightarrow> bool" where
  "leafHolds uni sem e = (case normEqualExpr uni e of Inr t \<Rightarrow> sem t | Inl _ \<Rightarrow> False)"

fun holdsExpression :: "(EqualExpr \<Rightarrow> bool) \<Rightarrow> bool \<Rightarrow> Expression \<Rightarrow> bool"
  and holdsOr :: "(EqualExpr \<Rightarrow> bool) \<Rightarrow> bool \<Rightarrow> OrExpression \<Rightarrow> bool"
  and holdsOrRHS :: "(EqualExpr \<Rightarrow> bool) \<Rightarrow> bool \<Rightarrow> OrRHS \<Rightarrow> bool"
  and holdsAnd :: "(EqualExpr \<Rightarrow> bool) \<Rightarrow> bool \<Rightarrow> AndExpression \<Rightarrow> bool"
  and holdsAndRHS :: "(EqualExpr \<Rightarrow> bool) \<Rightarrow> bool \<Rightarrow> AndRHS \<Rightarrow> bool"
  and holdsEq :: "(EqualExpr \<Rightarrow> bool) \<Rightarrow> bool \<Rightarrow> EqualExpr \<Rightarrow> bool"
  and holdsParen :: "(EqualExpr \<Rightarrow> bool) \<Rightarrow> bool \<Rightarrow> Paren \<Rightarrow> bool" where
  "holdsExpression leaf b (Expression e) = holdsOr leaf b e"
| "holdsOr leaf b (OrExpression l rs) =
     (if b then holdsAnd leaf True l \<or> (\<exists>r \<in> set rs. holdsOrRHS leaf True r)
      else holdsAnd leaf False l \<and> (\<forall>r \<in> set rs. holdsOrRHS leaf False r))"
| "holdsOrRHS leaf b (OrRHS a) = holdsAnd leaf b a"
| "holdsAnd leaf b (AndExpression l rs) =
     (if b then holdsEq leaf True l \<and> (\<forall>r \<in> set rs. holdsAndRHS leaf True r)
      else holdsEq leaf False l \<or> (\<exists>r \<in> set rs. holdsAndRHS leaf False r))"
| "holdsAndRHS leaf b (AndRHS e) = holdsEq leaf b e"
| "holdsEq leaf b (EqualExpr (Some p) as inc lt le gt ge gl) = holdsParen leaf b p"
| "holdsEq leaf b (EqualExpr None as inc lt le gt ge gl) =
     (if b then leaf (EqualExpr None as inc lt le gt ge gl)
      else (case invEqualExpr (EqualExpr None as inc lt le gt ge gl) of Inr e \<Rightarrow> leaf e | Inl _ \<Rightarrow> False))"
| "holdsParen leaf b (Paren isNot e) = holdsExpression leaf (b \<noteq> isNot) e"

definition satTerms :: "(ASTTerm \<Rightarrow> bool) \<Rightarrow> ASTOr \<Rightarrow> bool" where
  "satTerms sem ast \<longleftrightarrow> (\<exists>c \<in> set ast. \<forall>t \<in> set c. sem t)"

section \<open>Inversion\<close>

lemma holdsEq_inv:
  assumes "invEqualExpr e = Inr e'"
  shows "holdsEq leaf True e' = holdsEq leaf False e"
proof (cases e)
  case (EqualExpr paren as inc lt le gt ge gl)
  show ?thesis
  proof (cases paren)
    case (Some p)
    then show ?thesis using assms EqualExpr by (cases p) (auto simp: invEqualExpr_def invParen_def)
  next
    case None
    then have "\<exists>a b c d f g h. e' = EqualExpr None a b c d f g h"
      using assms EqualExpr by (auto simp: invEqualExpr_def split: option.splits)
    then show ?thesis using assms EqualExpr None by auto
  qed
qed

lemma holdsAnd_inv:
  assumes "invAndExpression a = Inr e"
  shows "holdsOr leaf True e = holdsAnd leaf False a"
proof (cases a)
  case (AndExpression l rs)
  with assms obtain l' rs' where l: "invEqualExpr l = Inr l'" and rs: "list_all2 (\<lambda>r s. invAndRHS r = Inr s) rs rs'"
    and e: "e = OrExpression (AndExpression l' []) rs'"
    by (auto simp: invAndExpression_def andThen_eq_Inr mapRes_Inr)
  have one: "holdsOrRHS leaf True s = holdsAndRHS leaf False r" if "invAndRHS r = Inr s" for r s
    using that holdsEq_inv by (cases r) (auto simp: invAndRHS_def andThen_eq_Inr)
  have "(\<exists>s \<in> set rs'. holdsOrRHS leaf True s) \<longleftrightarrow> (\<exists>r \<in> set rs. holdsAndRHS leaf False r)"
    using rs by (induction rs rs' rule: list_all2_induct) (auto simp: one)
  then show ?thesis using holdsEq_inv[OF l] by (simp add: e AndExpression)
qed

lemma holdsOr_inv:
  assumes "invOrExpression a = Inr e"
  shows "holdsAnd leaf True e = holdsOr leaf False a"
proof (cases a)
  case (OrExpression l rs)
  with assms obtain l' rs' where l: "invAndExpression l = Inr l'" and rs: "list_all2 (\<lambda>r s. invOrRHS r = Inr s) rs rs'"
    and e: "e = AndExpression (parenExpr (Paren False (Expression l'))) rs'"
    by (auto simp: invOrExpression_def andThen_eq_Inr mapRes_Inr)
  have one: "holdsAndRHS leaf True s = holdsOrRHS leaf False r" if "invOrRHS r = Inr s" for r s
    using that holdsAnd_inv by (cases r) (auto simp: invOrRHS_def andThen_eq_Inr)
  have "(\<forall>s \<in> set rs'. holdsAndRHS leaf True s) \<longleftrightarrow> (\<forall>r \<in> set rs. holdsOrRHS leaf False r)"
    using rs by (induction rs rs' rule: list_all2_induct) (auto simp: one)
  then show ?thesis using holdsAnd_inv[OF l] by (simp add: e OrExpression)
qed

text \<open>Inverting an expression reads it negatively.\<close>

lemma invExpression_Inr:
  assumes "invExpression (Expression x) = Inr e'"
  obtains l rs where "invOrExpression x = Inr (AndExpression l rs)"
    "e' = (case l of EqualExpr (Some (Paren False nested)) None None None None None None None \<Rightarrow>
       if rs = [] then nested else Expression (OrExpression (AndExpression l rs) []))"
    "\<exists>w. l = parenExpr (Paren False w)"
proof -
  from assms obtain y where y: "invOrExpression x = Inr y"
    by (auto simp: invExpression_def andThen_eq_Inr)
  obtain l rs where lr: "y = AndExpression l rs" by (cases y)
  obtain w where "l = parenExpr (Paren False w)" using invOrExpression_shape(1)[OF y[unfolded lr]] by blast
  with assms y lr show thesis by (intro that[of l rs]) (auto simp: invExpression_def split: if_splits)
qed

lemma holdsExpression_inv:
  assumes "invExpression e = Inr e'"
  shows "holdsExpression leaf True e' = holdsExpression leaf False e"
proof -
  obtain x where e: "e = Expression x" by (cases e)
  obtain l rs w where y: "invOrExpression x = Inr (AndExpression l rs)" and l: "l = parenExpr (Paren False w)"
    and e': "e' = (if rs = [] then w else Expression (OrExpression (AndExpression l rs) []))"
    by (rule invExpression_Inr[OF assms[unfolded e]]) auto
  show ?thesis using holdsOr_inv[OF y, of leaf] by (auto simp: e e' l)
qed

section \<open>The normal form\<close>

lemma satTerms_append [simp]: "satTerms sem (a @ b) \<longleftrightarrow> satTerms sem a \<or> satTerms sem b"
  by (auto simp: satTerms_def)

lemma satTerms_concat [simp]: "satTerms sem (concat xs) \<longleftrightarrow> (\<exists>x \<in> set xs. satTerms sem x)"
  by (auto simp: satTerms_def)

lemma satTerms_combine: "satTerms sem (combineTerms ds) \<longleftrightarrow> (\<forall>d \<in> set ds. satTerms sem d)"
proof -
  have "satTerms sem (fold (\<lambda>disjunctions ast. concat (map (\<lambda>c. map (\<lambda>t. c @ t) disjunctions) ast)) ds acc)
      \<longleftrightarrow> satTerms sem acc \<and> (\<forall>d \<in> set ds. satTerms sem d)" for acc
  proof (induction ds arbitrary: acc)
    case (Cons d ds)
    have "satTerms sem (concat (map (\<lambda>c. map (\<lambda>t. c @ t) d) acc)) \<longleftrightarrow> satTerms sem acc \<and> satTerms sem d"
      by (fastforce simp: satTerms_def)
    then show ?case by (simp add: Cons.IH)
  qed simp
  from this[of "[[]]"] show ?thesis by (simp add: combineTerms_def satTerms_def)
qed

lemma combineTerms_nonempty:
  assumes "\<And>d. d \<in> set (d0 # ds) \<Longrightarrow> [] \<notin> set d"
  shows "[] \<notin> set (combineTerms (d0 # ds))"
proof -
  have "[] \<notin> set (fold (\<lambda>disjunctions ast. concat (map (\<lambda>c. map (\<lambda>t. c @ t) disjunctions) ast)) ds acc)"
    if "[] \<notin> set acc" for acc
    using that
  proof (induction ds arbitrary: acc)
    case (Cons d ds)
    have "[] \<notin> set (concat (map (\<lambda>c. map (\<lambda>t. c @ t) d) acc))" using Cons.prems by auto
    from Cons.IH[OF this] show ?case by simp
  qed simp
  then show ?thesis using assms[of d0] by (simp add: combineTerms_def)
qed

lemma list_all2_bex:
  assumes "list_all2 (\<lambda>r t. f r = Inr t) rs ts" "\<And>r t. r \<in> set rs \<Longrightarrow> f r = Inr t \<Longrightarrow> P t = Q r"
  shows "(\<exists>t \<in> set ts. P t) \<longleftrightarrow> (\<exists>r \<in> set rs. Q r)"
  using assms by (induction rs ts rule: list_all2_induct) auto

lemma list_all2_ball:
  assumes "list_all2 (\<lambda>r t. f r = Inr t) rs ts" "\<And>r t. r \<in> set rs \<Longrightarrow> f r = Inr t \<Longrightarrow> P t = Q r"
  shows "(\<forall>t \<in> set ts. P t) \<longleftrightarrow> (\<forall>r \<in> set rs. Q r)"
  using assms by (induction rs ts rule: list_all2_induct) auto

lemma norm_meaning:
  shows "normExpression uni e = Inr t1 \<Longrightarrow> satTerms sem t1 = holdsExpression (leafHolds uni sem) True e"
    and "normOrExpression uni a = Inr t2 \<Longrightarrow> satTerms sem t2 = holdsOr (leafHolds uni sem) True a"
    and "normAndExpression uni b = Inr t3 \<Longrightarrow> satTerms sem t3 = holdsAnd (leafHolds uni sem) True b"
    and "convertToTerms uni c = Inr t4 \<Longrightarrow> satTerms sem t4 = holdsEq (leafHolds uni sem) True c"
    and "normParen uni d = Inr t5 \<Longrightarrow> satTerms sem t5 = holdsParen (leafHolds uni sem) True d"
proof (induction uni e and uni a and uni b and uni c and uni d arbitrary: t1 and t2 and t3 and t4 and t5
    rule: normExpression_normOrExpression_normAndExpression_convertToTerms_normParen.induct)
  case (1 uni e)
  then show ?case by simp
next
  case (2 uni left right)
  from "2.prems" obtain ts tss where ts: "normAndExpression uni left = Inr ts"
    and tss: "list_all2 (\<lambda>r t. (case r of OrRHS e \<Rightarrow> normAndExpression uni e) = Inr t) right tss"
    and t2: "t2 = ts @ concat tss"
    by (auto simp: andThen_eq_Inr mapRes_Inr)
  have one: "satTerms sem t = holdsOrRHS (leafHolds uni sem) True r"
    if "r \<in> set right" "(case r of OrRHS e \<Rightarrow> normAndExpression uni e) = Inr t" for r t
  proof -
    obtain e where r: "r = OrRHS e" by (cases r)
    show ?thesis using "2.IH"(2)[OF ts that(1) r] that(2) by (simp add: r)
  qed
  have "(\<exists>t \<in> set tss. satTerms sem t) \<longleftrightarrow> (\<exists>r \<in> set right. holdsOrRHS (leafHolds uni sem) True r)"
    using tss one by (rule list_all2_bex)
  then show ?case using "2.IH"(1)[OF ts] by (simp add: t2)
next
  case (3 uni left right)
  from "3.prems" obtain t ts where t: "convertToTerms uni left = Inr t"
    and ts: "list_all2 (\<lambda>r t. (case r of AndRHS e \<Rightarrow> convertToTerms uni e) = Inr t) right ts"
    and t3: "t3 = combineTerms (t # ts)"
    by (auto simp: andThen_eq_Inr mapRes_Inr)
  have one: "satTerms sem t = holdsAndRHS (leafHolds uni sem) True r"
    if "r \<in> set right" "(case r of AndRHS e \<Rightarrow> convertToTerms uni e) = Inr t" for r t
  proof -
    obtain e where r: "r = AndRHS e" by (cases r)
    show ?thesis using "3.IH"(2)[OF t that(1) r] that(2) by (simp add: r)
  qed
  have "(\<forall>t \<in> set ts. satTerms sem t) \<longleftrightarrow> (\<forall>r \<in> set right. holdsAndRHS (leafHolds uni sem) True r)"
    using ts one by (rule list_all2_ball)
  then show ?case using "3.IH"(1)[OF t] by (simp add: t3 satTerms_combine)
next
  case (4 uni paren assign incl lt le gt ge glob)
  show ?case
  proof (cases paren)
    case None
    with "4.prems" obtain x where x: "normEqualExpr uni (EqualExpr paren assign incl lt le gt ge glob) = Inr x"
      "t4 = [[x]]" by (auto simp: andThen_eq_Inr)
    have n: "normEqualExpr uni (EqualExpr None assign incl lt le gt ge glob) = Inr x" using x(1) None by simp
    have "holdsEq (leafHolds uni sem) True (EqualExpr paren assign incl lt le gt ge glob) = sem x"
      unfolding None holdsEq.simps leafHolds_def n by simp
    then show ?thesis by (simp add: x(2) satTerms_def)
  next
    case (Some p)
    then show ?thesis using "4.prems" "4.IH"[OF Some] by simp
  qed
next
  case (5 uni isNot nested)
  show ?case
  proof (cases isNot)
    case True
    with "5.prems" obtain e' where "invExpression nested = Inr e'" "normExpression uni e' = Inr t5"
      by (auto simp: andThen_eq_Inr)
    then show ?thesis using "5.IH"(1)[OF True, of e'] holdsExpression_inv[of nested e' "leafHolds uni sem"] True by simp
  next
    case False
    then show ?thesis using "5.prems" "5.IH"(2) by simp
  qed
qed

text \<open>No conjunction of a normal form is empty.\<close>

lemma norm_nonempty:
  shows "normExpression uni e = Inr t1 \<Longrightarrow> [] \<notin> set t1"
    and "normOrExpression uni a = Inr t2 \<Longrightarrow> [] \<notin> set t2"
    and "normAndExpression uni b = Inr t3 \<Longrightarrow> [] \<notin> set t3"
    and "convertToTerms uni c = Inr t4 \<Longrightarrow> [] \<notin> set t4"
    and "normParen uni d = Inr t5 \<Longrightarrow> [] \<notin> set t5"
proof (induction uni e and uni a and uni b and uni c and uni d arbitrary: t1 and t2 and t3 and t4 and t5
    rule: normExpression_normOrExpression_normAndExpression_convertToTerms_normParen.induct)
  case (1 uni e)
  then show ?case by simp
next
  case (2 uni left right)
  from "2.prems" obtain ts tss where ts: "normAndExpression uni left = Inr ts"
    and tss: "list_all2 (\<lambda>r t. (case r of OrRHS e \<Rightarrow> normAndExpression uni e) = Inr t) right tss"
    and t2: "t2 = ts @ concat tss"
    by (auto simp: andThen_eq_Inr mapRes_Inr)
  have one: "[] \<notin> set t \<longleftrightarrow> True"
    if "r \<in> set right" "(case r of OrRHS e \<Rightarrow> normAndExpression uni e) = Inr t" for r t
  proof -
    obtain e where r: "r = OrRHS e" by (cases r)
    show ?thesis using "2.IH"(2)[OF ts that(1) r] that(2) by (simp add: r)
  qed
  have "(\<forall>t \<in> set tss. [] \<notin> set t) \<longleftrightarrow> (\<forall>r \<in> set right. True)"
    using tss one by (rule list_all2_ball)
  then show ?case using "2.IH"(1)[OF ts] by (auto simp: t2)
next
  case (3 uni left right)
  from "3.prems" obtain t ts where t: "convertToTerms uni left = Inr t"
    and ts: "list_all2 (\<lambda>r t. (case r of AndRHS e \<Rightarrow> convertToTerms uni e) = Inr t) right ts"
    and t3: "t3 = combineTerms (t # ts)"
    by (auto simp: andThen_eq_Inr mapRes_Inr)
  have one: "[] \<notin> set t \<longleftrightarrow> True"
    if "r \<in> set right" "(case r of AndRHS e \<Rightarrow> convertToTerms uni e) = Inr t" for r t
  proof -
    obtain e where r: "r = AndRHS e" by (cases r)
    show ?thesis using "3.IH"(2)[OF t that(1) r] that(2) by (simp add: r)
  qed
  have "(\<forall>t \<in> set ts. [] \<notin> set t) \<longleftrightarrow> (\<forall>r \<in> set right. True)"
    using ts one by (rule list_all2_ball)
  then show ?case using "3.IH"(1)[OF t] unfolding t3 by (intro combineTerms_nonempty) auto
next
  case (4 uni paren assign incl lt le gt ge glob)
  show ?case
  proof (cases paren)
    case None
    then show ?thesis using "4.prems" by (auto simp: andThen_eq_Inr)
  next
    case (Some p)
    then show ?thesis using "4.prems" "4.IH"[OF Some] by simp
  qed
next
  case (5 uni isNot nested)
  then show ?case by (auto simp: andThen_eq_Inr split: if_splits)
qed

section \<open>When normalisation fails\<close>

text \<open>All leaves of a tree, whatever their polarity.\<close>

fun leavesExpression :: "Expression \<Rightarrow> EqualExpr list"
  and leavesOr :: "OrExpression \<Rightarrow> EqualExpr list"
  and leavesOrRHS :: "OrRHS \<Rightarrow> EqualExpr list"
  and leavesAnd :: "AndExpression \<Rightarrow> EqualExpr list"
  and leavesAndRHS :: "AndRHS \<Rightarrow> EqualExpr list"
  and leavesEq :: "EqualExpr \<Rightarrow> EqualExpr list"
  and leavesParen :: "Paren \<Rightarrow> EqualExpr list" where
  "leavesExpression (Expression e) = leavesOr e"
| "leavesOr (OrExpression l rs) = leavesAnd l @ concat (map leavesOrRHS rs)"
| "leavesOrRHS (OrRHS a) = leavesAnd a"
| "leavesAnd (AndExpression l rs) = leavesEq l @ concat (map leavesAndRHS rs)"
| "leavesAndRHS (AndRHS e) = leavesEq e"
| "leavesEq (EqualExpr (Some p) as inc lt le gt ge gl) = leavesParen p"
| "leavesEq (EqualExpr None as inc lt le gt ge gl) = [EqualExpr None as inc lt le gt ge gl]"
| "leavesParen (Paren isNot e) = leavesExpression e"

text \<open>A leaf that normalises, read positively; its inversion then does, too.\<close>

definition leafOk :: "(string \<Rightarrow> string) \<Rightarrow> EqualExpr \<Rightarrow> bool" where
  "leafOk uni e \<longleftrightarrow> (\<exists>t. normEqualExpr uni e = Inr t)"

definition leavesOk :: "(string \<Rightarrow> string) \<Rightarrow> EqualExpr list \<Rightarrow> bool" where
  "leavesOk uni es \<longleftrightarrow> (\<forall>e \<in> set es. leafOk uni e)"

lemma leavesOk_simps [simp]:
  "leavesOk uni []" "leavesOk uni (e # es) \<longleftrightarrow> leafOk uni e \<and> leavesOk uni es"
  "leavesOk uni (a @ b) \<longleftrightarrow> leavesOk uni a \<and> leavesOk uni b"
  "leavesOk uni (concat xs) \<longleftrightarrow> (\<forall>x \<in> set xs. leavesOk uni x)"
  by (auto simp: leavesOk_def)

lemma leafOk_inv:
  assumes "leafOk uni (EqualExpr None as inc lt le gt ge gl)"
  shows "\<exists>as' inc' lt' le' gt' ge' gl'. invEqualExpr (EqualExpr None as inc lt le gt ge gl)
    = Inr (EqualExpr None as' inc' lt' le' gt' ge' gl') \<and> leafOk uni (EqualExpr None as' inc' lt' le' gt' ge' gl')"
  using assms
  by (auto simp: leafOk_def normEqualExpr_def invEqualExpr_def andThen_eq_Inr normEquality_def invEquality_def
      split: option.splits if_splits)

text \<open>Inversion keeps the leaves in their order: each stays, below a parenthesis, or is turned over.\<close>

definition turned :: "EqualExpr \<Rightarrow> EqualExpr \<Rightarrow> bool" where
  "turned l l' \<longleftrightarrow> l' = l \<or> invEqualExpr l = Inr l'"

lemma turned_refl: "list_all2 turned ls ls"
  by (simp add: list_all2_same turned_def)

lemma turned_concat:
  "list_all2 (\<lambda>x y. list_all2 turned (f x) (g y)) xs ys \<Longrightarrow> list_all2 turned (concat (map f xs)) (concat (map g ys))"
  by (induction xs ys rule: list_all2_induct) (auto intro: list_all2_appendI)

lemma turned_Eq: "invEqualExpr e = Inr e' \<Longrightarrow> list_all2 turned (leavesEq e) (leavesEq e')"
proof (cases e)
  case (EqualExpr paren as inc lt le gt ge gl)
  assume inv: "invEqualExpr e = Inr e'"
  show ?thesis
  proof (cases paren)
    case (Some p)
    then show ?thesis using inv EqualExpr
      by (cases p) (auto simp: invEqualExpr_def invParen_def turned_refl)
  next
    case None
    then have "\<exists>a b c d f g h. e' = EqualExpr None a b c d f g h"
      using inv EqualExpr by (auto simp: invEqualExpr_def split: option.splits)
    then show ?thesis using inv EqualExpr None by (auto simp: turned_def)
  qed
qed

lemma turned_And: "invAndExpression a = Inr e \<Longrightarrow> list_all2 turned (leavesAnd a) (leavesOr e)"
proof (cases a)
  case (AndExpression l rs)
  assume "invAndExpression a = Inr e"
  then obtain l' rs' where l: "invEqualExpr l = Inr l'" and rs: "list_all2 (\<lambda>r s. invAndRHS r = Inr s) rs rs'"
    and e: "e = OrExpression (AndExpression l' []) rs'"
    using AndExpression by (auto simp: invAndExpression_def andThen_eq_Inr mapRes_Inr)
  have one: "list_all2 turned (leavesAndRHS r) (leavesOrRHS s)" if "invAndRHS r = Inr s" for r s
    using that turned_Eq by (cases r) (auto simp: invAndRHS_def andThen_eq_Inr)
  have "list_all2 (\<lambda>r s. list_all2 turned (leavesAndRHS r) (leavesOrRHS s)) rs rs'"
    using rs by (rule list_all2_mono) (rule one)
  then show ?thesis using turned_Eq[OF l] by (auto simp: e AndExpression intro!: list_all2_appendI turned_concat)
qed

lemma turned_Or: "invOrExpression a = Inr e \<Longrightarrow> list_all2 turned (leavesOr a) (leavesAnd e)"
proof (cases a)
  case (OrExpression l rs)
  assume "invOrExpression a = Inr e"
  then obtain l' rs' where l: "invAndExpression l = Inr l'" and rs: "list_all2 (\<lambda>r s. invOrRHS r = Inr s) rs rs'"
    and e: "e = AndExpression (parenExpr (Paren False (Expression l'))) rs'"
    using OrExpression by (auto simp: invOrExpression_def andThen_eq_Inr mapRes_Inr)
  have one: "list_all2 turned (leavesOrRHS r) (leavesAndRHS s)" if "invOrRHS r = Inr s" for r s
    using that turned_And by (cases r) (auto simp: invOrRHS_def andThen_eq_Inr)
  have "list_all2 (\<lambda>r s. list_all2 turned (leavesOrRHS r) (leavesAndRHS s)) rs rs'"
    using rs by (rule list_all2_mono) (rule one)
  then show ?thesis using turned_And[OF l] by (auto simp: e OrExpression intro!: list_all2_appendI turned_concat)
qed

lemma turned_Expression:
  assumes "invExpression e = Inr e'"
  shows "list_all2 turned (leavesExpression e) (leavesExpression e')"
proof -
  obtain x where e: "e = Expression x" by (cases e)
  obtain l rs w where y: "invOrExpression x = Inr (AndExpression l rs)" and l: "l = parenExpr (Paren False w)"
    and e': "e' = (if rs = [] then w else Expression (OrExpression (AndExpression l rs) []))"
    by (rule invExpression_Inr[OF assms[unfolded e]]) auto
  show ?thesis using turned_Or[OF y] by (auto simp: e e' l)
qed

text \<open>A property of leaves that inversion keeps, and on which inversion does not fail.\<close>

definition leafClosed :: "(EqualExpr \<Rightarrow> bool) \<Rightarrow> bool" where
  "leafClosed Q \<longleftrightarrow> (\<forall>l. Q l \<longrightarrow> (\<exists>l'. invEqualExpr l = Inr l' \<and> Q l'))"

lemma turned_all:
  assumes "leafClosed Q" "list_all2 turned ls ls'" "list_all Q ls"
  shows "list_all Q ls'"
proof -
  have one: "Q l'" if "turned l l'" "Q l" for l l'
    using that assms(1) by (fastforce simp: turned_def leafClosed_def)
  show ?thesis using assms(2,3) by (induction ls ls' rule: list_all2_induct) (auto intro: one)
qed

lemma mapRes_ok:
  assumes "\<And>x. x \<in> set xs \<Longrightarrow> \<exists>y. f x = Inr y \<and> P y"
  shows "\<exists>ys. mapRes f xs = Inr ys \<and> (\<forall>y \<in> set ys. P y)"
  using assms by (induction xs) (auto, fastforce)

lemma invEq_total:
  assumes Q: "leafClosed Q" and "list_all Q (leavesEq e)"
  shows "\<exists>e'. invEqualExpr e = Inr e'"
proof (cases e)
  case (EqualExpr paren as inc lt le gt ge gl)
  then show ?thesis using assms by (cases paren) (auto simp: leafClosed_def invEqualExpr_def)
qed

lemma invAnd_total:
  assumes Q: "leafClosed Q" and l: "list_all Q (leavesAnd a)"
  shows "\<exists>e. invAndExpression a = Inr e"
proof (cases a)
  case (AndExpression e rs)
  have "\<exists>s. invAndRHS r = Inr s \<and> True" if r: "r \<in> set rs" for r
  proof -
    obtain x where x: "r = AndRHS x" by (cases r)
    have "list_all Q (leavesEq x)" using l AndExpression r x by (fastforce simp: list_all_iff)
    from invEq_total[OF Q this] show ?thesis by (auto simp: x invAndRHS_def)
  qed
  from mapRes_ok[of rs invAndRHS, OF this] invEq_total[OF Q, of e] l show ?thesis
    by (auto simp: AndExpression invAndExpression_def)
qed

lemma invExpression_total:
  assumes Q: "leafClosed Q" and l: "list_all Q (leavesExpression e)"
  shows "\<exists>e'. invExpression e = Inr e'"
proof -
  obtain a rs where e: "e = Expression (OrExpression a rs)" by (metis Expression.exhaust OrExpression.exhaust)
  have "\<exists>s. invOrRHS r = Inr s \<and> True" if r: "r \<in> set rs" for r
  proof -
    obtain x where x: "r = OrRHS x" by (cases r)
    have "list_all Q (leavesAnd x)" using l e r x by (fastforce simp: list_all_iff)
    from invAnd_total[OF Q this] show ?thesis by (auto simp: x invOrRHS_def)
  qed
  from mapRes_ok[of rs invOrRHS, OF this] invAnd_total[OF Q, of a] l show ?thesis
    by (auto simp: e invExpression_def invOrExpression_def)
qed

lemma leafClosed_leafOk: "leafClosed (leafOk uni)"
  unfolding leafClosed_def
proof (intro allI impI)
  fix l
  assume ok: "leafOk uni l"
  obtain paren as inc lt le gt ge gl where l: "l = EqualExpr paren as inc lt le gt ge gl" by (cases l)
  have "paren = None" using ok by (simp add: l leafOk_def normEqualExpr_def split: if_splits)
  then show "\<exists>l'. invEqualExpr l = Inr l' \<and> leafOk uni l'"
    using leafOk_inv ok unfolding l by blast
qed

lemma invExpression_ok:
  assumes "leavesOk uni (leavesExpression e)"
  shows "\<exists>e'. invExpression e = Inr e' \<and> leavesOk uni (leavesExpression e')"
proof -
  have l: "list_all (leafOk uni) (leavesExpression e)" using assms by (simp add: leavesOk_def list_all_iff)
  obtain e' where e': "invExpression e = Inr e'" using invExpression_total[OF leafClosed_leafOk l] by blast
  with turned_all[OF leafClosed_leafOk turned_Expression[OF e'] l] show ?thesis
    by (auto simp: leavesOk_def list_all_iff)
qed

text \<open>Normalisation succeeds on every tree whose leaves do.\<close>

lemma norm_total:
  shows "leavesOk uni (leavesExpression e) \<Longrightarrow> \<exists>t. normExpression uni e = Inr t"
    and "leavesOk uni (leavesOr a) \<Longrightarrow> \<exists>t. normOrExpression uni a = Inr t"
    and "leavesOk uni (leavesAnd b) \<Longrightarrow> \<exists>t. normAndExpression uni b = Inr t"
    and "leavesOk uni (leavesEq c) \<Longrightarrow> \<exists>t. convertToTerms uni c = Inr t"
    and "leavesOk uni (leavesParen d) \<Longrightarrow> \<exists>t. normParen uni d = Inr t"
proof (induction uni e and uni a and uni b and uni c and uni d
    rule: normExpression_normOrExpression_normAndExpression_convertToTerms_normParen.induct)
  case (1 uni e)
  then show ?case by simp
next
  case (2 uni left right)
  obtain ts where ts: "normAndExpression uni left = Inr ts" using "2.IH"(1) "2.prems" by auto
  have "\<exists>t. (case r of OrRHS e \<Rightarrow> normAndExpression uni e) = Inr t \<and> True" if r: "r \<in> set right" for r
  proof -
    obtain e where e: "r = OrRHS e" by (cases r)
    have "leavesOk uni (leavesAnd e)" using "2.prems" r e by auto
    from "2.IH"(2)[OF ts r e this] show ?thesis by (simp add: e)
  qed
  from mapRes_ok[of right "\<lambda>r. case r of OrRHS e \<Rightarrow> normAndExpression uni e" "\<lambda>_. True", OF this]
  show ?case by (auto simp: ts)
next
  case (3 uni left right)
  obtain ts where ts: "convertToTerms uni left = Inr ts" using "3.IH"(1) "3.prems" by auto
  have "\<exists>t. (case r of AndRHS e \<Rightarrow> convertToTerms uni e) = Inr t \<and> True" if r: "r \<in> set right" for r
  proof -
    obtain e where e: "r = AndRHS e" by (cases r)
    have "leavesOk uni (leavesEq e)" using "3.prems" r e by auto
    from "3.IH"(2)[OF ts r e this] show ?thesis by (simp add: e)
  qed
  from mapRes_ok[of right "\<lambda>r. case r of AndRHS e \<Rightarrow> convertToTerms uni e" "\<lambda>_. True", OF this]
  show ?case by (auto simp: ts)
next
  case (4 uni paren assign incl lt le gt ge glob)
  show ?case
  proof (cases paren)
    case None
    then show ?thesis using "4.prems" by (auto simp: leafOk_def)
  next
    case (Some p)
    then show ?thesis using "4.prems" "4.IH"[OF Some] by simp
  qed
next
  case (5 uni isNot nested)
  show ?case
  proof (cases isNot)
    case True
    obtain e' where e': "invExpression nested = Inr e'" "leavesOk uni (leavesExpression e')"
      using invExpression_ok[of uni nested] "5.prems" by auto
    then show ?thesis using "5.IH"(1)[OF True e'(1) e'(2)] True by simp
  next
    case False
    then show ?thesis using "5.prems" "5.IH"(2) by simp
  qed
qed

section \<open>Negation as complement\<close>

text \<open>Where every leaf's inversion is its complement, so is the negative reading of a tree.\<close>

lemma holds_complement:
  shows "(\<And>x. x \<in> set (leavesExpression e) \<Longrightarrow> holdsEq leaf False x = (\<not> holdsEq leaf True x)) \<Longrightarrow>
      holdsExpression leaf False e = (\<not> holdsExpression leaf True e)"
    and "(\<And>x. x \<in> set (leavesOr a) \<Longrightarrow> holdsEq leaf False x = (\<not> holdsEq leaf True x)) \<Longrightarrow>
      holdsOr leaf False a = (\<not> holdsOr leaf True a)"
    and "(\<And>x. x \<in> set (leavesOrRHS a') \<Longrightarrow> holdsEq leaf False x = (\<not> holdsEq leaf True x)) \<Longrightarrow>
      holdsOrRHS leaf False a' = (\<not> holdsOrRHS leaf True a')"
    and "(\<And>x. x \<in> set (leavesAnd b) \<Longrightarrow> holdsEq leaf False x = (\<not> holdsEq leaf True x)) \<Longrightarrow>
      holdsAnd leaf False b = (\<not> holdsAnd leaf True b)"
    and "(\<And>x. x \<in> set (leavesAndRHS b') \<Longrightarrow> holdsEq leaf False x = (\<not> holdsEq leaf True x)) \<Longrightarrow>
      holdsAndRHS leaf False b' = (\<not> holdsAndRHS leaf True b')"
    and "(\<And>x. x \<in> set (leavesEq c) \<Longrightarrow> holdsEq leaf False x = (\<not> holdsEq leaf True x)) \<Longrightarrow>
      holdsEq leaf False c = (\<not> holdsEq leaf True c)"
    and "(\<And>x. x \<in> set (leavesParen d) \<Longrightarrow> holdsEq leaf False x = (\<not> holdsEq leaf True x)) \<Longrightarrow>
      holdsParen leaf False d = (\<not> holdsParen leaf True d)"
proof (induction e and a and a' and b and b' and c and d
    rule: leavesExpression_leavesOr_leavesOrRHS_leavesAnd_leavesAndRHS_leavesEq_leavesParen.induct)
  case (2 l rs)
  have "holdsOrRHS leaf False r = (\<not> holdsOrRHS leaf True r)" if "r \<in> set rs" for r
    using "2.IH"(2)[OF that] "2.prems" that by auto
  then show ?case using "2.IH"(1) "2.prems" by auto
next
  case (4 l rs)
  have "holdsAndRHS leaf False r = (\<not> holdsAndRHS leaf True r)" if "r \<in> set rs" for r
    using "4.IH"(2)[OF that] "4.prems" that by auto
  then show ?case using "4.IH"(1) "4.prems" by auto
next
  case (8 isNot e)
  then show ?case by (cases isNot) auto
qed simp_all

end
