(* ===== verification/Query_Eval.thy ===== *)
theory Query_Eval
  imports Query_Norm
begin

text \<open>
  Evaluation of a normal form (\<open>query/evaluate.go\<close>) through the interface \<open>StoreQuerier\<close>, a record of
  the six methods. The interface's contract is a locale: under a representation predicate of the
  provider, each method returns the numbers of the entities it names. Inside it evaluation is proved
  to return exactly the numbers of the entities that satisfy the query.
\<close>

section \<open>The interface\<close>

record 'bm StoreQuerier =
  sqReadAnnotBitmap :: "uint64 \<Rightarrow> string \<Rightarrow> string \<Rightarrow> 'bm res"
  sqAllEntities :: "uint64 \<Rightarrow> 'bm res"
  sqIterateNumericAnnotBitmaps :: "string \<Rightarrow> uint64 \<Rightarrow> uint64 \<Rightarrow> 'bm"
  sqIterateStringAnnotBitmaps :: "string \<Rightarrow> string option \<Rightarrow> bool \<Rightarrow> string option \<Rightarrow> bool \<Rightarrow> 'bm"
  sqIteratePrefixAnnotBitmaps :: "string \<Rightarrow> string \<Rightarrow> 'bm"
  sqIterateGlobAnnotBitmaps :: "string \<Rightarrow> string \<Rightarrow> 'bm"

text \<open>\<open>*store.Store\<close> implements it.\<close>

definition storeQuerier :: "('db, 'bm, 'sdb) lib \<Rightarrow> 'db Store \<Rightarrow> 'bm StoreQuerier" where
  "storeQuerier L s =
     \<lparr>sqReadAnnotBitmap = ReadAnnotBitmap L s, sqAllEntities = AllEntities L s,
      sqIterateNumericAnnotBitmaps = IterateNumericAnnotBitmaps L s,
      sqIterateStringAnnotBitmaps = IterateStringAnnotBitmaps L s,
      sqIteratePrefixAnnotBitmaps = IteratePrefixAnnotBitmaps L s,
      sqIterateGlobAnnotBitmaps = IterateGlobAnnotBitmaps L s\<rparr>"

section \<open>Evaluation\<close>

definition numericAnnotVal :: "uint64 \<Rightarrow> string" where
  "numericAnnotVal v = uint64Bytes v"

definition derefNumber :: "Value \<Rightarrow> uint64 res" where
  "derefNumber v = (case valNumber v of Some n \<Rightarrow> Inr n | None \<Rightarrow> Inl (Panic ''nil pointer dereference''))"

definition annotVal :: "Value \<Rightarrow> string res" where
  "annotVal v = (case valString v of Some s \<Rightarrow> Inr s
     | None \<Rightarrow> andThen (derefNumber v) (\<lambda>n. Inr (numericAnnotVal n)))"

definition isPrefixGlob :: "string \<Rightarrow> string option" where
  "isPrefixGlob pattern =
     (if pattern = [] \<or> last pattern \<noteq> CHR ''*'' then None
      else let p = butlast pattern in
        if CHR ''*'' \<in> set p \<or> CHR ''?'' \<in> set p then None else Some p)"

definition maxUint64 :: uint64 where
  "maxUint64 = - 1"

definition evalLessThan :: "('db, 'bm, 'sdb) lib \<Rightarrow> 'bm StoreQuerier \<Rightarrow> LessThan \<Rightarrow> 'bm res" where
  "evalLessThan L q e =
     (case valString (cmpValue e) of
        Some s \<Rightarrow> Inr (sqIterateStringAnnotBitmaps q (cmpVar e) None False (Some s) False)
      | None \<Rightarrow> andThen (derefNumber (cmpValue e)) (\<lambda>n.
          if n = 0 then Inr (bmNew L) else Inr (sqIterateNumericAnnotBitmaps q (cmpVar e) 0 (n - 1))))"

definition evalLessOrEqualThan :: "'bm StoreQuerier \<Rightarrow> LessOrEqualThan \<Rightarrow> 'bm res" where
  "evalLessOrEqualThan q e =
     (case valString (cmpValue e) of
        Some s \<Rightarrow> Inr (sqIterateStringAnnotBitmaps q (cmpVar e) None False (Some s) True)
      | None \<Rightarrow> andThen (derefNumber (cmpValue e)) (\<lambda>n.
          Inr (sqIterateNumericAnnotBitmaps q (cmpVar e) 0 n)))"

definition evalGreaterThan :: "('db, 'bm, 'sdb) lib \<Rightarrow> 'bm StoreQuerier \<Rightarrow> GreaterThan \<Rightarrow> 'bm res" where
  "evalGreaterThan L q e =
     (case valString (cmpValue e) of
        Some s \<Rightarrow> Inr (sqIterateStringAnnotBitmaps q (cmpVar e) (Some s) False None False)
      | None \<Rightarrow> andThen (derefNumber (cmpValue e)) (\<lambda>n.
          if n = maxUint64 then Inr (bmNew L)
          else Inr (sqIterateNumericAnnotBitmaps q (cmpVar e) (n + 1) maxUint64)))"

definition evalGreaterOrEqualThan :: "'bm StoreQuerier \<Rightarrow> GreaterOrEqualThan \<Rightarrow> 'bm res" where
  "evalGreaterOrEqualThan q e =
     (case valString (cmpValue e) of
        Some s \<Rightarrow> Inr (sqIterateStringAnnotBitmaps q (cmpVar e) (Some s) True None False)
      | None \<Rightarrow> andThen (derefNumber (cmpValue e)) (\<lambda>n.
          Inr (sqIterateNumericAnnotBitmaps q (cmpVar e) n maxUint64)))"

text \<open>The tail three evaluators share: subtract from all live entities when negated.\<close>

definition negateIf ::
    "('db, 'bm, 'sdb) lib \<Rightarrow> 'bm StoreQuerier \<Rightarrow> uint64 \<Rightarrow> bool \<Rightarrow> 'bm \<Rightarrow> 'bm res" where
  "negateIf L q atBlockNumber isNot bm =
     (if isNot then andThen (sqAllEntities q atBlockNumber) (\<lambda>all. Inr (bmAndNot L all bm)) else Inr bm)"

definition evalEquality ::
    "('db, 'bm, 'sdb) lib \<Rightarrow> 'bm StoreQuerier \<Rightarrow> uint64 \<Rightarrow> Equality \<Rightarrow> 'bm res" where
  "evalEquality L q atBlockNumber e =
     andThen (annotVal (eqValue e)) (\<lambda>v.
     andThen (sqReadAnnotBitmap q atBlockNumber (eqVar e) v) (\<lambda>bm.
     negateIf L q atBlockNumber (eqIsNot e) bm))"

definition evalGlob ::
    "('db, 'bm, 'sdb) lib \<Rightarrow> 'bm StoreQuerier \<Rightarrow> uint64 \<Rightarrow> GlobExpr \<Rightarrow> 'bm res" where
  "evalGlob L q atBlockNumber e =
     negateIf L q atBlockNumber (glIsNot e)
       (case isPrefixGlob (glValue e) of
          Some p \<Rightarrow> sqIteratePrefixAnnotBitmaps q (glVar e) p
        | None \<Rightarrow> sqIterateGlobAnnotBitmaps q (glVar e) (glValue e))"

definition inclusionValues :: "Values \<Rightarrow> string list" where
  "inclusionValues vs =
     (if valuesStrings vs \<noteq> [] then valuesStrings vs else map numericAnnotVal (valuesNumbers vs))"

definition evalInclusion ::
    "('db, 'bm, 'sdb) lib \<Rightarrow> 'bm StoreQuerier \<Rightarrow> uint64 \<Rightarrow> Inclusion \<Rightarrow> 'bm res" where
  "evalInclusion L q atBlockNumber e =
     andThen (foldRes (\<lambda>v union. andThen (sqReadAnnotBitmap q atBlockNumber (inVar e) v) (\<lambda>bm.
          Inr (bmOr L union bm))) (inclusionValues (inValues e)) (bmNew L))
       (negateIf L q atBlockNumber (inIsNot e))"

definition evalTerm ::
    "('db, 'bm, 'sdb) lib \<Rightarrow> 'bm StoreQuerier \<Rightarrow> uint64 \<Rightarrow> ASTTerm \<Rightarrow> 'bm res" where
  "evalTerm L q atBlockNumber t =
     (case tmAssign t of Some e \<Rightarrow> evalEquality L q atBlockNumber e | None \<Rightarrow>
     (case tmInclusion t of Some e \<Rightarrow> evalInclusion L q atBlockNumber e | None \<Rightarrow>
     (case tmLessThan t of Some e \<Rightarrow> evalLessThan L q e | None \<Rightarrow>
     (case tmLessOrEqualThan t of Some e \<Rightarrow> evalLessOrEqualThan q e | None \<Rightarrow>
     (case tmGreaterThan t of Some e \<Rightarrow> evalGreaterThan L q e | None \<Rightarrow>
     (case tmGreaterOrEqualThan t of Some e \<Rightarrow> evalGreaterOrEqualThan q e | None \<Rightarrow>
     (case tmGlob t of Some e \<Rightarrow> evalGlob L q atBlockNumber e | None \<Rightarrow>
       Inl (Errorf ''unknown AST term: %v''))))))))"

definition evalAnd ::
    "('db, 'bm, 'sdb) lib \<Rightarrow> 'bm StoreQuerier \<Rightarrow> uint64 \<Rightarrow> ASTAnd \<Rightarrow> 'bm res" where
  "evalAnd L q atBlockNumber terms =
     andThen (foldRes (\<lambda>t result. andThen (evalTerm L q atBlockNumber t) (\<lambda>bm.
          Inr (case result of None \<Rightarrow> Some bm | Some r \<Rightarrow> Some (bmAnd L r bm)))) terms None)
       (\<lambda>result. Inr (case result of None \<Rightarrow> bmNew L | Some r \<Rightarrow> r))"

definition evalOr ::
    "('db, 'bm, 'sdb) lib \<Rightarrow> 'bm StoreQuerier \<Rightarrow> uint64 \<Rightarrow> ASTOr \<Rightarrow> 'bm res" where
  "evalOr L q atBlockNumber terms =
     foldRes (\<lambda>c result. andThen (evalAnd L q atBlockNumber c) (\<lambda>bm. Inr (bmOr L result bm)))
       terms (bmNew L)"

definition Evaluate ::
    "('db, 'bm, 'sdb) lib \<Rightarrow> 'bm StoreQuerier \<Rightarrow> uint64 \<Rightarrow> AST \<Rightarrow> 'bm res" where
  "Evaluate L q atBlockNumber ast =
     (case ast of None \<Rightarrow> sqAllEntities q atBlockNumber | Some e \<Rightarrow> evalOr L q atBlockNumber e)"

section \<open>Satisfaction\<close>

text \<open>Whether an entity with the annotation pairs \<open>ps\<close> satisfies a term. Empty values are invisible
  to the scans, and a numeric comparison sees every value of eight bytes.\<close>

definition hasValue :: "annotPair list \<Rightarrow> string \<Rightarrow> (string \<Rightarrow> bool) \<Rightarrow> bool" where
  "hasValue ps k P \<longleftrightarrow> list_ex (\<lambda>p. apKey p = k \<and> P (apVal p)) ps"

definition satCmp ::
    "(string \<Rightarrow> string \<Rightarrow> bool) \<Rightarrow> (uint64 \<Rightarrow> uint64 \<Rightarrow> bool) \<Rightarrow> annotPair list \<Rightarrow> VarValue \<Rightarrow> bool" where
  "satCmp strCmp numCmp ps e =
     (case valString (cmpValue e) of
        Some s \<Rightarrow> hasValue ps (cmpVar e) (\<lambda>x. x \<noteq> [] \<and> strCmp x s)
      | None \<Rightarrow> (case valNumber (cmpValue e) of
          Some n \<Rightarrow> hasValue ps (cmpVar e) (\<lambda>x. length x = 8 \<and> numCmp (bytesUint64 x) n)
        | None \<Rightarrow> False))"

definition satTerm :: "annotPair list \<Rightarrow> ASTTerm \<Rightarrow> bool" where
  "satTerm ps t =
     (case tmAssign t of
        Some e \<Rightarrow> (case annotVal (eqValue e) of Inr v \<Rightarrow> hasValue ps (eqVar e) (\<lambda>x. x = v) \<noteq> eqIsNot e | Inl _ \<Rightarrow> False)
      | None \<Rightarrow>
     (case tmInclusion t of
        Some e \<Rightarrow> hasValue ps (inVar e) (\<lambda>x. x \<in> set (inclusionValues (inValues e))) \<noteq> inIsNot e
      | None \<Rightarrow>
     (case tmLessThan t of Some e \<Rightarrow> satCmp (<) (<) ps e | None \<Rightarrow>
     (case tmLessOrEqualThan t of Some e \<Rightarrow> satCmp (\<le>) (\<le>) ps e | None \<Rightarrow>
     (case tmGreaterThan t of Some e \<Rightarrow> satCmp (\<lambda>x s. s < x) (\<lambda>x n. n < x) ps e | None \<Rightarrow>
     (case tmGreaterOrEqualThan t of Some e \<Rightarrow> satCmp (\<lambda>x s. s \<le> x) (\<lambda>x n. n \<le> x) ps e | None \<Rightarrow>
     (case tmGlob t of
        Some e \<Rightarrow> hasValue ps (glVar e) (\<lambda>x. x \<noteq> [] \<and> globMatch (glValue e) x) \<noteq> glIsNot e
      | None \<Rightarrow> False)))))))"

definition satAST :: "annotPair list \<Rightarrow> AST \<Rightarrow> bool" where
  "satAST ps ast = (case ast of None \<Rightarrow> True | Some e \<Rightarrow> satTerms (satTerm ps) e)"

text \<open>
  The queries covered: a term has a field and a value, the pairs it looks up lie in the universe \<open>U\<close>
  on which slot hashes do not collide, and the key of a scan contains no NUL. A point term does not
  scan the pointer index.
\<close>

definition cmpOk :: "VarValue \<Rightarrow> bool" where
  "cmpOk e \<longleftrightarrow> CHR 0x00 \<notin> set (cmpVar e) \<and> (valString (cmpValue e) \<noteq> None \<or> valNumber (cmpValue e) \<noteq> None)"

definition pointTerm :: "annotPair set \<Rightarrow> ASTTerm \<Rightarrow> bool" where
  "pointTerm U t \<longleftrightarrow>
     (case tmAssign t of
        Some e \<Rightarrow> (case annotVal (eqValue e) of Inr v \<Rightarrow> pair (eqVar e) v \<in> U | Inl _ \<Rightarrow> False)
      | None \<Rightarrow> (case tmInclusion t of
          Some e \<Rightarrow> (\<forall>v \<in> set (inclusionValues (inValues e)). pair (inVar e) v \<in> U)
        | None \<Rightarrow> False))"

definition scanTerm :: "ASTTerm \<Rightarrow> bool" where
  "scanTerm t \<longleftrightarrow> tmAssign t = None \<and> tmInclusion t = None \<and>
     (case tmLessThan t of Some e \<Rightarrow> cmpOk e | None \<Rightarrow>
     (case tmLessOrEqualThan t of Some e \<Rightarrow> cmpOk e | None \<Rightarrow>
     (case tmGreaterThan t of Some e \<Rightarrow> cmpOk e | None \<Rightarrow>
     (case tmGreaterOrEqualThan t of Some e \<Rightarrow> cmpOk e | None \<Rightarrow>
     (case tmGlob t of Some e \<Rightarrow> CHR 0x00 \<notin> set (glVar e) | None \<Rightarrow> False)))))"

definition astOk :: "(ASTTerm \<Rightarrow> bool) \<Rightarrow> AST \<Rightarrow> bool" where
  "astOk ok ast \<longleftrightarrow> (case ast of None \<Rightarrow> True
     | Some e \<Rightarrow> (\<forall>c \<in> set e. c \<noteq> [] \<and> (\<forall>t \<in> set c. ok t)))"

section \<open>The contract of a querier\<close>

text \<open>
  The numbers whose annotation pairs satisfy a predicate, in a relation from numbers to pair lists that
  is a partial function.
\<close>

definition collect :: "(uint64 \<times> annotPair list) set \<Rightarrow> (annotPair list \<Rightarrow> bool) \<Rightarrow> uint64 set" where
  "collect A P = {i. \<exists>ps. (i, ps) \<in> A \<and> P ps}"

lemma collect_ops:
  "collect A P \<union> collect A Q = collect A (\<lambda>ps. P ps \<or> Q ps)"
  "single_valued A \<Longrightarrow> collect A P \<inter> collect A Q = collect A (\<lambda>ps. P ps \<and> Q ps)"
  "single_valued A \<Longrightarrow> Domain A - collect A P = collect A (\<lambda>ps. \<not> P ps)"
  "collect A (\<lambda>_. False) = {}" "collect A (\<lambda>_. True) = Domain A"
  by (auto simp: collect_def single_valued_def Domain_iff)

lemma collect_cong: "(\<And>ps. P ps = Q ps) \<Longrightarrow> collect A P = collect A Q"
  by (simp add: collect_def)

lemma hasValue_False [simp]: "hasValue ps k (\<lambda>x. False) = False"
  by (simp add: hasValue_def list_ex_iff)

lemma hasValue_disj: "hasValue ps k (\<lambda>x. P x \<or> Q x) \<longleftrightarrow> hasValue ps k P \<or> hasValue ps k Q"
  by (auto simp: hasValue_def list_ex_iff)

lemma hasValue_cong: "(\<And>x. P x = Q x) \<Longrightarrow> hasValue ps k P = hasValue ps k Q"
  by (simp add: hasValue_def)

locale store_querier =
  fixes querier :: "('db, 'bm, 'sdb) lib \<Rightarrow> 's \<Rightarrow> 'bm StoreQuerier"
    and pointRep :: "('db, 'bm, 'sdb) lib \<Rightarrow> annotPair set \<Rightarrow> 's \<Rightarrow> uint64 \<Rightarrow> (uint64 \<times> annotPair list) set \<Rightarrow> bool"
    and scanRep :: "('db, 'bm, 'sdb) lib \<Rightarrow> 's \<Rightarrow> (uint64 \<times> annotPair list) set \<Rightarrow> bool"
  assumes roaring: "pointRep L U s n A \<Longrightarrow> roaring_ok L"
    and functional: "pointRep L U s n A \<Longrightarrow> single_valued A"
    and read_bitmap: "\<lbrakk>pointRep L U s n A; pair k v \<in> U\<rbrakk> \<Longrightarrow>
      \<exists>b. sqReadAnnotBitmap (querier L s) n k v = Inr b \<and> bmSet L b = collect A (\<lambda>ps. hasValue ps k (\<lambda>x. x = v))"
    and all_entities: "pointRep L U s n A \<Longrightarrow> \<exists>b. sqAllEntities (querier L s) n = Inr b \<and> bmSet L b = Domain A"
    and numeric_scan: "\<lbrakk>scanRep L s A; CHR 0x00 \<notin> set k\<rbrakk> \<Longrightarrow>
      bmSet L (sqIterateNumericAnnotBitmaps (querier L s) k lo hi) =
      collect A (\<lambda>ps. hasValue ps k (\<lambda>x. length x = 8 \<and> lo \<le> bytesUint64 x \<and> bytesUint64 x \<le> hi))"
    and string_scan: "\<lbrakk>scanRep L s A; CHR 0x00 \<notin> set k\<rbrakk> \<Longrightarrow>
      bmSet L (sqIterateStringAnnotBitmaps (querier L s) k slo loIncl shi hiIncl) =
      collect A (\<lambda>ps. hasValue ps k (\<lambda>x. x \<noteq> [] \<and> aboveLo slo loIncl x \<and> belowHi shi hiIncl x))"
    and prefix_scan: "\<lbrakk>scanRep L s A; CHR 0x00 \<notin> set k\<rbrakk> \<Longrightarrow>
      bmSet L (sqIteratePrefixAnnotBitmaps (querier L s) k p) =
      collect A (\<lambda>ps. hasValue ps k (\<lambda>x. x \<noteq> [] \<and> prefix p x))"
    and glob_scan: "\<lbrakk>scanRep L s A; CHR 0x00 \<notin> set k\<rbrakk> \<Longrightarrow>
      bmSet L (sqIterateGlobAnnotBitmaps (querier L s) k pat) =
      collect A (\<lambda>ps. hasValue ps k (\<lambda>x. x \<noteq> [] \<and> globMatch pat x))"
begin

lemma negateIf_set:
  assumes r: "pointRep L U s n A" and b: "bmSet L b = collect A P"
  shows "\<exists>b'. negateIf L (querier L s) n isNot b = Inr b' \<and> bmSet L b' = collect A (\<lambda>ps. P ps \<noteq> isNot)"
proof (cases isNot)
  case True
  obtain all where "sqAllEntities (querier L s) n = Inr all" "bmSet L all = Domain A"
    using all_entities[OF r] by blast
  then show ?thesis using True b
    by (simp add: negateIf_def bmSet_simps[OF roaring[OF r]] collect_ops(3)[OF functional[OF r]])
qed (simp add: negateIf_def b)

lemma evalInclusion_loop:
  assumes r: "pointRep L U s n A" and "\<forall>v \<in> set vs. pair k v \<in> U" and "bmSet L u = collect A P"
  shows "\<exists>b. foldRes (\<lambda>v union. andThen (sqReadAnnotBitmap (querier L s) n k v) (\<lambda>bm. Inr (bmOr L union bm))) vs u = Inr b
    \<and> bmSet L b = collect A (\<lambda>ps. P ps \<or> hasValue ps k (\<lambda>x. x \<in> set vs))"
  using assms(2,3)
proof (induction vs arbitrary: u P)
  case (Cons v vs)
  obtain b where b: "sqReadAnnotBitmap (querier L s) n k v = Inr b"
    "bmSet L b = collect A (\<lambda>ps. hasValue ps k (\<lambda>x. x = v))"
    using read_bitmap[OF r] Cons.prems(1) by force
  have "bmSet L (bmOr L u b) = collect A (\<lambda>ps. P ps \<or> hasValue ps k (\<lambda>x. x = v))"
    by (simp add: bmSet_simps[OF roaring[OF r]] Cons.prems(2) b(2) collect_ops(1))
  from Cons.IH[OF _ this] Cons.prems(1) b(1) show ?case
    by (simp add: hasValue_disj disj_assoc)
qed simp

lemma evalPoint_set:
  assumes r: "pointRep L U s n A" and t: "pointTerm U t"
  shows "\<exists>b. evalTerm L (querier L s) n t = Inr b \<and> bmSet L b = collect A (\<lambda>ps. satTerm ps t)"
proof (cases "tmAssign t")
  case (Some e)
  with t obtain v where v: "annotVal (eqValue e) = Inr v" "pair (eqVar e) v \<in> U"
    by (auto simp: pointTerm_def split: sum.splits)
  obtain b where b: "sqReadAnnotBitmap (querier L s) n (eqVar e) v = Inr b"
    "bmSet L b = collect A (\<lambda>ps. hasValue ps (eqVar e) (\<lambda>x. x = v))"
    using read_bitmap[OF r v(2)] by blast
  from negateIf_set[OF r b(2), of "eqIsNot e"] show ?thesis
    by (simp add: evalTerm_def evalEquality_def Some v b satTerm_def)
next
  case None
  with t obtain e where e: "tmInclusion t = Some e" "\<forall>v \<in> set (inclusionValues (inValues e)). pair (inVar e) v \<in> U"
    by (auto simp: pointTerm_def split: option.splits)
  have "bmSet L (bmNew L) = collect A (\<lambda>_. False)" by (simp add: bmSet_simps[OF roaring[OF r]] collect_ops)
  from evalInclusion_loop[OF r e(2) this] obtain b where
    b: "foldRes (\<lambda>v union. andThen (sqReadAnnotBitmap (querier L s) n (inVar e) v) (\<lambda>bm. Inr (bmOr L union bm)))
        (inclusionValues (inValues e)) (bmNew L) = Inr b"
    "bmSet L b = collect A (\<lambda>ps. hasValue ps (inVar e) (\<lambda>x. x \<in> set (inclusionValues (inValues e))))"
    by auto
  from negateIf_set[OF r b(2), of "inIsNot e"] show ?thesis
    by (simp add: evalTerm_def evalInclusion_def None e(1) b(1) satTerm_def)
qed

lemma numericRange:
  assumes "scanRep L s A" "CHR 0x00 \<notin> set k" "\<And>x. lo \<le> x \<and> x \<le> hi \<longleftrightarrow> P x"
  shows "bmSet L (sqIterateNumericAnnotBitmaps (querier L s) k lo hi) =
    collect A (\<lambda>ps. hasValue ps k (\<lambda>x. length x = 8 \<and> P (bytesUint64 x)))"
  unfolding numeric_scan[OF assms(1,2)] assms(3)[symmetric] ..

lemma stringRange:
  assumes "scanRep L s A" "CHR 0x00 \<notin> set k" "\<And>x. aboveLo slo loIncl x \<and> belowHi shi hiIncl x \<longleftrightarrow> P x"
  shows "bmSet L (sqIterateStringAnnotBitmaps (querier L s) k slo loIncl shi hiIncl) =
    collect A (\<lambda>ps. hasValue ps k (\<lambda>x. x \<noteq> [] \<and> P x))"
  unfolding string_scan[OF assms(1,2)] assms(3)[symmetric] ..

lemma evalCmp_set:
  assumes ro: "roaring_ok L" and r: "scanRep L s A" and e: "cmpOk e"
  shows "\<exists>b. evalLessThan L (querier L s) e = Inr b \<and> bmSet L b = collect A (\<lambda>ps. satCmp (<) (<) ps e)"
    and "\<exists>b. evalLessOrEqualThan (querier L s) e = Inr b \<and> bmSet L b = collect A (\<lambda>ps. satCmp (\<le>) (\<le>) ps e)"
    and "\<exists>b. evalGreaterThan L (querier L s) e = Inr b \<and>
      bmSet L b = collect A (\<lambda>ps. satCmp (\<lambda>x s. s < x) (\<lambda>x n. n < x) ps e)"
    and "\<exists>b. evalGreaterOrEqualThan (querier L s) e = Inr b \<and>
      bmSet L b = collect A (\<lambda>ps. satCmp (\<lambda>x s. s \<le> x) (\<lambda>x n. n \<le> x) ps e)"
proof -
  have k: "CHR 0x00 \<notin> set (cmpVar e)" and v: "valString (cmpValue e) = None \<Longrightarrow> \<exists>n. valNumber (cmpValue e) = Some n"
    using e by (auto simp: cmpOk_def)
  note st = stringRange[OF r k] and nu = numericRange[OF r k]
  have max: "x \<le> maxUint64" for x by (simp add: maxUint64_def)
  have lt: "x \<le> n - 1 \<longleftrightarrow> x < n" if "n \<noteq> 0" for x n :: uint64
  proof -
    have "unat (n - 1) = unat n - 1" by (rule unat_minus_one[OF that])
    moreover have "0 < unat n" using that by (simp add: unat_gt_0)
    ultimately show ?thesis unfolding word_le_nat_alt word_less_nat_alt by linarith
  qed
  have gt: "n + 1 \<le> x \<longleftrightarrow> n < x" if "n \<noteq> maxUint64" for x n :: uint64
  proof -
    have "1 + n \<noteq> 0" using that by (metis add_eq_0_iff maxUint64_def)
    then have "unat (n + 1) = Suc (unat n)" by (metis add.commute unatSuc)
    then show ?thesis unfolding word_le_nat_alt word_less_nat_alt by linarith
  qed
  show "\<exists>b. evalLessThan L (querier L s) e = Inr b \<and> bmSet L b = collect A (\<lambda>ps. satCmp (<) (<) ps e)"
  proof (cases "valString (cmpValue e)")
    case None
    then obtain n where n: "valNumber (cmpValue e) = Some n" using v by blast
    show ?thesis
    proof (cases "n = 0")
      case True
      then show ?thesis using None n
        by (simp add: evalLessThan_def derefNumber_def satCmp_def bmSet_simps[OF ro] collect_ops)
    next
      case False
      then show ?thesis using None n nu[of 0 "n - 1" "\<lambda>x. x < n"] lt
        by (simp add: evalLessThan_def derefNumber_def satCmp_def)
    qed
  next
    case (Some x)
    then show ?thesis using st[of None False "Some x" False "\<lambda>y. y < x"]
      by (simp add: evalLessThan_def satCmp_def aboveLo_def belowHi_def)
  qed
  show "\<exists>b. evalLessOrEqualThan (querier L s) e = Inr b \<and> bmSet L b = collect A (\<lambda>ps. satCmp (\<le>) (\<le>) ps e)"
  proof (cases "valString (cmpValue e)")
    case None
    then obtain n where n: "valNumber (cmpValue e) = Some n" using v by blast
    show ?thesis using None n nu[of 0 n "\<lambda>x. x \<le> n"]
      by (simp add: evalLessOrEqualThan_def derefNumber_def satCmp_def)
  next
    case (Some x)
    then show ?thesis using st[of None False "Some x" True "\<lambda>y. y \<le> x"]
      by (auto simp: evalLessOrEqualThan_def satCmp_def aboveLo_def belowHi_def le_less)
  qed
  show "\<exists>b. evalGreaterThan L (querier L s) e = Inr b \<and>
      bmSet L b = collect A (\<lambda>ps. satCmp (\<lambda>x s. s < x) (\<lambda>x n. n < x) ps e)"
  proof (cases "valString (cmpValue e)")
    case None
    then obtain n where n: "valNumber (cmpValue e) = Some n" using v by blast
    show ?thesis
    proof (cases "n = maxUint64")
      case True
      have nmax: "\<not> maxUint64 < x" for x :: uint64 using max[of x] leD by blast
      show ?thesis using True None n nmax
        by (simp add: evalGreaterThan_def derefNumber_def satCmp_def bmSet_simps[OF ro] collect_ops)
    next
      case False
      then show ?thesis using None n nu[of "n + 1" maxUint64 "\<lambda>x. n < x"] gt max
        by (simp add: evalGreaterThan_def derefNumber_def satCmp_def)
    qed
  next
    case (Some x)
    then show ?thesis using st[of "Some x" False None False "\<lambda>y. x < y"]
      by (simp add: evalGreaterThan_def satCmp_def aboveLo_def belowHi_def)
  qed
  show "\<exists>b. evalGreaterOrEqualThan (querier L s) e = Inr b \<and>
      bmSet L b = collect A (\<lambda>ps. satCmp (\<lambda>x s. s \<le> x) (\<lambda>x n. n \<le> x) ps e)"
  proof (cases "valString (cmpValue e)")
    case None
    then obtain n where n: "valNumber (cmpValue e) = Some n" using v by blast
    show ?thesis using None n nu[of n maxUint64 "\<lambda>x. n \<le> x"] max
      by (simp add: evalGreaterOrEqualThan_def derefNumber_def satCmp_def)
  next
    case (Some x)
    then show ?thesis using st[of "Some x" True None False "\<lambda>y. x \<le> y"]
      by (auto simp: evalGreaterOrEqualThan_def satCmp_def aboveLo_def belowHi_def le_less)
  qed
qed

lemma isPrefixGlob_Some:
  "isPrefixGlob pat = Some p \<Longrightarrow> pat = p @ ''*'' \<and> CHR ''*'' \<notin> set p \<and> CHR ''?'' \<notin> set p"
  by (auto simp: isPrefixGlob_def Let_def split: if_splits) (metis append_butlast_last_id)

lemma evalScan_set:
  assumes p: "pointRep L U s n A" and r: "scanRep L s A" and t: "scanTerm t"
  shows "\<exists>b. evalTerm L (querier L s) n t = Inr b \<and> bmSet L b = collect A (\<lambda>ps. satTerm ps t)"
proof -
  note c = evalCmp_set[OF roaring[OF p] r]
  have g: "\<exists>b. evalGlob L (querier L s) n e = Inr b \<and>
      bmSet L b = collect A (\<lambda>ps. hasValue ps (glVar e) (\<lambda>x. x \<noteq> [] \<and> globMatch (glValue e) x) \<noteq> glIsNot e)"
    if e: "CHR 0x00 \<notin> set (glVar e)" for e
  proof -
    have "bmSet L (case isPrefixGlob (glValue e) of Some p \<Rightarrow> sqIteratePrefixAnnotBitmaps (querier L s) (glVar e) p
        | None \<Rightarrow> sqIterateGlobAnnotBitmaps (querier L s) (glVar e) (glValue e)) =
      collect A (\<lambda>ps. hasValue ps (glVar e) (\<lambda>x. x \<noteq> [] \<and> globMatch (glValue e) x))"
    proof (cases "isPrefixGlob (glValue e)")
      case None
      then show ?thesis by (simp add: glob_scan[OF r e])
    next
      case (Some q)
      from isPrefixGlob_Some[OF Some] globSpec_prefix[of q] have "globMatch (glValue e) x = prefix q x" for x
        by (simp add: globMatch_globSpec)
      then show ?thesis by (simp add: Some prefix_scan[OF r e])
    qed
    from negateIf_set[OF p this] show ?thesis by (simp add: evalGlob_def)
  qed
  show ?thesis using t c g
    by (auto simp: scanTerm_def evalTerm_def satTerm_def split: option.splits)
qed

text \<open>From terms to conjunctions, disjunctions and queries.\<close>

lemma evalAnd_set:
  assumes p: "pointRep L U s n A"
    and t: "\<And>t. t \<in> set ts \<Longrightarrow> \<exists>b. evalTerm L (querier L s) n t = Inr b \<and> bmSet L b = collect A (\<lambda>ps. satTerm ps t)"
    and ne: "ts \<noteq> []"
  shows "\<exists>b. evalAnd L (querier L s) n ts = Inr b \<and> bmSet L b = collect A (\<lambda>ps. \<forall>t \<in> set ts. satTerm ps t)"
proof -
  let ?f = "\<lambda>t result. andThen (evalTerm L (querier L s) n t) (\<lambda>bm.
          Inr (case result of None \<Rightarrow> Some bm | Some r \<Rightarrow> Some (bmAnd L r bm)))"
  have loop: "\<exists>b. foldRes ?f us (Some r) = Inr (Some b) \<and> bmSet L b = collect A (\<lambda>ps. P ps \<and> (\<forall>t \<in> set us. satTerm ps t))"
    if "bmSet L r = collect A P" "set us \<subseteq> set ts" for us r P
    using that
  proof (induction us arbitrary: r P)
    case (Cons u us)
    obtain b where b: "evalTerm L (querier L s) n u = Inr b" "bmSet L b = collect A (\<lambda>ps. satTerm ps u)"
      using t[of u] Cons.prems(2) by auto
    have "bmSet L (bmAnd L r b) = collect A (\<lambda>ps. P ps \<and> satTerm ps u)"
      by (simp add: bmSet_simps[OF roaring[OF p]] Cons.prems(1) b(2) collect_ops(2)[OF functional[OF p]])
    from Cons.IH[OF this] Cons.prems(2) b(1) show ?case by (simp add: conj_assoc)
  qed simp
  obtain u us where ts: "ts = u # us" using ne by (cases ts) auto
  obtain b where b: "evalTerm L (querier L s) n u = Inr b" "bmSet L b = collect A (\<lambda>ps. satTerm ps u)"
    using t[of u] ts by auto
  have "set us \<subseteq> set ts" using ts by auto
  from loop[OF b(2) this] ts b(1) show ?thesis by (auto simp: evalAnd_def)
qed

lemma evalOr_set:
  assumes p: "pointRep L U s n A"
    and t: "\<And>c. c \<in> set cs \<Longrightarrow> \<exists>b. evalAnd L (querier L s) n c = Inr b \<and> bmSet L b = collect A (\<lambda>ps. \<forall>t \<in> set c. satTerm ps t)"
  shows "\<exists>b. evalOr L (querier L s) n cs = Inr b \<and> bmSet L b = collect A (\<lambda>ps. satTerms (satTerm ps) cs)"
proof -
  have loop: "\<exists>b. foldRes (\<lambda>c result. andThen (evalAnd L (querier L s) n c) (\<lambda>bm. Inr (bmOr L result bm))) ds r = Inr b
      \<and> bmSet L b = collect A (\<lambda>ps. P ps \<or> satTerms (satTerm ps) ds)"
    if "bmSet L r = collect A P" "set ds \<subseteq> set cs" for ds r P
    using that
  proof (induction ds arbitrary: r P)
    case (Cons d ds)
    obtain b where b: "evalAnd L (querier L s) n d = Inr b" "bmSet L b = collect A (\<lambda>ps. \<forall>t \<in> set d. satTerm ps t)"
      using t[of d] Cons.prems(2) by auto
    have "bmSet L (bmOr L r b) = collect A (\<lambda>ps. P ps \<or> (\<forall>t \<in> set d. satTerm ps t))"
      by (simp add: bmSet_simps[OF roaring[OF p]] Cons.prems(1) b(2) collect_ops(1))
    from Cons.IH[OF this] Cons.prems(2) b(1) show ?case by (simp add: satTerms_def disj_assoc)
  qed (simp add: satTerms_def)
  have "bmSet L (bmNew L) = collect A (\<lambda>_. False)" by (simp add: bmSet_simps[OF roaring[OF p]] collect_ops)
  from loop[OF this, of cs] show ?thesis by (simp add: evalOr_def)
qed

lemma Evaluate_set:
  assumes p: "pointRep L U s n A"
    and ok: "astOk (\<lambda>t. pointTerm U t \<or> scanRep L s A \<and> scanTerm t) ast"
  shows "\<exists>b. Evaluate L (querier L s) n ast = Inr b \<and> bmSet L b = collect A (\<lambda>ps. satAST ps ast)"
proof (cases ast)
  case None
  then show ?thesis using all_entities[OF p] by (simp add: Evaluate_def satAST_def collect_ops)
next
  case (Some cs)
  have "\<exists>b. evalAnd L (querier L s) n c = Inr b \<and> bmSet L b = collect A (\<lambda>ps. \<forall>t \<in> set c. satTerm ps t)"
    if c: "c \<in> set cs" for c
  proof (rule evalAnd_set[OF p])
    show "c \<noteq> []" using ok c by (auto simp: astOk_def Some)
    fix t assume t: "t \<in> set c"
    with c ok have "pointTerm U t \<or> scanRep L s A \<and> scanTerm t" by (auto simp: astOk_def Some)
    then show "\<exists>b. evalTerm L (querier L s) n t = Inr b \<and> bmSet L b = collect A (\<lambda>ps. satTerm ps t)"
      using evalPoint_set[OF p] evalScan_set[OF p] by blast
  qed
  from evalOr_set[OF p this] show ?thesis by (simp add: Some Evaluate_def satAST_def)
qed

end

end
