(* ===== verification/Query_Correct.thy ===== *)
theory Query_Correct
  imports Revert_Correct Query_Eval
begin

text \<open>
  The store is a querier: its methods meet the contract of \<open>store_querier\<close>, at the head for every kind
  of term and at an earlier block for the terms that read single bitmaps. Evaluating a query on a store
  then returns exactly the numbers of the live entities that satisfy it. Looking up an entity by address
  and an address by number follow from the same invariants.
\<close>

section \<open>The state of a block\<close>

definition tableRel :: "('db, 'bm, 'sdb) lib \<Rightarrow> table \<Rightarrow> (uint64 \<times> annotPair list) set" where
  "tableRel L T = {(i, ps). \<exists>a e. T a = Some (i, e) \<and> ps = allAnnotations L e}"

text \<open>The root a read at block \<open>n\<close> opens, 0 standing for the head.\<close>

definition rootAt :: "('db, 'bm, 'sdb) lib \<Rightarrow> 'db Store \<Rightarrow> uint64 \<Rightarrow> hash \<Rightarrow> bool" where
  "rootAt L s n r \<longleftrightarrow>
     (if n = 0 then r = headRoot s
      else \<exists>hb rb. rd L (rawDB s) (blockNumberKey n) = Some hb \<and>
        rd L (rawDB s) (rootKey (BytesToHash hb)) = Some rb \<and> r = BytesToHash rb)"

definition blockRep :: "('db, 'bm, 'sdb) lib \<Rightarrow> annotPair set \<Rightarrow> 'db Store \<Rightarrow> uint64 \<Rightarrow> table \<Rightarrow> bool" where
  "blockRep L U s n T \<longleftrightarrow> lib_ok L \<and> pair ''$all'' ''true'' \<in> U \<and>
     (\<exists>r m. rootAt L s n r \<and> root_ok L U (rd L (rawDB s)) r T m)"

lemma openStateAt_root: "rootAt L s n r \<Longrightarrow> openStateAt L s n = stateNew L (rd L (rawDB s)) r"
  by (auto simp: rootAt_def openStateAt_def dbGet_rd split: if_splits)

lemma blockRep_head:
  assumes "lib_ok L" "pair ''$all'' ''true'' \<in> U" "store_inv L U H s T m"
  shows "blockRep L U s 0 T"
  using assms store_inv_root_ok[OF assms(3)] by (auto simp: blockRep_def rootAt_def)

lemma blockRep_table: "blockRep L U s n T \<Longrightarrow> table_ok L U T"
  by (auto simp: blockRep_def root_ok_def)

lemma single_valued_tableRel: "table_ok L U T \<Longrightarrow> single_valued (tableRel L T)"
proof (rule single_valuedI)
  fix i ps ps' assume t: "table_ok L U T" and "(i, ps) \<in> tableRel L T" "(i, ps') \<in> tableRel L T"
  then obtain a e b f where ab: "T a = Some (i, e)" "ps = allAnnotations L e" "T b = Some (i, f)" "ps' = allAnnotations L f"
    by (auto simp: tableRel_def)
  have "a = b" using t ab(1,3) unfolding table_ok_def by blast
  with ab show "ps = ps'" by simp
qed

lemma collect_tableRel: "collect (tableRel L T) P = {i. \<exists>a e. T a = Some (i, e) \<and> P (allAnnotations L e)}"
  by (auto simp: collect_def tableRel_def)

lemma hasValue_iff: "hasValue ps k P \<longleftrightarrow> (\<exists>x. pair k x \<in> set ps \<and> P x)"
proof
  assume "hasValue ps k P"
  then obtain p where "p \<in> set ps" "apKey p = k" "P (apVal p)" by (auto simp: hasValue_def list_ex_iff)
  then show "\<exists>x. pair k x \<in> set ps \<and> P x" by (intro exI[of _ "apVal p"]) auto
next
  assume "\<exists>x. pair k x \<in> set ps \<and> P x"
  then obtain x where "pair k x \<in> set ps" "P x" by blast
  then show "hasValue ps k P" by (auto simp: hasValue_def list_ex_iff intro!: bexI[of _ "pair k x"])
qed

lemma idsOf_collect: "idsOf L T (pair k v) = collect (tableRel L T) (\<lambda>ps. hasValue ps k (\<lambda>x. x = v))"
  by (simp add: idsOf_def collect_tableRel hasValue_iff)

lemma collect_all:
  "collect (tableRel L T) (\<lambda>ps. hasValue ps ''$all'' (\<lambda>x. x = ''true'')) = Domain (tableRel L T)"
  using all_pair_in_allAnnotations by (fastforce simp: collect_def tableRel_def hasValue_iff)

section \<open>Point reads\<close>

lemma ReadAnnotBitmap_set:
  assumes r: "blockRep L U s n T" and p: "pair k v \<in> U"
  shows "\<exists>b. ReadAnnotBitmap L s n k v = Inr b \<and>
    bmSet L b = collect (tableRel L T) (\<lambda>ps. hasValue ps k (\<lambda>x. x = v))"
proof -
  obtain root m where o: "rootAt L s n root" "root_ok L U (rd L (rawDB s)) root T m" and ok: "lib_ok L"
    using r by (auto simp: blockRep_def)
  obtain sdb where s: "stateNew L (rd L (rawDB s)) root = Inr sdb"
    "hist_ptr L (rd L (rawDB s)) sdb (pair k v) (idsOf L T (pair k v))"
    using o(2) p unfolding root_ok_def by blast
  have op: "openStateAt L s n = Inr sdb" using openStateAt_root[OF o(1)] s(1) by simp
  from s(2) consider "slotOf L sdb (pair k v) = 0" "idsOf L T (pair k v) = {}"
    | bs b where "slotOf L sdb (pair k v) \<noteq> 0" "rd L (rawDB s) (bitmapKey (slotOf L sdb (pair k v))) = Some bs"
      "bs \<noteq> []" "bmUnmarshal L bs = Inr b" "bmSet L b = idsOf L T (pair k v)"
    unfolding hist_ptr_def by blast
  then show ?thesis
  proof cases
    case 1
    then show ?thesis unfolding idsOf_collect
      by (simp add: ReadAnnotBitmap_def op slotOf_def bmSet_simps[OF lib_okD(2)[OF ok]])
  next
    case 2
    then have "dbGet L (rawDB s) (bitmapKey (slotOf L sdb (pair k v))) = Inr bs" by (simp add: dbGet_rd)
    with 2 show ?thesis unfolding idsOf_collect
      by (intro exI[of _ b]) (simp add: ReadAnnotBitmap_def op slotOf_def)
  qed
qed

section \<open>Scans of the pointer index\<close>

definition headRep :: "('db, 'bm, 'sdb) lib \<Rightarrow> 'db Store \<Rightarrow> table \<Rightarrow> bool" where
  "headRep L s T \<longleftrightarrow> lib_ok L \<and> (\<exists>U H m. hash_ok L U H \<and> store_inv L U H s T m)"

lemma annotScan_table:
  assumes r: "headRep L s T" and k: "CHR 0x00 \<notin> set key"
  shows "annotScan L s key P = collect (tableRel L T) (\<lambda>ps. hasValue ps key P)"
proof -
  obtain U H m sdb where h: "hash_ok L U H" and c: "consistent L U H (rd L (rawDB s)) sdb T m"
    using r unfolding headRep_def store_inv_def by blast
  have nul: "p \<in> U \<Longrightarrow> CHR 0x00 \<notin> set (apKey p)" for p using h by (simp add: hash_ok_def slots_ok_def)
  have ptr: "ptr_ok L (rd L (rawDB s)) sdb p (idsOf L T p)" if "p \<in> U" for p
    using c that by (simp add: consistent_def)
  have entry: "pair key x \<in> U" if "rd L (rawDB s) (annotKey key x) = Some v" for x v
  proof -
    have "annotKey key x \<in> annotKeyP ` U"
      using c that by (auto simp: consistent_def index_keys_ok_def annotKey_def)
    then obtain p where p: "p \<in> U" "annotKey key x = annotKey (apKey p) (apVal p)"
      by (auto simp: annotKeyP_def)
    then have "p = pair key x" using annotKey_inject[OF k nul[OF p(1)]] by auto
    with p show ?thesis by simp
  qed
  have load: "ptrSet L s v = idsOf L T (pair key x)" if "rd L (rawDB s) (annotKey key x) = Some v" for x v
  proof -
    from ptr[OF entry[OF that]] that obtain h bs b where "h \<noteq> 0" "v = hashBytes h"
      "rd L (rawDB s) (bitmapKey h) = Some bs" "bs \<noteq> []" "bmUnmarshal L bs = Inr b" "bmSet L b = idsOf L T (pair key x)"
      by (auto simp: ptr_ok_def annotKeyP_def)
    then show ?thesis by (simp add: ptrSet_def loadBitmapFromPointer_def dbGet_rd)
  qed
  have pres: "\<exists>v. rd L (rawDB s) (annotKey key x) = Some v" if i: "i \<in> idsOf L T (pair key x)" for i x
  proof -
    have "pair key x \<in> U" using i idsOf_subset_U[of L U T "pair key x"] c by (auto simp: consistent_def)
    from ptr[OF this] i show ?thesis by (auto simp: ptr_ok_def annotKeyP_def)
  qed
  have "annotScan L s key P = (\<Union>x \<in> {x. P x}. idsOf L T (pair key x))"
  proof (rule set_eqI)
    fix i
    have "i \<in> annotScan L s key P \<longleftrightarrow>
        (\<exists>x v. rd L (rawDB s) (annotKey key x) = Some v \<and> P x \<and> i \<in> ptrSet L s v)"
      by (auto simp: annotScan_def)
    also have "\<dots> \<longleftrightarrow> (\<exists>x. P x \<and> i \<in> idsOf L T (pair key x))"
      using load pres by metis
    finally show "i \<in> annotScan L s key P \<longleftrightarrow> i \<in> (\<Union>x \<in> {x. P x}. idsOf L T (pair key x))" by simp
  qed
  also have "\<dots> = collect (tableRel L T) (\<lambda>ps. hasValue ps key P)"
    unfolding idsOf_collect by (auto simp: collect_def hasValue_iff)
  finally show ?thesis .
qed

section \<open>The contract\<close>

definition pointRep ::
    "('db, 'bm, 'sdb) lib \<Rightarrow> annotPair set \<Rightarrow> 'db Store \<Rightarrow> uint64 \<Rightarrow> (uint64 \<times> annotPair list) set \<Rightarrow> bool" where
  "pointRep L U s n A \<longleftrightarrow> (\<exists>T. blockRep L U s n T \<and> A = tableRel L T)"

definition scanRep :: "('db, 'bm, 'sdb) lib \<Rightarrow> 'db Store \<Rightarrow> (uint64 \<times> annotPair list) set \<Rightarrow> bool" where
  "scanRep L s A \<longleftrightarrow> (\<exists>T. headRep L s T \<and> A = tableRel L T)"

lemma scanRep_libs: "scanRep L s A \<Longrightarrow> kv_ok L \<and> roaring_ok L"
  by (auto simp: scanRep_def headRep_def)

lemma annotScan_collect:
  "scanRep L s A \<Longrightarrow> CHR 0x00 \<notin> set key \<Longrightarrow> annotScan L s key P = collect A (\<lambda>ps. hasValue ps key P)"
  unfolding scanRep_def by (elim exE conjE) (simp add: annotScan_table)

interpretation sq: store_querier storeQuerier pointRep scanRep
proof (unfold_locales, goal_cases)
  case (1 L U s n A)
  then show ?case by (auto simp: pointRep_def blockRep_def)
next
  case (2 L U s n A)
  then show ?case using blockRep_table single_valued_tableRel by (metis pointRep_def)
next
  case (3 L U s n A k v)
  then show ?case using ReadAnnotBitmap_set by (auto simp: pointRep_def storeQuerier_def)
next
  case (4 L U s n A)
  then obtain T where T: "blockRep L U s n T" "A = tableRel L T" by (auto simp: pointRep_def)
  then have "pair ''$all'' ''true'' \<in> U" by (simp add: blockRep_def)
  from ReadAnnotBitmap_set[OF T(1) this] show ?case by (simp add: storeQuerier_def AllEntities_def collect_all T(2))
next
  case (5 L s A k lo hi)
  then show ?case by (simp add: scanRep_libs storeQuerier_def IterateNumeric_set annotScan_collect)
next
  case (6 L s A k slo loIncl shi hiIncl)
  then show ?case by (simp add: scanRep_libs storeQuerier_def IterateString_set annotScan_collect)
next
  case (7 L s A k p)
  then show ?case by (simp add: scanRep_libs storeQuerier_def IteratePrefix_set annotScan_collect)
next
  case (8 L s A k pat)
  then show ?case by (simp add: scanRep_libs storeQuerier_def IterateGlob_set annotScan_collect)
qed

section \<open>Queries on the store\<close>

lemma Evaluate_head:
  assumes ok: "lib_ok L" and h: "hash_ok L U H" and inv: "store_inv L U H s T m"
    and all: "pair ''$all'' ''true'' \<in> U"
    and ast: "astOk (\<lambda>t. pointTerm U t \<or> scanTerm t) ast"
  shows "\<exists>b. Evaluate L (storeQuerier L s) 0 ast = Inr b \<and>
    bmSet L b = {i. \<exists>a e. T a = Some (i, e) \<and> satAST (allAnnotations L e) ast}"
proof -
  have p: "pointRep L U s 0 (tableRel L T)"
    using blockRep_head[OF ok all inv] by (auto simp: pointRep_def)
  have "scanRep L s (tableRel L T)" using ok h inv by (auto simp: scanRep_def headRep_def)
  with ast have "astOk (\<lambda>t. pointTerm U t \<or> scanRep L s (tableRel L T) \<and> scanTerm t) ast" by simp
  from sq.Evaluate_set[OF p this] show ?thesis unfolding collect_tableRel .
qed

lemma Evaluate_past:
  assumes r: "blockRep L U s n T" and ast: "astOk (pointTerm U) ast"
  shows "\<exists>b. Evaluate L (storeQuerier L s) n ast = Inr b \<and>
    bmSet L b = {i. \<exists>a e. T a = Some (i, e) \<and> satAST (allAnnotations L e) ast}"
proof -
  have p: "pointRep L U s n (tableRel L T)" using r by (auto simp: pointRep_def)
  have "astOk (\<lambda>t. pointTerm U t \<or> scanRep L s (tableRel L T) \<and> scanTerm t) ast"
    using ast by (auto simp: astOk_def split: option.splits)
  from sq.Evaluate_set[OF p this] show ?thesis unfolding collect_tableRel .
qed

section \<open>Entities and numbers\<close>

lemma GetEntity_table:
  assumes r: "blockRep L U s n T"
  shows "T a = Some (i, e) \<Longrightarrow> GetEntity L s n a = Inr e"
    and "T a = Some (i, e) \<Longrightarrow> \<exists>bs. GetEntityBytes L s n a = Inr bs \<and> decodeEntity L bs = Inr e"
    and "T a = None \<Longrightarrow> GetEntity L s n a = Inl (Errorf ''entity not found: %s'')"
    and "T a = None \<Longrightarrow> GetEntityBytes L s n a = Inl (Errorf ''entity not found: %s'')"
proof -
  obtain root m where o: "rootAt L s n root" "root_ok L U (rd L (rawDB s)) root T m"
    using r by (auto simp: blockRep_def)
  obtain sdb where s: "stateNew L (rd L (rawDB s)) root = Inr sdb" and c: "code_ok L sdb a (T a)"
    using o(2) unfolding root_ok_def by blast
  have op: "openStateAt L s n = Inr sdb" using openStateAt_root[OF o(1)] s(1) by simp
  show "T a = Some (i, e) \<Longrightarrow> GetEntity L s n a = Inr e"
    "T a = Some (i, e) \<Longrightarrow> \<exists>bs. GetEntityBytes L s n a = Inr bs \<and> decodeEntity L bs = Inr e"
    "T a = None \<Longrightarrow> GetEntity L s n a = Inl (Errorf ''entity not found: %s'')"
    "T a = None \<Longrightarrow> GetEntityBytes L s n a = Inl (Errorf ''entity not found: %s'')"
    using c by (simp_all add: GetEntity_def GetEntityBytes_def op code_ok_def decodeEntity_def Let_def)
qed

lemma IDToAddress_table:
  assumes "store_inv L U H s T m" "T a = Some (i, e)"
  shows "IDToAddress L s i = Some a"
proof -
  have "rd L (rawDB s) (idKey i) = Some (addrBytes a)"
    using assms by (auto simp: store_inv_def consistent_def ids_ok_def)
  then show ?thesis by (simp add: IDToAddress_def dbGet_rd)
qed

section \<open>Scans of the head\<close>

lemma numeric_scan_table:
  assumes "lib_ok L" "hash_ok L U H" "store_inv L U H s T n" "CHR 0x00 \<notin> set key"
  shows "bmSet L (IterateNumericAnnotBitmaps L s key lo hi) =
    {i. \<exists>a e x. T a = Some (i, e) \<and> pair key x \<in> set (allAnnotations L e) \<and> length x = 8 \<and>
       lo \<le> bytesUint64 x \<and> bytesUint64 x \<le> hi}"
proof -
  have rep: "headRep L s T" using assms by (auto simp: headRep_def)
  have "kv_ok L" "roaring_ok L" using assms(1) by blast+
  then show ?thesis
    by (auto simp: IterateNumeric_set annotScan_table[OF rep assms(4)] collect_tableRel hasValue_iff)
qed

end
