(* ===== verification/Query_Server.thy ===== *)
theory Query_Server
  imports Query_Eval "HOL-Library.Multiset"
begin

text \<open>
  The query API (\<open>query/server.go\<close>): the options of a request, the loop that fetches a page of entities
  from the highest number down, the fields of an entity that are returned, and the three methods. The
  backend is the interface the server is given; the hexadecimal numbers of \<open>hexutil\<close>, the JSON encoder
  and the sort of \<open>slices\<close>, which does not keep the order of equal keys, are parameters.
\<close>

section \<open>Options\<close>

definition queryResultCountLimit :: uint64 where
  "queryResultCountLimit = 200"

record IncludeData =
  inclKey :: bool
  inclAttributes :: bool
  inclSyntheticAttributes :: bool
  inclPayload :: bool
  inclContentType :: bool
  inclExpiration :: bool
  inclOwner :: bool
  inclCreator :: bool
  inclCreatedAtBlock :: bool
  inclLastModifiedAtBlock :: bool
  inclTransactionIndexInBlock :: bool
  inclOperationIndexInTransaction :: bool

record Options =
  optAtBlock :: "uint64 option"
  optIncludeData :: "IncludeData option"
  optResultsPerPage :: "uint64 option"
  optCursor :: string

record 'v Attr =
  attrKey :: string
  attrValue :: 'v

record EntityData =
  edKey :: "hash option"
  edValue :: bytes
  edContentType :: "string option"
  edExpiresAt :: "uint64 option"
  edOwner :: "address option"
  edCreator :: "address option"
  edCreatedAtBlock :: "uint64 option"
  edLastModifiedAtBlock :: "uint64 option"
  edTransactionIndexInBlock :: "uint64 option"
  edOperationIndexInTransaction :: "uint64 option"
  edStringAttributes :: "string Attr list"
  edNumericAttributes :: "uint64 Attr list"

record QueryResponse =
  qrData :: "bytes list"
  qrBlockNumber :: uint64
  qrCursor :: "string option"

text \<open>The libraries of this component.\<close>

record webLib =
  EncodeUint64 :: "uint64 \<Rightarrow> string"
  DecodeUint64 :: "string \<Rightarrow> uint64 res"
  MarshalEntityData :: "EntityData \<Rightarrow> bytes res"
  SortStringAttrs :: "string Attr list \<Rightarrow> string Attr list"
  SortNumericAttrs :: "uint64 Attr list \<Rightarrow> uint64 Attr list"

definition web_ok :: "webLib \<Rightarrow> bool" where
  "web_ok W \<longleftrightarrow>
     (\<forall>n. DecodeUint64 W (EncodeUint64 W n) = Inr n \<and> EncodeUint64 W n \<noteq> []) \<and>
     (\<forall>ed. \<exists>d. MarshalEntityData W ed = Inr d) \<and>
     (\<forall>as. mset (SortStringAttrs W as) = mset as \<and> sorted (map attrKey (SortStringAttrs W as))) \<and>
     (\<forall>as. mset (SortNumericAttrs W as) = mset as \<and> sorted (map attrKey (SortNumericAttrs W as)))"

definition getResultsPerPage :: "Options option \<Rightarrow> uint64" where
  "getResultsPerPage opts =
     (case opts of None \<Rightarrow> queryResultCountLimit | Some opt \<Rightarrow>
     (case optResultsPerPage opt of None \<Rightarrow> queryResultCountLimit | Some n \<Rightarrow>
       if n > queryResultCountLimit then queryResultCountLimit else n))"

definition defaultIncludeData :: IncludeData where
  "defaultIncludeData =
     \<lparr>inclKey = True, inclAttributes = True, inclSyntheticAttributes = False, inclPayload = True,
      inclContentType = True, inclExpiration = True, inclOwner = True, inclCreator = True,
      inclCreatedAtBlock = True, inclLastModifiedAtBlock = True,
      inclTransactionIndexInBlock = False, inclOperationIndexInTransaction = False\<rparr>"

definition getIncludeData :: "Options option \<Rightarrow> IncludeData" where
  "getIncludeData opts =
     (case opts of None \<Rightarrow> defaultIncludeData | Some opt \<Rightarrow>
     (case optIncludeData opt of None \<Rightarrow> defaultIncludeData | Some d \<Rightarrow> d))"

definition getCursor :: "webLib \<Rightarrow> Options option \<Rightarrow> uint64 option res" where
  "getCursor W opts =
     (case opts of None \<Rightarrow> Inr None | Some opt \<Rightarrow>
       if optCursor opt = [] then Inr None
       else andThen (wrapErr ''error decoding cursor'' (DecodeUint64 W (optCursor opt))) (\<lambda>v. Inr (Some v)))"

definition getAtBlock :: "Options option \<Rightarrow> uint64" where
  "getAtBlock opts =
     (case opts of None \<Rightarrow> 0 | Some opt \<Rightarrow> (case optAtBlock opt of None \<Rightarrow> 0 | Some n \<Rightarrow> n))"

section \<open>The backend\<close>

record 'bm Backend =
  beQuerier :: "'bm StoreQuerier"
  beHeadNumber :: uint64
  beIDToAddress :: "uint64 \<Rightarrow> address option"
  beGetEntityBytes :: "uint64 \<Rightarrow> address \<Rightarrow> bytes res"

definition storeBackend :: "('db, 'bm, 'sdb) lib \<Rightarrow> 'db Store \<Rightarrow> 'bm Backend" where
  "storeBackend L s =
     \<lparr>beQuerier = storeQuerier L s, beHeadNumber = HeadNumber s, beIDToAddress = IDToAddress L s,
      beGetEntityBytes = GetEntityBytes L s\<rparr>"

section \<open>The fields of an entity\<close>

definition syntheticAnnot :: "string \<Rightarrow> bool" where "syntheticAnnot key = prefix ''$'' key"
definition userAnnot :: "string \<Rightarrow> bool" where "userAnnot key = (\<not> prefix ''$'' key)"
definition anyAnnot :: "string \<Rightarrow> bool" where "anyAnnot key = True"

definition stringAttrs :: "('db, 'bm, 'sdb) lib \<Rightarrow> Entity \<Rightarrow> (string \<Rightarrow> bool) \<Rightarrow> string Attr list" where
  "stringAttrs L e keep =
     map (\<lambda>a. \<lparr>attrKey = saKey a, attrValue = saValue a\<rparr>) (filter (\<lambda>a. keep (saKey a)) (StringAnnotations e)) @
     (if keep ''$owner'' then [\<lparr>attrKey = ''$owner'', attrValue = AddressHex L (Owner e)\<rparr>] else []) @
     (if keep ''$creator'' then [\<lparr>attrKey = ''$creator'', attrValue = AddressHex L (Creator e)\<rparr>] else []) @
     (if keep ''$key'' then [\<lparr>attrKey = ''$key'', attrValue = HashHex L (Key e)\<rparr>] else []) @
     (if keep ''$contentType'' \<and> ContentType e \<noteq> [] then [\<lparr>attrKey = ''$contentType'', attrValue = ContentType e\<rparr>] else [])"

definition numericAttrs :: "Entity \<Rightarrow> (string \<Rightarrow> bool) \<Rightarrow> uint64 Attr list" where
  "numericAttrs e keep =
     map (\<lambda>a. \<lparr>attrKey = naKey a, attrValue = naValue a\<rparr>) (filter (\<lambda>a. keep (naKey a)) (NumericAnnotations e)) @
     (if keep ''$expiration'' then [\<lparr>attrKey = ''$expiration'', attrValue = ExpiresAt e\<rparr>] else []) @
     (if keep ''$createdAtBlock'' then [\<lparr>attrKey = ''$createdAtBlock'', attrValue = CreatedAtBlock e\<rparr>] else [])"

definition sortedStringAttrs ::
    "webLib \<Rightarrow> ('db, 'bm, 'sdb) lib \<Rightarrow> Entity \<Rightarrow> (string \<Rightarrow> bool) \<Rightarrow> string Attr list" where
  "sortedStringAttrs W L e keep = SortStringAttrs W (stringAttrs L e keep)"

definition sortedNumericAttrs :: "webLib \<Rightarrow> Entity \<Rightarrow> (string \<Rightarrow> bool) \<Rightarrow> uint64 Attr list" where
  "sortedNumericAttrs W e keep = SortNumericAttrs W (numericAttrs e keep)"

definition keepAnnot :: "IncludeData \<Rightarrow> (string \<Rightarrow> bool) option" where
  "keepAnnot incl =
     (if inclAttributes incl \<and> inclSyntheticAttributes incl then Some anyAnnot
      else if inclAttributes incl then Some userAnnot
      else if inclSyntheticAttributes incl then Some syntheticAnnot
      else None)"

definition entityData ::
    "webLib \<Rightarrow> ('db, 'bm, 'sdb) lib \<Rightarrow> IncludeData \<Rightarrow> Entity \<Rightarrow> EntityData" where
  "entityData W L incl e =
     \<lparr>edKey = (if inclKey incl then Some (Key e) else None),
      edValue = (if inclPayload incl then Payload e else []),
      edContentType = (if inclContentType incl then Some (ContentType e) else None),
      edExpiresAt = (if inclExpiration incl then Some (ExpiresAt e) else None),
      edOwner = (if inclOwner incl then Some (Owner e) else None),
      edCreator = (if inclCreator incl then Some (Creator e) else None),
      edCreatedAtBlock = (if inclCreatedAtBlock incl then Some (CreatedAtBlock e) else None),
      edLastModifiedAtBlock = (if inclLastModifiedAtBlock incl then Some (LastModifiedAtBlock e) else None),
      edTransactionIndexInBlock =
        (if inclTransactionIndexInBlock incl then Some (TransactionIndexInBlock e) else None),
      edOperationIndexInTransaction =
        (if inclOperationIndexInTransaction incl then Some (OperationIndexInTransaction e) else None),
      edStringAttributes = (case keepAnnot incl of Some keep \<Rightarrow> sortedStringAttrs W L e keep | None \<Rightarrow> []),
      edNumericAttributes = (case keepAnnot incl of Some keep \<Rightarrow> sortedNumericAttrs W e keep | None \<Rightarrow> [])\<rparr>"

definition fetchEntityData ::
    "webLib \<Rightarrow> ('db, 'bm, 'sdb) lib \<Rightarrow> 'bm Backend \<Rightarrow> uint64 \<Rightarrow> address \<Rightarrow> IncludeData \<Rightarrow> EntityData res" where
  "fetchEntityData W L be atBlockNumber addr incl =
     andThen (beGetEntityBytes be atBlockNumber addr) (\<lambda>data.
     andThen (wrapErr ''decode entity at %s'' (decodeEntity L data)) (\<lambda>e.
     Inr (entityData W L incl e)))"

section \<open>The page loop\<close>

text \<open>
  One number of a batch: numbers without an address or an entity are skipped. The state of the loop is
  the last number seen and the data so far.
\<close>

definition fetchStep ::
    "webLib \<Rightarrow> ('db, 'bm, 'sdb) lib \<Rightarrow> 'bm Backend \<Rightarrow> uint64 \<Rightarrow> IncludeData \<Rightarrow> uint64
      \<Rightarrow> uint64 option \<times> bytes list \<Rightarrow> (uint64 option \<times> bytes list) res" where
  "fetchStep W L be atBlockNumber incl i = (\<lambda>(lastID, data).
     (case beIDToAddress be i of
        None \<Rightarrow> Inr (Some i, data)
      | Some addr \<Rightarrow>
          (case fetchEntityData W L be atBlockNumber addr incl of
             Inl e \<Rightarrow> (case e of Panic p \<Rightarrow> Inl e | _ \<Rightarrow> Inr (Some i, data))
           | Inr ed \<Rightarrow> andThen (wrapErr ''failed to marshal entity data'' (MarshalEntityData W ed))
               (\<lambda>d. Inr (Some i, data @ [d])))))"

text \<open>A round takes at most ten numbers from the iterator, and no more than the page has room for.\<close>

definition batchSize :: "uint64 \<Rightarrow> bytes list \<Rightarrow> uint64" where
  "batchSize maxResults data = min (maxResults - word_of_nat (length data)) 10"

lemma batchSize_pos: "word_of_nat (length data) < maxResults \<Longrightarrow> 0 < unat (batchSize maxResults data)"
proof -
  assume "word_of_nat (length data) < maxResults"
  then have "maxResults - word_of_nat (length data) \<noteq> 0" by auto
  then show ?thesis by (auto simp: batchSize_def min_def unat_gt_0)
qed

function queryLoop ::
    "webLib \<Rightarrow> ('db, 'bm, 'sdb) lib \<Rightarrow> 'bm Backend \<Rightarrow> uint64 \<Rightarrow> IncludeData \<Rightarrow> uint64 \<Rightarrow> uint64 list
      \<Rightarrow> uint64 option \<times> bytes list \<Rightarrow> (uint64 list \<times> uint64 option \<times> bytes list) res" where
  "queryLoop W L be atBlockNumber incl maxResults it st =
     (if it \<noteq> [] \<and> word_of_nat (length (snd st)) < maxResults then
        let n = unat (batchSize maxResults (snd st)) in
        andThen (foldRes (fetchStep W L be atBlockNumber incl) (take n it) st)
          (queryLoop W L be atBlockNumber incl maxResults (drop n it))
      else Inr (it, st))"
  by pat_completeness auto

termination
  by (relation "measure (\<lambda>(W, L, be, n, incl, m, it, st). length it)")
    (auto dest: batchSize_pos)

declare queryLoop.simps [simp del]

section \<open>The methods\<close>

definition Query ::
    "webLib \<Rightarrow> (string \<Rightarrow> TopLevel res) \<Rightarrow> ('db, 'bm, 'sdb) lib \<Rightarrow> 'bm Backend \<Rightarrow> string \<Rightarrow> Options option
      \<Rightarrow> QueryResponse res" where
  "Query W ParseString L be queryStr options =
     andThen (wrapErr ''failed to parse query'' (Parse ParseString (unicodeToLower L) queryStr)) (\<lambda>ast.
     let atBlockNumber = getAtBlock options;
         headNumber = beHeadNumber be;
         responseBlockNumber = (if atBlockNumber = 0 then headNumber else atBlockNumber)
     in andThen (wrapErr ''failed to evaluate query'' (Evaluate L (beQuerier be) atBlockNumber ast)) (\<lambda>ids.
     andThen (getCursor W options) (\<lambda>cursor.
     let ids = (case cursor of Some c \<Rightarrow> bmAnd L ids (bmAddRange L (bmNew L) 0 c) | None \<Rightarrow> ids)
     in andThen (queryLoop W L be atBlockNumber (getIncludeData options) (getResultsPerPage options)
           (rev (bmToArray L ids)) (None, [])) (\<lambda>(it, lastID, data).
     Inr \<lparr>qrData = data, qrBlockNumber = responseBlockNumber,
          qrCursor = (case lastID of Some i \<Rightarrow> if it \<noteq> [] then Some (EncodeUint64 W i) else None | None \<Rightarrow> None)\<rparr>))))"

definition GetEntityByAddress ::
    "webLib \<Rightarrow> ('db, 'bm, 'sdb) lib \<Rightarrow> 'bm Backend \<Rightarrow> address \<Rightarrow> Options option \<Rightarrow> EntityData res" where
  "GetEntityByAddress W L be addr options =
     fetchEntityData W L be (getAtBlock options) addr (getIncludeData options)"

text \<open>The cardinality of a bitmap is the number of its elements.\<close>

definition GetEntityCount :: "('db, 'bm, 'sdb) lib \<Rightarrow> 'bm Backend \<Rightarrow> uint64 res" where
  "GetEntityCount L be =
     andThen (sqAllEntities (beQuerier be) 0) (\<lambda>bm. Inr (word_of_nat (length (bmToArray L bm))))"

end
