(* ===== verification/Query_Pages.thy ===== *)
theory Query_Pages
  imports Query_Correct Query_Server
begin

text \<open>
  What a page of results holds: the loop of the query method, and the pages of a query on a store, which
  list the matching entities from the highest number down, without a gap or a repetition from one page
  to the next.
\<close>

section \<open>The loop\<close>

definition fetched ::
    "webLib \<Rightarrow> ('db, 'bm, 'sdb) lib \<Rightarrow> 'bm Backend \<Rightarrow> uint64 \<Rightarrow> IncludeData \<Rightarrow> uint64 \<Rightarrow> bytes option" where
  "fetched W L be n incl i =
     (case beIDToAddress be i of None \<Rightarrow> None
      | Some a \<Rightarrow> Option.bind (okOption (fetchEntityData W L be n a incl)) (\<lambda>ed. okOption (MarshalEntityData W ed)))"

text \<open>Fetching does not panic.\<close>

definition fetchOk :: "webLib \<Rightarrow> ('db, 'bm, 'sdb) lib \<Rightarrow> 'bm Backend \<Rightarrow> uint64 \<Rightarrow> IncludeData \<Rightarrow> bool" where
  "fetchOk W L be n incl \<longleftrightarrow> (\<forall>a p. fetchEntityData W L be n a incl \<noteq> Inl (Panic p))"

lemma fetchStep_fetched:
  assumes "web_ok W" "fetchOk W L be n incl"
  shows "fetchStep W L be n incl i (l, data) =
    Inr (Some i, data @ (case fetched W L be n incl i of None \<Rightarrow> [] | Some d \<Rightarrow> [d]))"
proof -
  have m: "\<exists>d. MarshalEntityData W ed = Inr d" for ed using assms(1) by (simp add: web_ok_def)
  have np: "fetchEntityData W L be n a incl \<noteq> Inl (Panic p)" for a p using assms(2) by (simp add: fetchOk_def)
  show ?thesis
  proof (cases "beIDToAddress be i")
    case None
    then show ?thesis by (simp add: fetchStep_def fetched_def)
  next
    case (Some a)
    show ?thesis
    proof (cases "fetchEntityData W L be n a incl")
      case (Inl e)
      with np[of a] Some show ?thesis by (cases e) (auto simp: fetchStep_def fetched_def)
    next
      case (Inr ed)
      with m[of ed] Some show ?thesis by (auto simp: fetchStep_def fetched_def)
    qed
  qed
qed

lemma fetch_batch:
  assumes "web_ok W" "fetchOk W L be n incl"
  shows "foldRes (fetchStep W L be n incl) ids (l, data) =
    Inr (if ids = [] then l else Some (last ids), data @ List.map_filter (fetched W L be n incl) ids)"
proof (induction ids arbitrary: l data)
  case (Cons i ids)
  then show ?case
    by (simp add: fetchStep_fetched[OF assms] List.map_filter_simps split: option.split)
qed (simp add: List.map_filter_simps)

lemma length_map_filter_le: "length (List.map_filter f xs) \<le> length xs"
  by (induction xs) (auto simp: List.map_filter_simps split: option.split)

text \<open>The loop consumes a prefix of the iterator, and stops at the end of it or when the page is full.\<close>

lemma queryLoop_prefix:
  assumes w: "web_ok W" and f: "fetchOk W L be n incl" and m: "maxResults \<le> 200"
  shows "length data \<le> unat maxResults \<Longrightarrow>
    \<exists>k \<le> length it. queryLoop W L be n incl maxResults it (l, data) =
      Inr (drop k it, if k = 0 then l else Some (it ! (k - 1)), data @ List.map_filter (fetched W L be n incl) (take k it))
      \<and> length (data @ List.map_filter (fetched W L be n incl) (take k it)) \<le> unat maxResults
      \<and> (drop k it = [] \<or> length (data @ List.map_filter (fetched W L be n incl) (take k it)) = unat maxResults)"
proof (induction "length it" arbitrary: it l data rule: less_induct)
  case less
  let ?F = "List.map_filter (fetched W L be n incl)"
  have m': "unat maxResults \<le> 200" using m by (simp add: word_le_nat_alt)
  have len: "unat (word_of_nat (length data) :: uint64) = length data"
    using less.prems m' by (simp add: unat_of_nat)
  show ?case
  proof (cases "it \<noteq> [] \<and> word_of_nat (length data) < maxResults")
    case True
    define b where "b = unat (batchSize maxResults data)"
    have b0: "0 < b" using batchSize_pos True by (simp add: b_def)
    have bm: "b \<le> unat maxResults - length data"
    proof -
      have "batchSize maxResults data \<le> maxResults - word_of_nat (length data)" by (simp add: batchSize_def)
      moreover have "unat (maxResults - word_of_nat (length data)) = unat maxResults - length data"
        using True len by (subst unat_sub) (simp_all add: word_less_nat_alt less_imp_le)
      ultimately show ?thesis by (simp add: b_def word_le_nat_alt)
    qed
    define c where "c = min b (length it)"
    have c: "0 < c" "c \<le> length it" "take b it = take c it" "drop b it = drop c it"
      using True b0 by (auto simp: c_def min_def)
    have l1: "length (?F (take c it)) \<le> c"
      using length_map_filter_le[of "fetched W L be n incl" "take c it"] by simp
    have "c \<le> b" by (simp add: c_def)
    with l1 bm less.prems have l2: "length (data @ ?F (take c it)) \<le> unat maxResults" by simp
    have last: "(if take c it = [] then l else Some (last (take c it))) = Some (it ! (c - 1))"
      using c(1,2) True by (simp add: last_conv_nth min_def)
    have batch: "foldRes (fetchStep W L be n incl) (take c it) (l, data) = Inr (Some (it ! (c - 1)), data @ ?F (take c it))"
      by (simp only: fetch_batch[OF w f] last)
    have run: "queryLoop W L be n incl maxResults it (l, data) =
        queryLoop W L be n incl maxResults (drop c it) (Some (it ! (c - 1)), data @ ?F (take c it))"
      unfolding queryLoop.simps[of _ _ _ _ _ _ it]
      using True by (simp add: b_def[symmetric] c(3,4) batch Let_def)
    from less.hyps[of "drop c it" "data @ ?F (take c it)" "Some (it ! (c - 1))"] c(1,2) l2 True obtain k where
      k: "k \<le> length (drop c it)"
      "queryLoop W L be n incl maxResults (drop c it) (Some (it ! (c - 1)), data @ ?F (take c it)) =
        Inr (drop k (drop c it), if k = 0 then Some (it ! (c - 1)) else Some (drop c it ! (k - 1)),
          (data @ ?F (take c it)) @ ?F (take k (drop c it)))"
      "length ((data @ ?F (take c it)) @ ?F (take k (drop c it))) \<le> unat maxResults"
      "drop k (drop c it) = [] \<or> length ((data @ ?F (take c it)) @ ?F (take k (drop c it))) = unat maxResults"
      by auto
    have tk: "?F (take c it) @ ?F (take k (drop c it)) = ?F (take (c + k) it)"
      by (simp add: take_add List.map_filter_def)
    have nth: "(if k = 0 then Some (it ! (c - 1)) else Some (drop c it ! (k - 1))) = Some (it ! (c + k - 1))"
      using c(1,2) by simp
    show ?thesis
      using k c(1,2) unfolding run k(2) nth append_assoc tk
      by (intro exI[of _ "c + k"]) (simp add: add.commute)
  next
    case False
    then have "it = [] \<or> length data = unat maxResults"
      using len less.prems by (auto simp: word_less_nat_alt)
    with False less.prems show ?thesis
      by (intro exI[of _ 0]) (auto simp: queryLoop.simps[of _ _ _ _ _ _ it] List.map_filter_simps)
  qed
qed


text \<open>What a round adds.\<close>

lemma fetchStep_length:
  "fetchStep W L be n incl i st = Inr st' \<Longrightarrow> length (snd st') \<le> Suc (length (snd st))"
  by (auto simp: fetchStep_def andThen_eq_Inr split: prod.splits option.splits sum.splits err.splits)

lemma fetchFold_length:
  "foldRes (fetchStep W L be n incl) ids st = Inr st' \<Longrightarrow> length (snd st') \<le> length (snd st) + length ids"
proof (induction ids arbitrary: st)
  case (Cons i ids)
  then obtain st1 where "fetchStep W L be n incl i st = Inr st1" "foldRes (fetchStep W L be n incl) ids st1 = Inr st'"
    by (auto simp: andThen_eq_Inr)
  with Cons.IH[of st1] fetchStep_length show ?case by fastforce
qed simp

text \<open>Whatever the backend does, the loop does not exceed the page.\<close>

lemma queryLoop_length:
  assumes "maxResults \<le> 200"
  shows "queryLoop W L be n incl maxResults it st = Inr (it', st') \<Longrightarrow> length (snd st) \<le> unat maxResults \<Longrightarrow>
    length (snd st') \<le> unat maxResults"
proof (induction "length it" arbitrary: it st rule: less_induct)
  case less
  have m': "unat maxResults \<le> 200" using assms by (simp add: word_le_nat_alt)
  show ?case
  proof (cases "it \<noteq> [] \<and> word_of_nat (length (snd st)) < maxResults")
    case True
    define b where "b = unat (batchSize maxResults (snd st))"
    have b0: "0 < b" using batchSize_pos True by (simp add: b_def)
    have len: "unat (word_of_nat (length (snd st)) :: uint64) = length (snd st)"
      using less.prems m' by (simp add: unat_of_nat)
    have "b \<le> unat (maxResults - word_of_nat (length (snd st)))"
      by (simp add: b_def batchSize_def flip: word_le_nat_alt)
    also have "\<dots> = unat maxResults - length (snd st)"
      using True len by (subst unat_sub) (simp_all add: word_less_nat_alt less_imp_le)
    finally have room: "b + length (snd st) \<le> unat maxResults" using less.prems(2) by simp
    obtain st1 where st1: "foldRes (fetchStep W L be n incl) (take b it) st = Inr st1"
      "queryLoop W L be n incl maxResults (drop b it) st1 = Inr (it', st')"
      using less.prems(1) True unfolding queryLoop.simps[of _ _ _ _ _ _ it]
      by (auto simp: b_def andThen_eq_Inr Let_def)
    have "length (snd st1) \<le> unat maxResults" using fetchFold_length[OF st1(1)] room by simp
    with less.hyps[OF _ st1(2)] b0 True show ?thesis by auto
  next
    case False
    with less.prems show ?thesis by (auto simp: queryLoop.simps[of _ _ _ _ _ _ it])
  qed
qed

section \<open>Pages of a store\<close>

definition belowCursor :: "uint64 option \<Rightarrow> uint64 \<Rightarrow> bool" where
  "belowCursor c i = (case c of None \<Rightarrow> True | Some x \<Rightarrow> i < x)"

text \<open>The numbers a query matches below a cursor, highest first.\<close>

definition matching :: "('db, 'bm, 'sdb) lib \<Rightarrow> table \<Rightarrow> AST \<Rightarrow> uint64 option \<Rightarrow> uint64 list" where
  "matching L T ast c = rev (sorted_list_of_set
     {i. belowCursor c i \<and> (\<exists>a e. T a = Some (i, e) \<and> satAST (allAnnotations L e) ast)})"

text \<open>The datum of the page for a number is the encoding of the requested fields of its entity.\<close>

definition rendered ::
    "webLib \<Rightarrow> ('db, 'bm, 'sdb) lib \<Rightarrow> IncludeData \<Rightarrow> table \<Rightarrow> uint64 \<Rightarrow> bytes \<Rightarrow> bool" where
  "rendered W L incl T i d \<longleftrightarrow>
     (\<exists>a e. T a = Some (i, e) \<and> MarshalEntityData W (entityData W L incl e) = Inr d)"

definition nextCursor :: "webLib \<Rightarrow> nat \<Rightarrow> uint64 list \<Rightarrow> string option" where
  "nextCursor W m ids = (if 0 < m \<and> m < length ids then Some (EncodeUint64 W (ids ! (m - 1))) else None)"

lemma fetch_store:
  assumes r: "blockRep L U s n T"
  shows "T a = Some (i, e) \<Longrightarrow> fetchEntityData W L (storeBackend L s) n a incl = Inr (entityData W L incl e)"
    and "T a = None \<Longrightarrow> fetchEntityData W L (storeBackend L s) n a incl = Inl (Errorf ''entity not found: %s'')"
proof -
  show "T a = Some (i, e) \<Longrightarrow> fetchEntityData W L (storeBackend L s) n a incl = Inr (entityData W L incl e)"
    using GetEntity_table(2)[OF r, of a i e] by (auto simp: fetchEntityData_def storeBackend_def)
  show "T a = None \<Longrightarrow> fetchEntityData W L (storeBackend L s) n a incl = Inl (Errorf ''entity not found: %s'')"
    using GetEntity_table(4)[OF r, of a] by (simp add: fetchEntityData_def storeBackend_def)
qed

lemma fetchOk_store:
  assumes "blockRep L U s n T"
  shows "fetchOk W L (storeBackend L s) n incl"
  unfolding fetchOk_def
proof (intro allI)
  fix a p show "fetchEntityData W L (storeBackend L s) n a incl \<noteq> Inl (Panic p)"
    using fetch_store[OF assms, where W = W and incl = incl and a = a] by (cases "T a") auto
qed

lemma map_filter_total:
  assumes "\<And>x. x \<in> set xs \<Longrightarrow> \<exists>y. f x = Some y \<and> R x y"
  shows "length (List.map_filter f xs) = length xs \<and> list_all2 R xs (List.map_filter f xs)"
  using assms by (induction xs) (fastforce simp: List.map_filter_simps)+

lemma sorted_is_sorted_list_of_set: "sorted_wrt (<) xs \<Longrightarrow> xs = sorted_list_of_set (set xs)" for xs :: "uint64 list"
  by (metis sorted_list_of_set.idem_if_sorted_distinct strict_sorted_iff)

lemma Query_head:
  assumes ok: "lib_ok L" and w: "web_ok W" and h: "hash_ok L U H" and inv: "store_inv L U H s T n"
    and all: "pair ''$all'' ''true'' \<in> U"
    and ast: "Parse ParseString (unicodeToLower L) q = Inr ast" "astOk (\<lambda>t. pointTerm U t \<or> scanTerm t) ast"
    and at: "getAtBlock opts = 0" and cur: "getCursor W opts = Inr c"
  shows "\<exists>data. Query W ParseString L (storeBackend L s) q opts =
      Inr \<lparr>qrData = data, qrBlockNumber = headNumber s,
        qrCursor = nextCursor W (unat (getResultsPerPage opts)) (matching L T ast c)\<rparr> \<and>
    list_all2 (rendered W L (getIncludeData opts) T) (take (unat (getResultsPerPage opts)) (matching L T ast c)) data"
proof -
  have rep: "blockRep L U s 0 T" by (rule blockRep_head[OF ok all inv])
  have ro: "roaring_ok L" using ok by blast
  let ?f = "fetched W L (storeBackend L s) 0 (getIncludeData opts)"
  let ?m = "unat (getResultsPerPage opts)" and ?it = "matching L T ast c"
  obtain b where b: "Evaluate L (storeQuerier L s) 0 ast = Inr b"
    "bmSet L b = {i. \<exists>a e. T a = Some (i, e) \<and> satAST (allAnnotations L e) ast}"
    using Evaluate_head[OF ok h inv all ast(2)] by blast
  define ids where "ids = (case c of Some x \<Rightarrow> bmAnd L b (bmAddRange L (bmNew L) 0 x) | None \<Rightarrow> b)"
  have "bmSet L ids = {i. belowCursor c i \<and> (\<exists>a e. T a = Some (i, e) \<and> satAST (allAnnotations L e) ast)}"
    unfolding ids_def by (cases c) (auto simp: bmSet_simps[OF ro] b(2) belowCursor_def)
  then have it: "rev (bmToArray L ids) = ?it"
    using sorted_is_sorted_list_of_set[OF bmToArray_sorted[OF ro, of ids]] by (simp add: matching_def bmSet_def)
  have fin: "finite {i. belowCursor c i \<and> (\<exists>a e. T a = Some (i, e) \<and> satAST (allAnnotations L e) ast)}"
    by (rule finite)
  have f: "\<exists>d. ?f i = Some d \<and> rendered W L (getIncludeData opts) T i d" if "i \<in> set ?it" for i
  proof -
    from that fin obtain a e where e: "T a = Some (i, e)" by (auto simp: matching_def)
    obtain d where d: "MarshalEntityData W (entityData W L (getIncludeData opts) e) = Inr d"
      using w unfolding web_ok_def by blast
    have "beIDToAddress (storeBackend L s) i = Some a"
      using IDToAddress_table[OF inv e] by (simp add: storeBackend_def)
    with e d show ?thesis
      by (intro exI[of _ d]) (auto simp: fetched_def fetch_store(1)[OF rep e] rendered_def)
  qed
  have m200: "getResultsPerPage opts \<le> 200"
    by (auto simp: getResultsPerPage_def queryResultCountLimit_def split: option.split)
  have "length ([] :: bytes list) \<le> ?m" by simp
  note loop = queryLoop_prefix[OF w fetchOk_store[OF rep, of W "getIncludeData opts"] m200 this, where it = ?it and l = None,
      unfolded append_Nil]
  obtain k where k: "k \<le> length ?it"
    "queryLoop W L (storeBackend L s) 0 (getIncludeData opts) (getResultsPerPage opts) ?it (None, []) =
      Inr (drop k ?it, if k = 0 then None else Some (?it ! (k - 1)), List.map_filter ?f (take k ?it))"
    "length (List.map_filter ?f (take k ?it)) \<le> ?m"
    "drop k ?it = [] \<or> length (List.map_filter ?f (take k ?it)) = ?m"
    using loop by blast
  have tot: "length (List.map_filter ?f (take k ?it)) = length (take k ?it) \<and>
      list_all2 (rendered W L (getIncludeData opts) T) (take k ?it) (List.map_filter ?f (take k ?it))"
    by (rule map_filter_total) (use f in \<open>blast dest: in_set_takeD\<close>)
  have km: "k = min ?m (length ?it)" using k(1,3,4) tot by auto
  have cursor: "(case (if k = 0 then None else Some (?it ! (k - 1))) of
      Some i \<Rightarrow> if drop k ?it \<noteq> [] then Some (EncodeUint64 W i) else None | None \<Rightarrow> None) = nextCursor W ?m ?it"
    unfolding km nextCursor_def by (auto simp: min_def)
  have "take k ?it = take ?m ?it" unfolding km by (simp add: min_def)
  with tot have "list_all2 (rendered W L (getIncludeData opts) T) (take ?m ?it) (List.map_filter ?f (take k ?it))" by simp
  moreover have "Query W ParseString L (storeBackend L s) q opts =
      Inr \<lparr>qrData = List.map_filter ?f (take k ?it), qrBlockNumber = headNumber s, qrCursor = nextCursor W ?m ?it\<rparr>"
  proof -
    have be: "beQuerier (storeBackend L s) = storeQuerier L s" "beHeadNumber (storeBackend L s) = headNumber s"
      by (simp_all add: storeBackend_def HeadNumber_def)
    show ?thesis
      by (simp add: Query_def ast(1) at cur be b(1) ids_def[symmetric] it k(2) cursor Let_def)
  qed
  ultimately show ?thesis by blast
qed

text \<open>The page after a cursor continues where the page that returned it ended.\<close>

lemma matching_strict: "sorted_wrt (>) (matching L T ast c)"
  by (simp add: matching_def sorted_wrt_rev)

lemma filter_less_drop:
  fixes xs :: "uint64 list"
  assumes "sorted_wrt (>) xs" "0 < m" "m \<le> length xs"
  shows "filter (\<lambda>i. i < xs ! (m - 1)) xs = drop m xs"
proof -
  have s: "sorted_wrt (>) (take m xs @ drop m xs)" using assms(1) by simp
  have l: "xs ! (m - 1) \<le> y" if y: "y \<in> set (take m xs)" for y
  proof -
    obtain j where j: "j < m" "y = xs ! j" using y assms(3) by (auto simp: in_set_conv_nth)
    show ?thesis
    proof (cases "j = m - 1")
      case False
      with j(1) assms have "j < m - 1" "m - 1 < length xs" by linarith+
      from sorted_wrt_nth_less[OF assms(1) this] j(2) show ?thesis by simp
    qed (simp add: j)
  qed
  have "z < xs ! (m - 1)" if "z \<in> set (drop m xs)" for z
  proof -
    have "xs ! (m - 1) \<in> set (take m xs)" using assms by (auto simp: in_set_conv_nth intro!: exI[of _ "m - 1"])
    then show ?thesis using s that by (simp only: sorted_wrt_append)
  qed
  then have "filter (\<lambda>i. i < xs ! (m - 1)) (take m xs @ drop m xs) = drop m xs"
    using l by (simp only: filter_append) (auto simp: filter_empty_conv linorder_not_less intro!: filter_True)
  then show ?thesis by simp
qed

lemma matching_next:
  assumes "0 < m" "m \<le> length (matching L T ast c)"
  shows "matching L T ast (Some (matching L T ast c ! (m - 1))) = drop m (matching L T ast c)"
proof -
  let ?ids = "matching L T ast c"
  let ?x = "?ids ! (m - 1)"
  define M where "M = {i. belowCursor c i \<and> (\<exists>a e. T a = Some (i, e) \<and> satAST (allAnnotations L e) ast)}"
  have ids: "?ids = rev (sorted_list_of_set M)" by (simp add: matching_def M_def)
  have "?x \<in> set ?ids" using assms by (intro nth_mem) simp
  then have x: "belowCursor c ?x" by (simp add: ids M_def)
  have "matching L T ast (Some ?x) = rev (sorted_list_of_set {i \<in> M. i < ?x})"
  proof -
    have "i < ?x \<Longrightarrow> belowCursor c i" for i using x by (cases c) (auto simp: belowCursor_def)
    then have "{i. belowCursor (Some ?x) i \<and> (\<exists>a e. T a = Some (i, e) \<and> satAST (allAnnotations L e) ast)} = {i \<in> M. i < ?x}"
      by (auto simp: belowCursor_def M_def)
    then show ?thesis by (simp add: matching_def)
  qed
  also have "sorted_list_of_set {i \<in> M. i < ?x} = filter (\<lambda>i. i < ?x) (sorted_list_of_set M)"
    using sorted_is_sorted_list_of_set[of "filter (\<lambda>i. i < ?x) (sorted_list_of_set M)"]
    by (simp add: sorted_wrt_filter)
  also have "rev (filter (\<lambda>i. i < ?x) (sorted_list_of_set M)) = filter (\<lambda>i. i < ?x) ?ids"
    by (simp add: ids rev_filter)
  finally show ?thesis using filter_less_drop[OF matching_strict assms] by simp
qed

section \<open>Other methods\<close>

lemma GetEntityCount_store:
  assumes r: "blockRep L U s 0 T"
  shows "GetEntityCount L (storeBackend L s) = Inr (word_of_nat (card (dom T)))"
proof -
  have ro: "roaring_ok L" and all: "pair ''$all'' ''true'' \<in> U" using r by (auto simp: blockRep_def)
  obtain b where b: "ReadAnnotBitmap L s 0 ''$all'' ''true'' = Inr b" "bmSet L b = Domain (tableRel L T)"
    using ReadAnnotBitmap_set[OF r all] by (auto simp: collect_all)
  have "length (bmToArray L b) = card (bmSet L b)"
    using bmToArray_sorted[OF ro, of b] by (simp add: bmSet_def strict_sorted_iff distinct_card)
  also have "bmSet L b = (\<lambda>a. fst (the (T a))) ` dom T"
    unfolding b(2) tableRel_def by (force simp: image_iff dom_def)
  also have "card \<dots> = card (dom T)"
  proof (rule card_image, rule inj_onI)
    fix a b assume "a \<in> dom T" "b \<in> dom T" "fst (the (T a)) = fst (the (T b))"
    then obtain i e f where "T a = Some (i, e)" "T b = Some (i, f)" by auto
    then show "a = b" using blockRep_table[OF r] unfolding table_ok_def by blast
  qed
  finally show ?thesis
    by (simp add: GetEntityCount_def storeBackend_def storeQuerier_def AllEntities_def b(1))
qed

lemma GetEntityByAddress_store:
  assumes r: "blockRep L U s (getAtBlock opts) T"
  shows "T a = Some (i, e) \<Longrightarrow>
      GetEntityByAddress W L (storeBackend L s) a opts = Inr (entityData W L (getIncludeData opts) e)"
    and "T a = None \<Longrightarrow>
      GetEntityByAddress W L (storeBackend L s) a opts = Inl (Errorf ''entity not found: %s'')"
  by (simp_all add: GetEntityByAddress_def fetch_store[OF r])

end
