(* ===== verification/Chain_Server.thy ===== *)
theory Chain_Server
  imports Revert_Correct
begin

text \<open>
  The chain ingest API (\<open>chain/server.go\<close>, \<open>chain/types.go\<close>): the three methods the execution client
  calls. Each returns its response and the store afterwards. Blocks are committed one by one, so a
  request that fails part way leaves the store after the blocks before the one that failed.
\<close>

section \<open>Requests and responses\<close>

record CommitChainRequest =
  ccBlocks :: "ArkivBlock list"

record RevertRequest =
  rvBlocks :: "ArkivBlockRef list"

record ReorgRequest =
  rgRevertedBlocks :: "ArkivBlockRef list"
  rgNewBlocks :: "ArkivBlock list"

record StateRootResponse =
  srStateRoot :: hash

section \<open>The methods\<close>

text \<open>The loop carries the state root of the last block, the zero hash before the first.\<close>

fun commitBlocks ::
    "('db, 'bm, 'sdb) lib \<Rightarrow> 'db Store \<Rightarrow> hash \<Rightarrow> ArkivBlock list \<Rightarrow> hash res \<times> 'db Store" where
  "commitBlocks L s stateRoot [] = (Inr stateRoot, s)"
| "commitBlocks L s stateRoot (block # blocks) =
     (case ProcessBlock L s block of
        (Inl e, s') \<Rightarrow> (Inl (wrapE ''process block %d'' e), s')
      | (Inr root, s') \<Rightarrow> commitBlocks L s' root blocks)"

definition response :: "hash res \<Rightarrow> StateRootResponse res" where
  "response r = andThen r (\<lambda>root. Inr \<lparr>srStateRoot = root\<rparr>)"

definition CommitChain ::
    "('db, 'bm, 'sdb) lib \<Rightarrow> 'db Store \<Rightarrow> CommitChainRequest \<Rightarrow> StateRootResponse res \<times> 'db Store" where
  "CommitChain L s req = (case commitBlocks L s 0 (ccBlocks req) of (r, s') \<Rightarrow> (response r, s'))"

definition Revert ::
    "('db, 'bm, 'sdb) lib \<Rightarrow> 'db Store \<Rightarrow> RevertRequest \<Rightarrow> StateRootResponse res \<times> 'db Store" where
  "Revert L s req = (case RevertBlocks L s (rvBlocks req) of (r, s') \<Rightarrow> (response r, s'))"

definition ReorgChain ::
    "('db, 'bm, 'sdb) lib \<Rightarrow> 'db Store \<Rightarrow> ReorgRequest \<Rightarrow> StateRootResponse res \<times> 'db Store" where
  "ReorgChain L s req = (case Reorg L s (rgRevertedBlocks req) (rgNewBlocks req) of (r, s') \<Rightarrow> (response r, s'))"

section \<open>Chains of blocks\<close>

lemma response_Inl: "response r = Inl e \<longleftrightarrow> r = Inl e"
  by (cases r) (auto simp: response_def)

lemma ProcessBlock_cases:
  "ProcessBlock L s block = (case processBlock L s block of Inl e \<Rightarrow> (Inl e, s) | Inr (root, s') \<Rightarrow> (Inr root, s'))"
  by (simp add: ProcessBlock_def)

text \<open>What is specified of a chain of blocks, and what is asked of it.\<close>

definition absChain :: "('db, 'bm, 'sdb) lib \<Rightarrow> ArkivBlock list \<Rightarrow> astate \<Rightarrow> astate option" where
  "absChain L = absFold (absBlock L)"

fun chain_ok ::
    "('db, 'bm, 'sdb) lib \<Rightarrow> annotPair set \<Rightarrow> bytes set \<Rightarrow> 'db Store \<Rightarrow> ArkivBlock list \<Rightarrow> astate \<Rightarrow> bool" where
  "chain_ok L U H s [] st = True"
| "chain_ok L U H s (block # blocks) st \<longleftrightarrow>
     block_ok L U block st \<and> blobs_in L H s block \<and>
     (case absBlock L block st of None \<Rightarrow> True
      | Some st' \<Rightarrow> (case processBlock L s block of Inl _ \<Rightarrow> True
        | Inr (root, s') \<Rightarrow> chain_ok L U H s' blocks st'))"

text \<open>
  The blocks before the first one that the specification rejects are committed, and no more; when it
  rejects none, all are.
\<close>

lemma commitBlocks_refines:
  assumes ok: "lib_ok L" and io: "io_ok L" and h: "hash_ok L U H"
    and inv: "store_inv L U H s T n" and c: "chain_ok L U H s blocks (T, n)"
  shows "case absChain L blocks (T, n) of
      Some (T', n') \<Rightarrow> \<exists>r s'. commitBlocks L s root blocks = (Inr r, s') \<and> store_inv L U H s' T' n'
    | None \<Rightarrow> \<exists>e s' before block rest T' n'. commitBlocks L s root blocks = (Inl e, s') \<and>
        blocks = before @ block # rest \<and> absChain L before (T, n) = Some (T', n') \<and>
        absBlock L block (T', n') = None \<and> store_inv L U H s' T' n'"
  using inv c
proof (induction blocks arbitrary: s T n root)
  case Nil
  then show ?case by (simp add: absChain_def)
next
  case (Cons block blocks)
  have b: "block_ok L U block (T, n)" and bl: "blobs_in L H s block" using Cons.prems(2) by simp_all
  show ?case
  proof (cases "absBlock L block (T, n)")
    case None
    obtain e where "processBlock L s block = Inl e"
      using processBlock_error[OF ok h Cons.prems(1) b None] by blast
    with None Cons.prems(1) show ?thesis
      by (auto simp: absChain_def ProcessBlock_def intro!: exI[of _ "[]"])
  next
    case (Some st)
    obtain T1 n1 where st: "st = (T1, n1)" by (cases st)
    obtain r s1 where p: "processBlock L s block = Inr (r, s1)"
      using processBlock_returns[OF ok io h Cons.prems(1) b Some[unfolded st] bl] by blast
    have i1: "store_inv L U H s1 T1 n1"
      by (rule processBlock_commits(1)[OF ok h Cons.prems(1) b Some[unfolded st] bl p])
    have c1: "chain_ok L U H s1 blocks (T1, n1)" using Cons.prems(2) Some st p by simp
    have chain: "absChain L (block # blocks) (T, n) = absChain L blocks (T1, n1)"
      using Some st by (simp add: absChain_def)
    have run: "commitBlocks L s root (block # blocks) = commitBlocks L s1 r blocks"
      using p by (simp add: ProcessBlock_def)
    show ?thesis
    proof (cases "absChain L blocks (T1, n1)")
      case None
      with Cons.IH[OF i1 c1, of r] obtain e s' before blk rest T' n' where
        x: "commitBlocks L s1 r blocks = (Inl e, s')" "blocks = before @ blk # rest"
        "absChain L before (T1, n1) = Some (T', n')" "absBlock L blk (T', n') = None" "store_inv L U H s' T' n'"
        by auto
      have "block # blocks = (block # before) @ blk # rest" using x(2) by simp
      moreover have "absChain L (block # before) (T, n) = Some (T', n')"
        using Some st x(3) by (simp add: absChain_def)
      moreover have "commitBlocks L s root (block # blocks) = (Inl e, s')" using run x(1) by simp
      ultimately show ?thesis using None x(4,5) unfolding chain by (simp only: option.case) blast
    next
      case (Some st')
      with Cons.IH[OF i1 c1, of r] chain run show ?thesis by (cases st') auto
    qed
  qed
qed

text \<open>Without any assumption: an error leaves the store after the blocks before the one that failed.\<close>

lemma commitBlocks_error:
  "commitBlocks L s root blocks = (Inl e, s') \<Longrightarrow>
    \<exists>before block rest r e'. blocks = before @ block # rest \<and> commitBlocks L s root before = (Inr r, s') \<and>
      processBlock L s' block = Inl e' \<and> e = wrapE ''process block %d'' e'"
proof (induction blocks arbitrary: s root)
  case (Cons block blocks)
  show ?case
  proof (cases "processBlock L s block")
    case (Inl e')
    with Cons.prems show ?thesis by (auto simp: ProcessBlock_def intro!: exI[of _ "[]"])
  next
    case (Inr x)
    obtain r1 s1 where x: "x = (r1, s1)" by (cases x)
    with Inr Cons.prems have "commitBlocks L s1 r1 blocks = (Inl e, s')" by (simp add: ProcessBlock_def)
    from Cons.IH[OF this] obtain before blk rest r e' where y: "blocks = before @ blk # rest"
      "commitBlocks L s1 r1 before = (Inr r, s')" "processBlock L s' blk = Inl e'" "e = wrapE ''process block %d'' e'"
      by blast
    have "block # blocks = (block # before) @ blk # rest" "commitBlocks L s root (block # before) = (Inr r, s')"
      using y(1,2) Inr x by (simp_all add: ProcessBlock_def)
    with y(3,4) show ?thesis by blast
  qed
qed simp

lemma reorgApply_error:
  "reorgApply L s blocks = (Inl e, s') \<Longrightarrow>
    \<exists>before block rest r e'. blocks = before @ block # rest \<and> commitBlocks L s root before = (Inr r, s') \<and>
      processBlock L s' block = Inl e' \<and> e = wrapE ''new block %d'' e'"
proof (induction blocks arbitrary: s root)
  case (Cons block blocks)
  show ?case
  proof (cases "processBlock L s block")
    case (Inl e')
    with Cons.prems show ?thesis by (auto intro!: exI[of _ "[]"])
  next
    case (Inr x)
    obtain r1 s1 where x: "x = (r1, s1)" by (cases x)
    with Inr Cons.prems have "reorgApply L s1 blocks = (Inl e, s')" by simp
    from Cons.IH[OF this, of r1] obtain before blk rest r e' where y: "blocks = before @ blk # rest"
      "commitBlocks L s1 r1 before = (Inr r, s')" "processBlock L s' blk = Inl e'" "e = wrapE ''new block %d'' e'"
      by blast
    have "block # blocks = (block # before) @ blk # rest" "commitBlocks L s root (block # before) = (Inr r, s')"
      using y(1,2) Inr x by (simp_all add: ProcessBlock_def)
    with y(3,4) show ?thesis by blast
  qed
qed simp

lemma reorgApply_commitBlocks:
  "reorgApply L s blocks = (Inr r, s') \<Longrightarrow>
    commitBlocks L s (headRoot s) blocks = (Inr (headRoot s'), s') \<and> r = headRoot s'"
proof (induction blocks arbitrary: s)
  case (Cons block blocks)
  then obtain r1 s1 where p: "processBlock L s block = Inr (r1, s1)" "reorgApply L s1 blocks = (Inr r, s')"
    by (auto split: sum.splits)
  have "headRoot s1 = r1" using p(1) by (auto simp: processBlock_def andThen_eq_Inr)
  with Cons.IH[OF p(2)] p(1) show ?case by (simp add: ProcessBlock_def)
qed auto

end
