(* ===== verification/Chain_History.thy ===== *)
theory Chain_History
  imports Query_Pages Chain_Server
begin

text \<open>
  What a chain of blocks leaves to be read: the state of every block processed stays readable under its
  number, and reverting the newest block undoes it.
\<close>

section \<open>Undoing a block\<close>

text \<open>The root index leads from the hash of the head to its root, as reverting to the head relies on.\<close>

definition head_indexed :: "('db, 'bm, 'sdb) lib \<Rightarrow> 'db Store \<Rightarrow> bool" where
  "head_indexed L s \<longleftrightarrow> ancestorRootOf L (rd L (rawDB s)) (headHash s) = headRoot s"

lemma head_indexed_New:
  assumes "rd L db = Map.empty"
  shows "head_indexed L (New L db)"
proof -
  obtain er where "dbGet L db headKey = Inl er"
    using fun_cong[OF assms, of headKey] by (auto simp: rd_def okOption_eq_None)
  then show ?thesis by (simp add: head_indexed_def ancestorRootOf_def New_def assms)
qed

lemma processBlock_indexed:
  assumes ok: "lib_ok L" and h: "hash_ok L U H" and inv: "store_inv L U H s T n"
    and b: "block_ok L U block (T, n)" and a: "absBlock L block (T, n) = Some (T', n')"
    and bl: "blobs_in L H s block" and r: "processBlock L s block = Inr (root, s')"
  shows "head_indexed L s'"
proof -
  note c = processBlock_commits[OF ok h inv b a bl r]
  have "rd L (rawDB s') (rootKey (Hash (Header block))) = Some (hashBytes root)"
    using c(7)[of "rootKey (Hash (Header block))"] by (simp add: blockWrites_def)
  then show ?thesis by (simp add: head_indexed_def ancestorRootOf_def c(3,4))
qed

text \<open>Processing a block on top of the head and reverting it brings the store back to the table before it.\<close>

lemma undo_block:
  assumes ok: "lib_ok L" and io: "io_ok L" and h: "hash_ok L U H" and inv: "store_inv L U H s T n"
    and b: "block_ok L U block (T, n)" and a: "absBlock L block (T, n) = Some (T', n')"
    and bl: "blobs_in L H s block" and r: "processBlock L s block = Inr (root, s')"
    and ix: "head_indexed L s" and child: "ParentHash (Header block) = headHash s" "Hash (Header block) \<noteq> headHash s"
    and ids: "ids_current (rd L (rawDB s')) T"
    and ref: "ref = \<lparr>refNumber = Number (Header block), refHash = Hash (Header block)\<rparr>"
  shows "\<exists>s''. revertToAncestor L s' [ref] = Inr s'' \<and> store_inv L U H s'' T n \<and>
    headRoot s'' = headRoot s \<and> headHash s'' = headHash s \<and> head_ok L s''"
proof -
  note c = processBlock_commits[OF ok h inv b a bl r]
  let ?g = "rd L (rawDB s')"
  have p: "?g (parentKey (refHash (last [ref]))) = Some (hashBytes (headHash s))"
    using c(7)[of "parentKey (Hash (Header block))"] by (simp add: blockWrites_def ref child(1))
  have "?g (rootKey (headHash s)) = rd L (rawDB s) (rootKey (headHash s))"
    using c(7)[of "rootKey (headHash s)"] child(2) by (auto simp: blockWrites_def)
  then have anc: "ancestorRootOf L ?g (headHash s) = headRoot s"
    using ix by (simp add: head_indexed_def ancestorRootOf_def)
  have root: "root_ok L U ?g (headRoot s) T n"
    by (rule root_ok_mono[OF ok store_inv_root_ok[OF inv] processBlock_histLe[OF ok h inv b a bl r]])
  have "\<exists>s''. revertToAncestor L s' [ref] = Inr s''"
  proof (rule revert_returns[OF ok io p])
    show "root_ok L U ?g (ancestorRootOf L ?g (BytesToHash (hashBytes (headHash s)))) T n"
      using root by (simp add: anc)
  qed simp
  then obtain s'' where s'': "revertToAncestor L s' [ref] = Inr s''" by blast
  have hd: "headRoot s'' = headRoot s \<and> headHash s'' = headHash s"
  proof (cases rule: revertToAncestor_view[OF lib_okD(1)[OF ok] s''])
    case (1 pb sdb ops)
    have "pb = hashBytes (headHash s)" using 1(2) p by simp
    then show ?thesis using 1(5,6) anc by (simp only: BytesToHash_hashBytes)
  qed
  have "store_inv L U H s'' T n"
    by (rule revert_restores[OF ok h c(1) s'' _ ids]) (simp only: hd root)
  moreover have "head_ok L s''" by (rule revert_head(1)[OF ok h c(1) s''])
  ultimately show ?thesis using s'' hd by blast
qed

section \<open>Reading past states\<close>

lemma processBlock_readable:
  assumes ok: "lib_ok L" and h: "hash_ok L U H" and inv: "store_inv L U H s T n"
    and b: "block_ok L U block (T, n)" and a: "absBlock L block (T, n) = Some (T', n')"
    and bl: "blobs_in L H s block" and r: "processBlock L s block = Inr (root, s')"
    and all: "pair ''$all'' ''true'' \<in> U" and nz: "Number (Header block) \<noteq> 0"
  shows "blockRep L U s' (Number (Header block)) T'"
proof -
  note c = processBlock_commits[OF ok h inv b a bl r]
  have "rd L (rawDB s') (blockNumberKey (Number (Header block))) = Some (hashBytes (Hash (Header block)))"
    "rd L (rawDB s') (rootKey (Hash (Header block))) = Some (hashBytes root)"
    using c(7)[of "blockNumberKey (Number (Header block))"] c(7)[of "rootKey (Hash (Header block))"]
    by (simp_all add: blockWrites_def)
  then have "rootAt L s' (Number (Header block)) root" by (simp add: rootAt_def nz)
  then show ?thesis using store_inv_root_ok[OF c(1)] by (auto simp: blockRep_def ok all c(3))
qed

text \<open>The state at an earlier block stays readable, unless the new block takes over its number or hash.\<close>

lemma processBlock_keeps_past:
  assumes ok: "lib_ok L" and h: "hash_ok L U H" and inv: "store_inv L U H s T n"
    and b: "block_ok L U block (T, n)" and a: "absBlock L block (T, n) = Some (T', n')"
    and bl: "blobs_in L H s block" and r: "processBlock L s block = Inr (root, s')"
    and past: "blockRep L U s m Tm" "m \<noteq> 0" "m \<noteq> Number (Header block)"
    and hash: "\<forall>hb. rd L (rawDB s) (blockNumberKey m) = Some hb \<longrightarrow> BytesToHash hb \<noteq> Hash (Header block)"
  shows "blockRep L U s' m Tm"
proof -
  note c = processBlock_commits[OF ok h inv b a bl r]
  obtain rt k hb rb where rt: "rd L (rawDB s) (blockNumberKey m) = Some hb"
    "rd L (rawDB s) (rootKey (BytesToHash hb)) = Some rb" "rt = BytesToHash rb"
    "root_ok L U (rd L (rawDB s)) rt Tm k" and all: "pair ''$all'' ''true'' \<in> U"
    using past(1,2) by (auto simp: blockRep_def rootAt_def)
  have "BytesToHash hb \<noteq> Hash (Header block)"
    using hash rt(1) by blast
  then have "rd L (rawDB s') (blockNumberKey m) = Some hb" "rd L (rawDB s') (rootKey (BytesToHash hb)) = Some rb"
    using c(7)[of "blockNumberKey m"] c(7)[of "rootKey (BytesToHash hb)"] rt(1,2) past(3)
    by (auto simp: blockWrites_def)
  then have "rootAt L s' m rt" using past(2) rt(3) by (simp add: rootAt_def)
  moreover have "root_ok L U (rd L (rawDB s')) rt Tm k"
    by (rule root_ok_mono[OF ok rt(4) processBlock_histLe[OF ok h inv b a bl r]])
  ultimately show ?thesis using ok all by (auto simp: blockRep_def)
qed

section \<open>Histories of chains\<close>

text \<open>A block is on record when its number leads to its hash and to the table after it.\<close>

definition recorded ::
    "('db, 'bm, 'sdb) lib \<Rightarrow> annotPair set \<Rightarrow> 'db Store \<Rightarrow> ArkivBlock \<Rightarrow> table \<Rightarrow> bool" where
  "recorded L U s block T \<longleftrightarrow> blockRep L U s (Number (Header block)) T \<and> Number (Header block) \<noteq> 0 \<and>
     rd L (rawDB s) (blockNumberKey (Number (Header block))) = Some (hashBytes (Hash (Header block)))"

definition apart :: "ArkivBlock \<Rightarrow> ArkivBlock \<Rightarrow> bool" where
  "apart b c \<longleftrightarrow> Number (Header b) \<noteq> Number (Header c) \<and> Hash (Header b) \<noteq> Hash (Header c)"

lemma recorded_new:
  assumes ok: "lib_ok L" and h: "hash_ok L U H" and inv: "store_inv L U H s T n"
    and b: "block_ok L U block (T, n)" and a: "absBlock L block (T, n) = Some (T', n')"
    and bl: "blobs_in L H s block" and r: "processBlock L s block = Inr (root, s')"
    and all: "pair ''$all'' ''true'' \<in> U" and nz: "Number (Header block) \<noteq> 0"
  shows "recorded L U s' block T'"
  using processBlock_readable[OF ok h inv b a bl r all nz] nz
    processBlock_commits(7)[OF ok h inv b a bl r, of "blockNumberKey (Number (Header block))"]
  by (simp add: recorded_def blockWrites_def)

lemma recorded_keep:
  assumes ok: "lib_ok L" and h: "hash_ok L U H" and inv: "store_inv L U H s T n"
    and b: "block_ok L U block (T, n)" and a: "absBlock L block (T, n) = Some (T', n')"
    and bl: "blobs_in L H s block" and r: "processBlock L s block = Inr (root, s')"
    and old: "recorded L U s old To" "apart old block"
  shows "recorded L U s' old To"
proof -
  have "blockRep L U s' (Number (Header old)) To"
    by (rule processBlock_keeps_past[OF ok h inv b a bl r])
      (use old in \<open>simp_all add: recorded_def apart_def\<close>)
  then show ?thesis
    using old processBlock_commits(7)[OF ok h inv b a bl r, of "blockNumberKey (Number (Header old))"]
    by (simp add: recorded_def apart_def blockWrites_def)
qed

text \<open>What a chain that was committed looks like after its first block.\<close>

lemma commitBlocks_step:
  assumes ok: "lib_ok L" and io: "io_ok L" and h: "hash_ok L U H" and inv: "store_inv L U H s T n"
    and c: "chain_ok L U H s (block # blocks) (T, n)" and a: "absChain L (block # blocks) (T, n) = Some st"
  obtains root s1 T1 n1 where "absBlock L block (T, n) = Some (T1, n1)" "processBlock L s block = Inr (root, s1)"
    "store_inv L U H s1 T1 n1" "chain_ok L U H s1 blocks (T1, n1)" "absChain L blocks (T1, n1) = Some st"
    "\<And>r. commitBlocks L s r (block # blocks) = commitBlocks L s1 root blocks"
proof -
  have b: "block_ok L U block (T, n)" "blobs_in L H s block" using c by simp_all
  obtain T1 n1 where a1: "absBlock L block (T, n) = Some (T1, n1)" "absChain L blocks (T1, n1) = Some st"
    using a by (auto simp: absChain_def split: option.splits)
  obtain root s1 where p: "processBlock L s block = Inr (root, s1)"
    using processBlock_returns[OF ok io h inv b(1) a1(1) b(2)] by blast
  have i: "store_inv L U H s1 T1 n1" by (rule processBlock_commits(1)[OF ok h inv b(1) a1(1) b(2) p])
  have "chain_ok L U H s1 blocks (T1, n1)" using c a1(1) p by simp
  with that[OF a1(1) p i _ a1(2)] p show thesis by (simp add: ProcessBlock_def)
qed

lemma commitBlocks_keep:
  assumes ok: "lib_ok L" and io: "io_ok L" and h: "hash_ok L U H"
  shows "store_inv L U H s T n \<Longrightarrow> chain_ok L U H s blocks (T, n) \<Longrightarrow> absChain L blocks (T, n) = Some st \<Longrightarrow>
    recorded L U s old To \<Longrightarrow> (\<forall>b \<in> set blocks. apart old b) \<Longrightarrow>
    recorded L U (snd (commitBlocks L s root blocks)) old To"
proof (induction blocks arbitrary: s T n root)
  case (Cons block blocks)
  show ?case
  proof (cases rule: commitBlocks_step[OF ok io h Cons.prems(1-3)])
    case (1 root s1 T1 n1)
    have b: "block_ok L U block (T, n)" "blobs_in L H s block" using Cons.prems(2) by simp_all
    have "recorded L U s1 old To"
      using recorded_keep[OF ok h Cons.prems(1) b(1) 1(1) b(2) 1(2) Cons.prems(4)] Cons.prems(5) by simp
    from Cons.IH[OF 1(3-5) this] Cons.prems(5) show ?thesis by (simp only: 1(6)) simp
  qed
qed simp

text \<open>Every block of a committed chain is on record, with the table after it.\<close>

lemma commitBlocks_recorded:
  assumes ok: "lib_ok L" and io: "io_ok L" and h: "hash_ok L U H" and all: "pair ''$all'' ''true'' \<in> U"
  shows "store_inv L U H s T n \<Longrightarrow> chain_ok L U H s blocks (T, n) \<Longrightarrow> absChain L blocks (T, n) = Some st \<Longrightarrow>
    sorted_wrt apart blocks \<Longrightarrow> (\<forall>b \<in> set blocks. Number (Header b) \<noteq> 0) \<Longrightarrow> blocks = before @ block # rest \<Longrightarrow>
    \<exists>T' n'. absChain L (before @ [block]) (T, n) = Some (T', n') \<and>
      recorded L U (snd (commitBlocks L s root blocks)) block T'"
proof (induction before arbitrary: s T n root blocks)
  case Nil
  then have bs: "blocks = block # rest" by simp
  show ?case
  proof (cases rule: commitBlocks_step[OF ok io h Nil.prems(1-3)[unfolded bs]])
    case (1 root s1 T1 n1)
    have b: "block_ok L U block (T, n)" "blobs_in L H s block" using Nil.prems(2) bs by simp_all
    have "recorded L U s1 block T1"
      using recorded_new[OF ok h Nil.prems(1) b(1) 1(1) b(2) 1(2) all] Nil.prems(5) bs by simp
    from commitBlocks_keep[OF ok io h 1(3-5) this] Nil.prems(4) bs 1(6) 1(1)
    show ?thesis unfolding bs by (simp only: 1(6)) (simp add: absChain_def)
  qed
next
  case (Cons b0 before)
  then have bs: "blocks = b0 # (before @ block # rest)" by simp
  show ?case
  proof (cases rule: commitBlocks_step[OF ok io h Cons.prems(1-3)[unfolded bs]])
    case (1 root s1 T1 n1)
    have "sorted_wrt apart (before @ block # rest)" "\<forall>b \<in> set (before @ block # rest). Number (Header b) \<noteq> 0"
      using Cons.prems(4,5) bs by simp_all
    from Cons.IH[OF 1(3-5) this refl] show ?thesis
      unfolding bs using 1(1) by (simp only: 1(6)) (simp add: absChain_def)
  qed
qed

end
