(* ===== verification/Reference_Lib.thy ===== *)
theory Reference_Lib
  imports Arkiv_Lib "HOL-Library.Product_Lexorder"
begin

text \<open>
  A concrete library: every function the service calls, executable, with proofs that the laws assumed
  of the libraries hold of it together. It shows that the hypotheses of the theorems can be met, and
  the examples run on it. The database is an association list, a bitmap a list of numbers, and a state
  three association lists which a commit stores as one blob under its hash.
\<close>

section \<open>Hashing\<close>

text \<open>
  A byte string of at most 31 bytes is its own hash, behind a marker byte; the hash of a longer one is its
  first 20 bytes followed by its last 8, with the top bit set. A hash is thus never 0 and
  never starts with the letter \<open>a\<close>.
\<close>

definition lastBytes :: "bytes \<Rightarrow> bytes" where
  "lastBytes b = drop (length b - 8) b"

definition refKeccakNat :: "bytes \<Rightarrow> nat" where
  "refKeccakNat b = (if length b \<le> 31 then be_nat (CHR 0x01 # b)
     else 2 ^ 255 + be_nat (take 20 b) * 2 ^ 64 + be_nat (lastBytes b))"

definition refKeccak :: "bytes \<Rightarrow> hash" where
  "refKeccak b = word_of_nat (refKeccakNat b)"

lemma lastBytes_less: "be_nat (lastBytes b) < 2 ^ 64"
proof -
  have "be_nat (lastBytes b) < 256 ^ length (lastBytes b)" by (rule be_nat_less)
  also have "\<dots> \<le> 256 ^ 8" by (intro power_increasing) (auto simp: lastBytes_def)
  finally show ?thesis by simp
qed

lemma marked_less:
  assumes "length b \<le> 31"
  shows "be_nat (CHR 0x01 # b) < 2 * 256 ^ 31"
proof -
  have "(256 :: nat) ^ length b \<le> 256 ^ 31" using assms by (intro power_increasing) auto
  moreover have "be_nat (CHR 0x01 # b) < 2 * 256 ^ length b" using be_nat_less[of b] by (simp add: be_nat_Cons)
  ultimately show ?thesis by linarith
qed

lemma refKeccakNat_bounds: "0 < refKeccakNat b" "refKeccakNat b < 2 ^ 256"
proof -
  show "0 < refKeccakNat b"
    by (simp add: refKeccakNat_def be_nat_Cons)
  show "refKeccakNat b < 2 ^ 256"
  proof (cases "length b \<le> 31")
    case True
    then show ?thesis using marked_less[OF True] by (simp add: refKeccakNat_def)
  next
    case False
    then have "be_nat (take 20 b) < 256 ^ 20" using be_nat_less[of "take 20 b"] by simp
    with False show ?thesis using lastBytes_less[of b] by (simp add: refKeccakNat_def)
  qed
qed

lemma unat_refKeccak [simp]: "unat (refKeccak b) = refKeccakNat b"
proof -
  have "refKeccakNat b mod 2 ^ LENGTH(256) = refKeccakNat b" using refKeccakNat_bounds(2)[of b] by simp
  then show ?thesis by (simp add: refKeccak_def unat_of_nat)
qed

lemma refKeccak_eq_iff: "refKeccak b = refKeccak c \<longleftrightarrow> refKeccakNat b = refKeccakNat c"
  by (metis unat_refKeccak unsigned_word_eqI)

lemma refKeccak_neq_0 [simp]: "refKeccak b \<noteq> 0"
  using refKeccakNat_bounds(1)[of b] by (metis unat_0 unat_refKeccak less_irrefl)

lemma refKeccakNat_short: "length b \<le> 31 \<Longrightarrow> refKeccakNat b < 2 ^ 255"
  using marked_less[of b] by (simp add: refKeccakNat_def)

lemma refKeccak_inject_short:
  assumes "length b \<le> 31"
  shows "refKeccak b = refKeccak c \<longleftrightarrow> b = c"
proof (cases "length c \<le> 31")
  case True
  have "b = c" if eq: "be_nat (CHR 0x01 # b) = be_nat (CHR 0x01 # c)"
  proof -
    have low: "256 ^ length x \<le> be_nat (CHR 0x01 # x)" "be_nat (CHR 0x01 # x) < 256 ^ Suc (length x)" for x
      using be_nat_less[of "CHR 0x01 # x"] by (auto simp: be_nat_Cons)
    have "length b = length c"
    proof (rule ccontr)
      assume "length b \<noteq> length c"
      then consider "Suc (length b) \<le> length c" | "Suc (length c) \<le> length b" by linarith
      then show False
      proof cases
        case 1
        then have "(256 :: nat) ^ Suc (length b) \<le> 256 ^ length c" by (intro power_increasing) auto
        with low(2)[of b] low(1)[of c] eq show False by linarith
      next
        case 2
        then have "(256 :: nat) ^ Suc (length c) \<le> 256 ^ length b" by (intro power_increasing) auto
        with low(2)[of c] low(1)[of b] eq show False by linarith
      qed
    qed
    with eq have "length (CHR 0x01 # b) = length (CHR 0x01 # c)" "be_nat (CHR 0x01 # b) = be_nat (CHR 0x01 # c)"
      by simp_all
    then have "CHR 0x01 # b = CHR 0x01 # c" by (metis be_bytes_be_nat)
    then show ?thesis by simp
  qed
  with assms True show ?thesis by (auto simp: refKeccak_eq_iff refKeccakNat_def)
next
  case False
  then have "2 ^ 255 \<le> refKeccakNat c" by (simp add: refKeccakNat_def)
  then show ?thesis using refKeccakNat_short[OF assms] assms False by (auto simp: refKeccak_eq_iff)
qed

lemma refKeccak_inject_long:
  assumes "31 < length b" "31 < length c" "refKeccak b = refKeccak c"
  shows "take 20 b = take 20 c" "lastBytes b = lastBytes c"
proof -
  have eq: "be_nat (take 20 b) * 2 ^ 64 + be_nat (lastBytes b) = be_nat (take 20 c) * 2 ^ 64 + be_nat (lastBytes c)"
    using assms by (simp add: refKeccak_eq_iff refKeccakNat_def)
  then have "(be_nat (take 20 b) * 2 ^ 64 + be_nat (lastBytes b)) div 2 ^ 64 =
      (be_nat (take 20 c) * 2 ^ 64 + be_nat (lastBytes c)) div 2 ^ 64"
    by (rule arg_cong)
  then have n: "be_nat (take 20 b) = be_nat (take 20 c)"
    using lastBytes_less[of b] lastBytes_less[of c] by simp
  moreover have "length (take 20 b) = 20" "length (take 20 c) = 20" using assms by simp_all
  ultimately show "take 20 b = take 20 c" by (metis be_bytes_be_nat)
  have "be_nat (lastBytes b) = be_nat (lastBytes c)" using eq n by simp
  moreover have "length (lastBytes b) = 8" "length (lastBytes c) = 8" using assms by (simp_all add: lastBytes_def)
  ultimately show "lastBytes b = lastBytes c" by (metis be_bytes_be_nat)
qed

text \<open>A set whose long members differ within their first 20 or last 8 bytes is hashed without collision.\<close>

lemma inj_on_refKeccak:
  assumes "\<And>b c. b \<in> S \<Longrightarrow> c \<in> S \<Longrightarrow> 31 < length b \<Longrightarrow> 31 < length c \<Longrightarrow> take 20 b = take 20 c \<Longrightarrow>
    lastBytes b = lastBytes c \<Longrightarrow> b = c"
  shows "inj_on refKeccak S"
proof (rule inj_onI)
  fix b c assume bc: "b \<in> S" "c \<in> S" "refKeccak b = refKeccak c"
  show "b = c"
  proof (cases "length b \<le> 31 \<or> length c \<le> 31")
    case True
    with bc(3) show ?thesis using refKeccak_inject_short[of b c] refKeccak_inject_short[of c b] by auto
  next
    case False
    then have "31 < length b" "31 < length c" by auto
    with refKeccak_inject_long[OF this bc(3)] assms[OF bc(1,2)] show ?thesis by blast
  qed
qed

lemma not_arkivKey_refKeccak [simp]: "\<not> arkivKey (hashBytes (refKeccak b))"
proof
  assume "arkivKey (hashBytes (refKeccak b))"
  then obtain r where r: "hashBytes (refKeccak b) = CHR ''a'' # r" by (auto simp: arkivKey_def prefix_def)
  then have "length (CHR ''a'' # r) = 32" using length_hashBytes[of "refKeccak b"] by (simp only:)
  then have "length r = 31" by simp
  have "be_nat (hashBytes (refKeccak b)) = refKeccakNat b"
    using refKeccakNat_bounds(2)[of b] by (simp add: hashBytes_def be_nat_be_bytes)
  then have n: "refKeccakNat b = 97 * 256 ^ 31 + be_nat r" by (simp add: r be_nat_Cons \<open>length r = 31\<close>)
  have "be_nat r < 256 ^ 31" using be_nat_less[of r] \<open>length r = 31\<close> by simp
  with n have "97 * 256 ^ 31 \<le> refKeccakNat b" "refKeccakNat b < 98 * 256 ^ 31" by simp_all
  moreover have "refKeccakNat b < 2 * 256 ^ 31 \<or> 2 ^ 255 \<le> refKeccakNat b"
  proof (cases "length b \<le> 31")
    case True
    then show ?thesis using marked_less[OF True] by (simp add: refKeccakNat_def)
  qed (simp add: refKeccakNat_def)
  ultimately show False by simp
qed

section \<open>Lists of strings as a string\<close>

text \<open>A zero byte ends a string; the bytes 0 and 1 are escaped by a 1.\<close>

definition escByte :: "char \<Rightarrow> bytes" where
  "escByte c = (if c = CHR 0x00 \<or> c = CHR 0x01 then [CHR 0x01, c] else [c])"

definition encStrs :: "bytes list \<Rightarrow> bytes" where
  "encStrs ss = concat (map (\<lambda>s. concat (map escByte s) @ [CHR 0x00]) ss)"

fun decStrs :: "bytes \<Rightarrow> bytes \<Rightarrow> bytes list" where
  "decStrs acc [] = []"
| "decStrs acc (c # cs) =
     (if c = CHR 0x00 then rev acc # decStrs [] cs
      else if c = CHR 0x01 then (case cs of [] \<Rightarrow> [] | d # ds \<Rightarrow> decStrs (d # acc) ds)
      else decStrs (c # acc) cs)"

lemma decStrs_str: "decStrs acc (concat (map escByte s) @ CHR 0x00 # r) = (rev acc @ s) # decStrs [] r"
  by (induction s arbitrary: acc) (auto simp: escByte_def)

lemma decStrs_encStrs [simp]: "decStrs [] (encStrs ss) = ss"
  by (induction ss) (auto simp: encStrs_def decStrs_str)

text \<open>Leading zeros of a number are not stored.\<close>

definition strip :: "bytes \<Rightarrow> bytes" where
  "strip b = dropWhile (\<lambda>c. c = CHR 0x00) b"

lemma be_nat_strip [simp]: "be_nat (strip b) = be_nat b"
  by (induction b) (auto simp: strip_def be_nat_Cons)

lemma strip_roundtrips [simp]:
  "BytesToAddress (strip (addrBytes a)) = a" "bytesUint64 (strip (uint64Bytes n)) = n"
  "BytesToHash (strip (hashBytes h)) = h"
  using BytesToAddress_addrBytes[of a] bytesUint64_uint64Bytes[of n] BytesToHash_hashBytes[of h]
  by (simp_all add: BytesToAddress_def bytesUint64_def BytesToHash_def)

section \<open>Entities\<close>

definition refEncode :: "Entity \<Rightarrow> bytes res" where
  "refEncode e = Inr (encStrs
     [Payload e, addrBytes (Owner e), addrBytes (Creator e), uint64Bytes (ExpiresAt e),
      uint64Bytes (CreatedAtBlock e), uint64Bytes (LastModifiedAtBlock e),
      uint64Bytes (TransactionIndexInBlock e), uint64Bytes (OperationIndexInTransaction e),
      ContentType e, hashBytes (Key e),
      encStrs (concat (map (\<lambda>a. [saKey a, saValue a]) (StringAnnotations e))),
      encStrs (concat (map (\<lambda>a. [naKey a, uint64Bytes (naValue a)]) (NumericAnnotations e)))])"

fun decStringAnnots :: "bytes list \<Rightarrow> stringAnnot list" where
  "decStringAnnots (k # v # r) = \<lparr>saKey = k, saValue = v\<rparr> # decStringAnnots r"
| "decStringAnnots _ = []"

fun decNumericAnnots :: "bytes list \<Rightarrow> numericAnnot list" where
  "decNumericAnnots (k # v # r) = \<lparr>naKey = k, naValue = bytesUint64 v\<rparr> # decNumericAnnots r"
| "decNumericAnnots _ = []"

definition refDecode :: "bytes \<Rightarrow> Entity res" where
  "refDecode b = (case decStrs [] b of
     [p, ow, cr, ex, ca, lm, ti, oi, ct, k, sa, na] \<Rightarrow>
       Inr \<lparr>Payload = p, Owner = BytesToAddress ow, Creator = BytesToAddress cr, ExpiresAt = bytesUint64 ex,
            CreatedAtBlock = bytesUint64 ca, LastModifiedAtBlock = bytesUint64 lm,
            TransactionIndexInBlock = bytesUint64 ti, OperationIndexInTransaction = bytesUint64 oi,
            ContentType = ct, Key = BytesToHash k, StringAnnotations = decStringAnnots (decStrs [] sa),
            NumericAnnotations = decNumericAnnots (decStrs [] na)\<rparr>
   | _ \<Rightarrow> Inl (LibErr ''rlp''))"

lemma decStringAnnots_enc [simp]:
  "decStringAnnots (concat (map (\<lambda>a. [saKey a, saValue a]) as)) = as"
  by (induction as) auto

lemma decNumericAnnots_enc [simp]:
  "decNumericAnnots (concat (map (\<lambda>a. [naKey a, uint64Bytes (naValue a)]) as)) = as"
  by (induction as) auto

lemma refDecode_refEncode: "\<exists>bs. refEncode e = Inr bs \<and> bs \<noteq> [] \<and> refDecode bs = Inr e"
proof (intro exI conjI)
  show "refEncode e = Inr (projr (refEncode e))" by (simp add: refEncode_def)
  show "projr (refEncode e) \<noteq> []" by (simp add: refEncode_def encStrs_def)
  show "refDecode (projr (refEncode e)) = Inr e" by (simp add: refEncode_def refDecode_def)
qed

section \<open>States\<close>

record refState =
  rsNonce :: "(address \<times> uint64) list"
  rsCode :: "(address \<times> bytes) list"
  rsSlot :: "((address \<times> hash) \<times> hash) list"

text \<open>Entries are kept in the order of their keys, so that a state does not depend on the order of its writes.\<close>

fun putSorted :: "'k :: linorder \<Rightarrow> 'v \<Rightarrow> ('k \<times> 'v) list \<Rightarrow> ('k \<times> 'v) list" where
  "putSorted k v [] = [(k, v)]"
| "putSorted k v ((k', v') # al) =
     (if k' = k then (k, v) # al else if k < k' then (k, v) # (k', v') # al else (k', v') # putSorted k v al)"

lemma map_of_putSorted [simp]: "map_of (putSorted k v al) = (map_of al)(k \<mapsto> v)"
  by (induction k v al rule: putSorted.induct) auto

lemma putSorted_commute: "k \<noteq> l \<Longrightarrow> putSorted k v (putSorted l w al) = putSorted l w (putSorted k v al)"
  by (induction al) auto

definition refEmpty :: refState where
  "refEmpty = \<lparr>rsNonce = [], rsCode = [], rsSlot = []\<rparr>"

definition lookupOr :: "'v \<Rightarrow> ('k \<times> 'v) list \<Rightarrow> 'k \<Rightarrow> 'v" where
  "lookupOr d al k = (case map_of al k of None \<Rightarrow> d | Some v \<Rightarrow> v)"

text \<open>
  A state is stored as the number of its accounts with code, in unary, and a list of records of four
  strings, the first of which is the kind of the record. The number makes states that differ in it
  differ early.
\<close>

definition liveCodes :: "refState \<Rightarrow> nat" where
  "liveCodes s = card {a. lookupOr [] (rsCode s) a \<noteq> []}"

definition encState :: "refState \<Rightarrow> bytes" where
  "encState s = encStrs (replicate (liveCodes s) (CHR ''x'') #
      concat (map (\<lambda>(a, n). [''n'', strip (addrBytes a), strip (uint64Bytes n), []]) (rsNonce s)) @
      concat (map (\<lambda>(a, c). [''c'', strip (addrBytes a), c, []]) (rsCode s)) @
      concat (map (\<lambda>((a, k), v). [''s'', strip (addrBytes a), strip (hashBytes k), strip (hashBytes v)]) (rsSlot s)))"

fun decEntries :: "bytes list \<Rightarrow> refState" where
  "decEntries (t # a # x # y # r) =
     (let s = decEntries r in
      if t = ''n'' then s\<lparr>rsNonce := (BytesToAddress a, bytesUint64 x) # rsNonce s\<rparr>
      else if t = ''c'' then s\<lparr>rsCode := (BytesToAddress a, x) # rsCode s\<rparr>
      else s\<lparr>rsSlot := ((BytesToAddress a, BytesToHash x), BytesToHash y) # rsSlot s\<rparr>)"
| "decEntries _ = refEmpty"

definition decState :: "bytes \<Rightarrow> refState" where
  "decState b = decEntries (tl (decStrs [] b))"

lemma decEntries_enc [simp]:
  "decEntries (concat (map (\<lambda>(a, n). [''n'', strip (addrBytes a), strip (uint64Bytes n), []]) ns) @ r) =
     (decEntries r)\<lparr>rsNonce := ns @ rsNonce (decEntries r)\<rparr>"
  "decEntries (concat (map (\<lambda>(a, c). [''c'', strip (addrBytes a), c, []]) cs) @ r) =
     (decEntries r)\<lparr>rsCode := cs @ rsCode (decEntries r)\<rparr>"
  "decEntries (concat (map (\<lambda>((a, k), v). [''s'', strip (addrBytes a), strip (hashBytes k), strip (hashBytes v)]) ss)) =
     refEmpty\<lparr>rsSlot := ss\<rparr>"
proof -
  show "decEntries (concat (map (\<lambda>(a, n). [''n'', strip (addrBytes a), strip (uint64Bytes n), []]) ns) @ r) =
     (decEntries r)\<lparr>rsNonce := ns @ rsNonce (decEntries r)\<rparr>"
    by (induction ns) (auto simp: Let_def)
  show "decEntries (concat (map (\<lambda>(a, c). [''c'', strip (addrBytes a), c, []]) cs) @ r) =
     (decEntries r)\<lparr>rsCode := cs @ rsCode (decEntries r)\<rparr>"
    by (induction cs) (auto simp: Let_def)
  show "decEntries (concat (map (\<lambda>((a, k), v). [''s'', strip (addrBytes a), strip (hashBytes k), strip (hashBytes v)]) ss)) =
     refEmpty\<lparr>rsSlot := ss\<rparr>"
    by (induction ss) (auto simp: Let_def refEmpty_def)
qed

lemma decState_encState [simp]: "decState (encState s) = s"
  by (simp add: decState_def encState_def refEmpty_def)


definition refExist :: "refState \<Rightarrow> address \<Rightarrow> bool" where
  "refExist s a \<longleftrightarrow> a \<in> fst ` set (rsNonce s) \<or> a \<in> fst ` set (rsCode s) \<or> a \<in> (fst \<circ> fst) ` set (rsSlot s)"

definition refCreateAccount :: "refState \<Rightarrow> address \<Rightarrow> refState" where
  "refCreateAccount s a =
     \<lparr>rsNonce = AList.delete a (rsNonce s), rsCode = AList.delete a (rsCode s),
      rsSlot = filter (\<lambda>((b, k), v). b \<noteq> a) (rsSlot s)\<rparr>"

text \<open>Opening a state checks the hash of the blob.\<close>

definition refStateNew :: "(bytes \<Rightarrow> bytes option) \<Rightarrow> hash \<Rightarrow> refState res" where
  "refStateNew g root =
     (if root = 0 then Inr refEmpty
      else case g (hashBytes root) of
          Some b \<Rightarrow> if refKeccak b = root then Inr (decState b) else Inl (LibErr ''bad node'')
        | None \<Rightarrow> Inl (LibErr ''missing trie node''))"

definition refCommit :: "refState \<Rightarrow> uint64 \<Rightarrow> (hash \<times> (bytes \<times> bytes) list \<times> (bytes \<times> bytes) list) res" where
  "refCommit s n =
     (let b = encState s in Inr (refKeccak b, [], [(hashBytes (refKeccak b), b)]))"

section \<open>Bitmaps and the database\<close>

definition sortedSet :: "uint64 list \<Rightarrow> uint64 list" where
  "sortedSet b = sort (remdups b)"

definition refMarshal :: "uint64 list \<Rightarrow> bytes res" where
  "refMarshal b = Inr (CHR 0x01 # concat (map uint64Bytes (sortedSet b)))"

fun unmarshalIds :: "bytes \<Rightarrow> uint64 list" where
  "unmarshalIds (a # b # c # d # e # f # g # h # r) = bytesUint64 [a, b, c, d, e, f, g, h] # unmarshalIds r"
| "unmarshalIds _ = []"

definition refUnmarshal :: "bytes \<Rightarrow> uint64 list res" where
  "refUnmarshal b = (if b = [] then Inl (LibErr ''unmarshal'') else Inr (unmarshalIds (tl b)))"

definition addRange :: "uint64 list \<Rightarrow> uint64 \<Rightarrow> uint64 \<Rightarrow> uint64 list" where
  "addRange b lo hi = b @ map word_of_nat [unat lo..<unat hi]"

definition refIter :: "(bytes \<times> bytes) list \<Rightarrow> bytes \<Rightarrow> bytes \<Rightarrow> (bytes \<times> bytes) list" where
  "refIter db p start =
     map (\<lambda>k. (k, the (map_of db k))) (filter (\<lambda>k. prefix p k \<and> p @ start \<le> k) (sort (remdups (map fst db))))"

fun refBatchOp :: "batchOp \<Rightarrow> (bytes \<times> bytes) list \<Rightarrow> (bytes \<times> bytes) list" where
  "refBatchOp (BPut k v) db = AList.update k v db"
| "refBatchOp (BDelete k) db = AList.delete k db"

section \<open>The library\<close>

definition refLib :: "((bytes \<times> bytes) list, uint64 list, refState) lib" where
  "refLib =
     \<lparr>Keccak256Hash = refKeccak, AddressHex = (\<lambda>a. hex0x (addrBytes a)), HashHex = (\<lambda>h. hex0x (hashBytes h)),
      unicodeToLower = (\<lambda>s. s), rlpEncode = refEncode, rlpDecode = refDecode,
      rangePairs = (\<lambda>ps. ps), rangeAddrs = (\<lambda>as. as),
      memNew = [], dbGet = (\<lambda>db k. case map_of db k of Some v \<Rightarrow> Inr v | None \<Rightarrow> Inl ErrNotFound),
      dbHas = (\<lambda>db k. Inr (map_of db k \<noteq> None)), dbPut = (\<lambda>db k v. Inr (AList.update k v db)),
      dbDelete = (\<lambda>db k. Inr (AList.delete k db)), dbIter = refIter, dbIterError = (\<lambda>db p s. None),
      dbWrite = (\<lambda>db ops. Inr (fold refBatchOp ops db)),
      bmNew = [], bmAdd = (\<lambda>b x. x # b), bmRemove = (\<lambda>b x. filter (\<lambda>y. y \<noteq> x) b), bmAddRange = addRange,
      bmOr = (\<lambda>b c. b @ c), bmAnd = (\<lambda>b c. filter (\<lambda>x. x \<in> set c) b),
      bmAndNot = (\<lambda>b c. filter (\<lambda>x. x \<notin> set c) b), bmToArray = sortedSet,
      bmMarshal = refMarshal, bmUnmarshal = refUnmarshal,
      EmptyRootHash = 0, stateNew = refStateNew, sdExist = refExist, sdCreateAccount = refCreateAccount,
      sdGetNonce = (\<lambda>s a. lookupOr 0 (rsNonce s) a),
      sdSetNonce = (\<lambda>s a n. s\<lparr>rsNonce := putSorted a n (rsNonce s)\<rparr>),
      sdGetState = (\<lambda>s a k. lookupOr 0 (rsSlot s) (a, k)),
      sdSetState = (\<lambda>s a k v. s\<lparr>rsSlot := putSorted (a, k) v (rsSlot s)\<rparr>),
      sdGetCode = (\<lambda>s a. lookupOr [] (rsCode s) a),
      sdSetCode = (\<lambda>s a c. s\<lparr>rsCode := putSorted a c (rsCode s)\<rparr>),
      sdCommit = refCommit, trieCommit = (\<lambda>dirty root. Inr dirty)\<rparr>"

lemma refLib_sel [simp]:
  "Keccak256Hash refLib = refKeccak"
  "AddressHex refLib = (\<lambda>a. hex0x (addrBytes a))"
  "HashHex refLib = (\<lambda>h. hex0x (hashBytes h))"
  "unicodeToLower refLib = (\<lambda>s. s)"
  "rlpEncode refLib = refEncode"
  "rlpDecode refLib = refDecode"
  "rangePairs refLib = (\<lambda>ps. ps)"
  "rangeAddrs refLib = (\<lambda>as. as)"
  "memNew refLib = []"
  "dbGet refLib = (\<lambda>db k. case map_of db k of Some v \<Rightarrow> Inr v | None \<Rightarrow> Inl ErrNotFound)"
  "dbHas refLib = (\<lambda>db k. Inr (map_of db k \<noteq> None))"
  "dbPut refLib = (\<lambda>db k v. Inr (AList.update k v db))"
  "dbDelete refLib = (\<lambda>db k. Inr (AList.delete k db))"
  "dbIter refLib = refIter"
  "dbIterError refLib = (\<lambda>db p s. None)"
  "dbWrite refLib = (\<lambda>db ops. Inr (fold refBatchOp ops db))"
  "bmNew refLib = []"
  "bmAdd refLib = (\<lambda>b x. x # b)"
  "bmRemove refLib = (\<lambda>b x. filter (\<lambda>y. y \<noteq> x) b)"
  "bmAddRange refLib = addRange"
  "bmOr refLib = (\<lambda>b c. b @ c)"
  "bmAnd refLib = (\<lambda>b c. filter (\<lambda>x. x \<in> set c) b)"
  "bmAndNot refLib = (\<lambda>b c. filter (\<lambda>x. x \<notin> set c) b)"
  "bmToArray refLib = sortedSet"
  "bmMarshal refLib = refMarshal"
  "bmUnmarshal refLib = refUnmarshal"
  "EmptyRootHash refLib = 0"
  "stateNew refLib = refStateNew"
  "sdExist refLib = refExist"
  "sdCreateAccount refLib = refCreateAccount"
  "sdGetNonce refLib = (\<lambda>s a. lookupOr 0 (rsNonce s) a)"
  "sdSetNonce refLib = (\<lambda>s a n. s\<lparr>rsNonce := putSorted a n (rsNonce s)\<rparr>)"
  "sdGetState refLib = (\<lambda>s a k. lookupOr 0 (rsSlot s) (a, k))"
  "sdSetState refLib = (\<lambda>s a k v. s\<lparr>rsSlot := putSorted (a, k) v (rsSlot s)\<rparr>)"
  "sdGetCode refLib = (\<lambda>s a. lookupOr [] (rsCode s) a)"
  "sdSetCode refLib = (\<lambda>s a c. s\<lparr>rsCode := putSorted a c (rsCode s)\<rparr>)"
  "sdCommit refLib = refCommit"
  "trieCommit refLib = (\<lambda>dirty root. Inr dirty)"
  by (simp_all only: refLib_def lib.simps)

lemma rd_refLib [simp]: "rd refLib db k = map_of db k"
  by (simp add: rd_def split: option.split)

lemma kv_refLib: "kv_ok refLib"
proof -
  have b: "map_of (fold refBatchOp ops db) = applyBatch ops (map_of db)" for ops db
  proof (induction ops arbitrary: db)
    case (Cons op ops)
    have "map_of (refBatchOp op db) = applyBatchOp op (map_of db)"
      by (cases op) (auto simp: fun_eq_iff)
    with Cons show ?case by simp
  qed simp
  have r: "rd refLib db = map_of db" for db by (rule ext) simp
  have s: "sorted_wrt (<) (map fst (refIter db p s))" for db p s
    by (simp add: refIter_def comp_def strict_sorted_iff sorted_filter[where f = "\<lambda>x. x", simplified])
  have i: "set (refIter db p s) = {(k, v). map_of db k = Some v \<and> prefix p k \<and> p @ s \<le> k}" for db p s
  proof -
    have "k \<in> fst ` set db \<longleftrightarrow> (\<exists>v. map_of db k = Some v)" for k
      by (metis map_of_eq_None_iff not_None_eq)
    then show ?thesis by (auto simp: refIter_def image_iff)
  qed
  show ?thesis
    unfolding kv_ok_def r
    by (intro conjI allI) (auto simp: b s i update_conv delete_conv' fun_eq_iff)
qed

lemma unmarshalIds_marshal: "unmarshalIds (concat (map uint64Bytes xs)) = xs"
proof (induction xs)
  case (Cons x xs)
  obtain a b c d e f g h where x: "uint64Bytes x = [a, b, c, d, e, f, g, h]"
    using length_uint64Bytes[of x] by (cases "uint64Bytes x" rule: unmarshalIds.cases) auto
  have "bytesUint64 [a, b, c, d, e, f, g, h] = x" by (metis x bytesUint64_uint64Bytes)
  with Cons x show ?case by simp
qed simp

lemma bmSet_refLib [simp]: "bmSet refLib b = set b"
  by (simp add: bmSet_def sortedSet_def)

lemma set_addRange: "set (addRange b lo hi) = set b \<union> {lo..<hi}"
proof -
  have "x \<in> word_of_nat ` {unat lo..<unat hi}" if "lo \<le> x" "x < hi" for x :: uint64
    using that by (intro image_eqI[of _ _ "unat x"]) (simp_all add: word_le_nat_alt word_less_nat_alt)
  moreover have "lo \<le> word_of_nat m \<and> word_of_nat m < hi" if "unat lo \<le> m" "m < unat hi" for m
  proof -
    have "m < 2 ^ LENGTH(64)" using that(2) unsigned_less[where 'a = nat and w = hi] by simp
    then have "unat (word_of_nat m :: uint64) = m" by (simp add: unat_of_nat)
    with that show ?thesis by (simp add: word_le_nat_alt word_less_nat_alt)
  qed
  ultimately show ?thesis by (auto simp: addRange_def)
qed

lemma roaring_refLib: "roaring_ok refLib"
  unfolding roaring_ok_def bmSet_refLib
proof (intro conjI allI)
  show "sorted_wrt (<) (bmToArray refLib b)" for b
    by (simp add: sortedSet_def strict_sorted_iff)
  show "\<exists>bs b'. bmMarshal refLib b = Inr bs \<and> bs \<noteq> [] \<and> bmUnmarshal refLib bs = Inr b' \<and> set b' = set b" for b
    by (simp add: refMarshal_def refUnmarshal_def unmarshalIds_marshal sortedSet_def)
qed (auto simp: set_addRange)

lemma toLower_hex: "toLower uni (hex0x b) = hex0x b"
proof -
  define S where "S = set ''0123456789abcdefx''"
  have d: "lowerByte c = c" "(of_char c :: nat) < 128" if "c \<in> S" for c
    using that by (auto simp: S_def lowerByte_def)
  have h: "hexDigits ! n \<in> S" if "n < 16" for n
  proof -
    have "hexDigits ! n \<in> set hexDigits" using that by (intro nth_mem) (simp add: hexDigits_def)
    moreover have "set hexDigits \<subseteq> S" by (simp add: S_def hexDigits_def)
    ultimately show ?thesis by blast
  qed
  have "of_char c div 16 < (16 :: nat)" for c :: char
  proof -
    have "(of_char c :: nat) < 256" by (rule nat_of_char_less_256)
    then show ?thesis by linarith
  qed
  moreover have x: "CHR ''0'' \<in> S" "CHR ''x'' \<in> S" by (simp_all add: S_def)
  ultimately have s: "set (hex0x b) \<subseteq> S"
    using h by (auto simp: hex0x_def hexByte_def simp del: char.inject)
  then have "isASCII (hex0x b)" using d by (auto simp: isASCII_def list_all_iff)
  moreover have "map lowerByte (hex0x b) = hex0x b" using s d by (intro map_idI) auto
  ultimately show ?thesis by (simp add: toLower_def)
qed

lemma codec_refLib: "codec_ok refLib"
  using refDecode_refEncode by (simp add: codec_ok_def toLower_hex)

lemma range_refLib: "range_ok refLib"
  by (simp add: range_ok_def)

lemma lookupOr_put [simp]: "lookupOr d (putSorted k v al) k' = (if k' = k then v else lookupOr d al k')"
  by (simp add: lookupOr_def)

lemma lookupOr_delete [simp]: "lookupOr d (AList.delete k al) k' = (if k' = k then d else lookupOr d al k')"
  by (simp add: lookupOr_def)

lemma lookupOr_dropAccount:
  "lookupOr d (filter (\<lambda>((b, k), v). b \<noteq> a) al) (c, k) = (if c = a then d else lookupOr d al (c, k))"
  by (induction al) (auto simp: lookupOr_def)

lemma lookupOr_absent: "k \<notin> fst ` set al \<Longrightarrow> lookupOr d al k = d"
  by (metis lookupOr_def map_of_eq_None_iff option.simps(4))

lemma account_refLib: "account_ok refLib"
proof -
  have "lookupOr 0 (rsNonce s) a \<noteq> 0 \<longrightarrow> refExist s a" for s a
    using lookupOr_absent by (metis refExist_def)
  moreover have "\<not> refExist s a \<longrightarrow> lookupOr 0 (rsSlot s) (a, k) = 0 \<and> lookupOr [] (rsCode s) a = []" for s a k
    by (auto simp: refExist_def image_iff intro!: lookupOr_absent)
  ultimately show ?thesis
    unfolding account_ok_def
    by (intro conjI allI) (simp_all add: refCreateAccount_def lookupOr_dropAccount)
qed

lemma trie_refLib: "trie_ok refLib"
proof -
  have mono: "refStateNew g' r = Inr s" if "refStateNew g r = Inr s" "trieLe g g'" for g g' r s
  proof (cases "r = 0")
    case False
    with that(1) obtain b where b: "g (hashBytes r) = Some b" "refKeccak b = r" "s = decState b"
      by (auto simp: refStateNew_def split: option.splits if_splits)
    have "\<not> arkivKey (hashBytes r)" using not_arkivKey_refKeccak[of b] b(2) by simp
    with that(2) b(1) have "g' (hashBytes r) = Some b" by (auto simp: trieLe_def)
    with b False show ?thesis by (simp add: refStateNew_def)
  qed (use that in \<open>simp add: refStateNew_def\<close>)
  show ?thesis
    unfolding trie_ok_def
  proof (intro conjI allI impI)
    show "\<exists>s. stateNew refLib g (EmptyRootHash refLib) = Inr s \<and> (\<forall>a. \<not> sdExist refLib s a)" for g
      by (simp add: refStateNew_def refExist_def refEmpty_def)
    fix g g' r s assume "stateNew refLib g r = Inr s" "trieLe g g'"
    then have "refStateNew g r = Inr s" by simp
    from mono[OF this \<open>trieLe g g'\<close>] have "stateNew refLib g' r = Inr s" by simp
    then show "\<exists>s'. stateNew refLib g' r = Inr s' \<and> sameState refLib s s' \<and> (\<forall>a. sdExist refLib s' a = sdExist refLib s a)"
      by (auto simp: sameState_def)
  next
    fix g g' s n root codes dirty nodes
    assume "sdCommit refLib s n = Inr (root, codes, dirty)" "trieCommit refLib dirty root = Inr nodes"
      "\<forall>(k, v) \<in> set (codes @ nodes). g' k = Some v"
    then have "stateNew refLib g' root = Inr s"
      by (auto simp: refCommit_def Let_def refStateNew_def)
    then show "\<exists>s'. stateNew refLib g' root = Inr s' \<and> sameState refLib s s'"
      by (auto simp: sameState_def)
  next
    fix s n root codes dirty nodes
    assume "sdCommit refLib s n = Inr (root, codes, dirty)" "trieCommit refLib dirty root = Inr nodes"
    then show "\<forall>(k, v) \<in> set (codes @ nodes). nodeEntry refLib k v"
      by (auto simp: refCommit_def Let_def nodeEntry_def)
  qed
qed

lemma lib_refLib: "lib_ok refLib"
  by (simp add: lib_ok_def kv_refLib roaring_refLib codec_refLib range_refLib account_refLib trie_refLib)

lemma io_refLib: "io_ok refLib"
  by (simp add: io_ok_def refCommit_def Let_def)

end
