(* ===== verification/Wire_Json.thy ===== *)
theory Wire_Json
  imports Wire_Types
begin

text \<open>
  The JSON form of an operation (\<open>types/types.go\<close>): an object with a \<open>type\<close> field and the fields of the
  operation. The encoder and decoder of \<open>encoding/json\<close> for the six structs are parameters; the choice
  of the struct by the type, in both directions, is the code's.
\<close>

record jsonLib =
  marshalCreate :: "string \<Rightarrow> CreateOp \<Rightarrow> bytes res"
  marshalUpdate :: "string \<Rightarrow> UpdateOp \<Rightarrow> bytes res"
  marshalDelete :: "string \<Rightarrow> DeleteOp \<Rightarrow> bytes res"
  marshalExtend :: "string \<Rightarrow> ExtendOp \<Rightarrow> bytes res"
  marshalTransfer :: "string \<Rightarrow> TransferOp \<Rightarrow> bytes res"
  marshalExpire :: "string \<Rightarrow> ExpireOp \<Rightarrow> bytes res"
  unmarshalType :: "bytes \<Rightarrow> string res"
  unmarshalCreate :: "bytes \<Rightarrow> CreateOp res"
  unmarshalUpdate :: "bytes \<Rightarrow> UpdateOp res"
  unmarshalDelete :: "bytes \<Rightarrow> DeleteOp res"
  unmarshalExtend :: "bytes \<Rightarrow> ExtendOp res"
  unmarshalTransfer :: "bytes \<Rightarrow> TransferOp res"
  unmarshalExpire :: "bytes \<Rightarrow> ExpireOp res"

definition noOperation :: ArkivOperation where
  "noOperation = \<lparr>Create = None, Update = None, Delete = None, Extend = None, Transfer = None, Expire = None\<rparr>"

definition MarshalJSON :: "jsonLib \<Rightarrow> ArkivOperation \<Rightarrow> bytes res" where
  "MarshalJSON J op =
     (case Create op of Some x \<Rightarrow> marshalCreate J ''create'' x | None \<Rightarrow>
     (case Update op of Some x \<Rightarrow> marshalUpdate J ''update'' x | None \<Rightarrow>
     (case Delete op of Some x \<Rightarrow> marshalDelete J ''delete'' x | None \<Rightarrow>
     (case Extend op of Some x \<Rightarrow> marshalExtend J ''extend'' x | None \<Rightarrow>
     (case Transfer op of Some x \<Rightarrow> marshalTransfer J ''transfer'' x | None \<Rightarrow>
     (case Expire op of Some x \<Rightarrow> marshalExpire J ''expire'' x | None \<Rightarrow>
       Inl (Errorf ''ArkivOperation: no operation set'')))))))"

text \<open>Decoding sets one field of the receiver, whose other fields stay.\<close>

definition UnmarshalJSON :: "jsonLib \<Rightarrow> ArkivOperation \<Rightarrow> bytes \<Rightarrow> ArkivOperation res" where
  "UnmarshalJSON J op data =
     andThen (unmarshalType J data) (\<lambda>t.
     if t = ''create'' then andThen (unmarshalCreate J data) (\<lambda>x. Inr (op\<lparr>Create := Some x\<rparr>))
     else if t = ''update'' then andThen (unmarshalUpdate J data) (\<lambda>x. Inr (op\<lparr>Update := Some x\<rparr>))
     else if t = ''delete'' then andThen (unmarshalDelete J data) (\<lambda>x. Inr (op\<lparr>Delete := Some x\<rparr>))
     else if t = ''extend'' then andThen (unmarshalExtend J data) (\<lambda>x. Inr (op\<lparr>Extend := Some x\<rparr>))
     else if t = ''transfer'' then andThen (unmarshalTransfer J data) (\<lambda>x. Inr (op\<lparr>Transfer := Some x\<rparr>))
     else if t = ''expire'' then andThen (unmarshalExpire J data) (\<lambda>x. Inr (op\<lparr>Expire := Some x\<rparr>))
     else Inl (Errorf ''unknown operation type %q''))"

text \<open>
  What the encoder promises: an encoded struct decodes to itself, the two fields of a creation that are
  not on the wire aside, and its type field is read back.
\<close>

definition json_ok :: "jsonLib \<Rightarrow> bool" where
  "json_ok J \<longleftrightarrow>
     (\<forall>t x. \<exists>b. marshalCreate J t x = Inr b \<and> unmarshalType J b = Inr t \<and>
        unmarshalCreate J b = Inr (x\<lparr>coSender := 0, coTxIndex := 0\<rparr>)) \<and>
     (\<forall>t x. \<exists>b. marshalUpdate J t x = Inr b \<and> unmarshalType J b = Inr t \<and> unmarshalUpdate J b = Inr x) \<and>
     (\<forall>t x. \<exists>b. marshalDelete J t x = Inr b \<and> unmarshalType J b = Inr t \<and> unmarshalDelete J b = Inr x) \<and>
     (\<forall>t x. \<exists>b. marshalExtend J t x = Inr b \<and> unmarshalType J b = Inr t \<and> unmarshalExtend J b = Inr x) \<and>
     (\<forall>t x. \<exists>b. marshalTransfer J t x = Inr b \<and> unmarshalType J b = Inr t \<and> unmarshalTransfer J b = Inr x) \<and>
     (\<forall>t x. \<exists>b. marshalExpire J t x = Inr b \<and> unmarshalType J b = Inr t \<and> unmarshalExpire J b = Inr x)"

text \<open>The operation that is sent: the first of the fields that are set, without its transaction's data.\<close>

definition sentOperation :: "ArkivOperation \<Rightarrow> ArkivOperation option" where
  "sentOperation op =
     (case Create op of Some x \<Rightarrow> Some (noOperation\<lparr>Create := Some (x\<lparr>coSender := 0, coTxIndex := 0\<rparr>)\<rparr>) | None \<Rightarrow>
     (case Update op of Some x \<Rightarrow> Some (noOperation\<lparr>Update := Some x\<rparr>) | None \<Rightarrow>
     (case Delete op of Some x \<Rightarrow> Some (noOperation\<lparr>Delete := Some x\<rparr>) | None \<Rightarrow>
     (case Extend op of Some x \<Rightarrow> Some (noOperation\<lparr>Extend := Some x\<rparr>) | None \<Rightarrow>
     (case Transfer op of Some x \<Rightarrow> Some (noOperation\<lparr>Transfer := Some x\<rparr>) | None \<Rightarrow>
     (case Expire op of Some x \<Rightarrow> Some (noOperation\<lparr>Expire := Some x\<rparr>) | None \<Rightarrow> None))))))"

lemma json_okD:
  assumes "json_ok J"
  shows "\<exists>b. marshalCreate J t c = Inr b \<and> unmarshalType J b = Inr t \<and>
      unmarshalCreate J b = Inr (c\<lparr>coSender := 0, coTxIndex := 0\<rparr>)"
    "\<exists>b. marshalUpdate J t u = Inr b \<and> unmarshalType J b = Inr t \<and> unmarshalUpdate J b = Inr u"
    "\<exists>b. marshalDelete J t d = Inr b \<and> unmarshalType J b = Inr t \<and> unmarshalDelete J b = Inr d"
    "\<exists>b. marshalExtend J t e = Inr b \<and> unmarshalType J b = Inr t \<and> unmarshalExtend J b = Inr e"
    "\<exists>b. marshalTransfer J t f = Inr b \<and> unmarshalType J b = Inr t \<and> unmarshalTransfer J b = Inr f"
    "\<exists>b. marshalExpire J t x = Inr b \<and> unmarshalType J b = Inr t \<and> unmarshalExpire J b = Inr x"
  using assms unfolding json_ok_def by blast+

lemma json_op:
  assumes "json_ok J"
  shows "Create op = Some c \<Longrightarrow>
      \<exists>b. MarshalJSON J op = Inr b \<and> UnmarshalJSON J noOperation b = Inr (noOperation\<lparr>Create := Some (c\<lparr>coSender := 0, coTxIndex := 0\<rparr>)\<rparr>)"
    and "Create op = None \<Longrightarrow> Update op = Some u \<Longrightarrow>
      \<exists>b. MarshalJSON J op = Inr b \<and> UnmarshalJSON J noOperation b = Inr (noOperation\<lparr>Update := Some (u)\<rparr>)"
    and "Create op = None \<Longrightarrow> Update op = None \<Longrightarrow> Delete op = Some d \<Longrightarrow>
      \<exists>b. MarshalJSON J op = Inr b \<and> UnmarshalJSON J noOperation b = Inr (noOperation\<lparr>Delete := Some (d)\<rparr>)"
    and "Create op = None \<Longrightarrow> Update op = None \<Longrightarrow> Delete op = None \<Longrightarrow> Extend op = Some e \<Longrightarrow>
      \<exists>b. MarshalJSON J op = Inr b \<and> UnmarshalJSON J noOperation b = Inr (noOperation\<lparr>Extend := Some (e)\<rparr>)"
    and "Create op = None \<Longrightarrow> Update op = None \<Longrightarrow> Delete op = None \<Longrightarrow> Extend op = None \<Longrightarrow> Transfer op = Some f \<Longrightarrow>
      \<exists>b. MarshalJSON J op = Inr b \<and> UnmarshalJSON J noOperation b = Inr (noOperation\<lparr>Transfer := Some (f)\<rparr>)"
    and "Create op = None \<Longrightarrow> Update op = None \<Longrightarrow> Delete op = None \<Longrightarrow> Extend op = None \<Longrightarrow> Transfer op = None \<Longrightarrow> Expire op = Some x \<Longrightarrow>
      \<exists>b. MarshalJSON J op = Inr b \<and> UnmarshalJSON J noOperation b = Inr (noOperation\<lparr>Expire := Some (x)\<rparr>)"
  subgoal using json_okD(1)[OF assms, of "''create''" c] by (auto simp: MarshalJSON_def UnmarshalJSON_def)
  subgoal using json_okD(2)[OF assms, of "''update''" u] by (auto simp: MarshalJSON_def UnmarshalJSON_def)
  subgoal using json_okD(3)[OF assms, of "''delete''" d] by (auto simp: MarshalJSON_def UnmarshalJSON_def)
  subgoal using json_okD(4)[OF assms, of "''extend''" e] by (auto simp: MarshalJSON_def UnmarshalJSON_def)
  subgoal using json_okD(5)[OF assms, of "''transfer''" f] by (auto simp: MarshalJSON_def UnmarshalJSON_def)
  subgoal using json_okD(6)[OF assms, of "''expire''" x] by (auto simp: MarshalJSON_def UnmarshalJSON_def)
  done

lemma json_roundtrip:
  assumes "json_ok J"
  shows "case sentOperation op of
      None \<Rightarrow> MarshalJSON J op = Inl (Errorf ''ArkivOperation: no operation set'')
    | Some op' \<Rightarrow> \<exists>b. MarshalJSON J op = Inr b \<and> UnmarshalJSON J noOperation b = Inr op'"
proof (cases "sentOperation op")
  case None
  then show ?thesis by (simp add: sentOperation_def MarshalJSON_def split: option.splits)
next
  case (Some op')
  then show ?thesis
    by (auto simp: sentOperation_def split: option.splits dest: json_op[OF assms])
qed

end
