(* ===== verification/Reference_Clients.thy ===== *)
theory Reference_Clients
  imports Reference_Lib Query_Server Wire_Json
begin

text \<open>
  Concrete JSON, hexadecimal and sorting functions for the query API and the wire format, with proofs
  that they meet the laws assumed of those libraries.
\<close>

section \<open>The query API\<close>

definition refWeb :: webLib where
  "refWeb =
     \<lparr>EncodeUint64 = uint64Bytes,
      DecodeUint64 = (\<lambda>b. if length b = 8 then Inr (bytesUint64 b) else Inl (LibErr ''invalid hex string'')),
      MarshalEntityData = (\<lambda>ed. Inr (encStrs
        ([edValue ed] @ map attrKey (edStringAttributes ed) @ map attrKey (edNumericAttributes ed)))),
      SortStringAttrs = sort_key attrKey, SortNumericAttrs = sort_key attrKey\<rparr>"

lemma refWeb_sel [simp]:
  "EncodeUint64 refWeb = uint64Bytes"
  "DecodeUint64 refWeb b = (if length b = 8 then Inr (bytesUint64 b) else Inl (LibErr ''invalid hex string''))"
  "MarshalEntityData refWeb ed = Inr (encStrs
     ([edValue ed] @ map attrKey (edStringAttributes ed) @ map attrKey (edNumericAttributes ed)))"
  "SortStringAttrs refWeb = sort_key attrKey" "SortNumericAttrs refWeb = sort_key attrKey"
  by (simp_all only: refWeb_def webLib.simps)

lemma web_refWeb: "web_ok refWeb"
proof -
  have "uint64Bytes n \<noteq> []" for n by (metis length_uint64Bytes list.size(3) zero_neq_numeral)
  then show ?thesis by (simp add: web_ok_def)
qed

section \<open>The wire format\<close>

definition u32Bytes :: "uint32 \<Rightarrow> bytes" where
  "u32Bytes v = be_bytes 4 (unat v)"

definition bytesU32 :: "bytes \<Rightarrow> uint32" where
  "bytesU32 b = word_of_nat (be_nat b)"

lemma bytesU32_u32Bytes [simp]: "bytesU32 (u32Bytes v) = v"
proof -
  have "unat v < 256 ^ 4" using unsigned_less[where 'a = nat and w = v] by simp
  then show ?thesis by (simp add: bytesU32_def u32Bytes_def be_nat_be_bytes)
qed

definition encAttributes :: "Attribute list \<Rightarrow> bytes" where
  "encAttributes as = encStrs (concat (map (\<lambda>a. [ValueType a, Name a, Value a]) as))"

fun decAttributeList :: "bytes list \<Rightarrow> Attribute list" where
  "decAttributeList (t # k # v # r) = \<lparr>ValueType = t, Name = k, Value = v\<rparr> # decAttributeList r"
| "decAttributeList _ = []"

lemma decAttributeList_enc [simp]: "decAttributeList (decStrs [] (encAttributes as)) = as"
  unfolding encAttributes_def decStrs_encStrs by (induction as) auto

definition jsonFields :: "bytes \<Rightarrow> (bytes list \<Rightarrow> 'a option) \<Rightarrow> 'a res" where
  "jsonFields b f = (case f (decStrs [] b) of Some x \<Rightarrow> Inr x | None \<Rightarrow> Inl (LibErr ''json''))"

definition refJson :: jsonLib where
  "refJson =
     \<lparr>marshalCreate = (\<lambda>t x. Inr (encStrs [t, u32Bytes (coOpIndex x), hashBytes (coEntityKey x), addrBytes (coOwner x),
        uint64Bytes (coExpiresAt x), hashBytes (coEntityHash x), hashBytes (coChangesetHash x), coPayload x,
        coContentType x, encAttributes (coAttributes x)])),
      marshalUpdate = (\<lambda>t x. Inr (encStrs [t, u32Bytes (uoOpIndex x), hashBytes (uoEntityKey x), addrBytes (uoOwner x),
        hashBytes (uoEntityHash x), hashBytes (uoChangesetHash x), uoPayload x,
        uoContentType x, encAttributes (uoAttributes x)])),
      marshalDelete = (\<lambda>t x. Inr (encStrs [t, u32Bytes (doOpIndex x), hashBytes (doEntityKey x), addrBytes (doOwner x),
        hashBytes (doEntityHash x), hashBytes (doChangesetHash x)])),
      marshalExtend = (\<lambda>t x. Inr (encStrs [t, u32Bytes (eoOpIndex x), hashBytes (eoEntityKey x), addrBytes (eoOwner x),
        uint64Bytes (eoExpiresAt x), hashBytes (eoEntityHash x), hashBytes (eoChangesetHash x)])),
      marshalTransfer = (\<lambda>t x. Inr (encStrs [t, u32Bytes (toOpIndex x), hashBytes (toEntityKey x), addrBytes (toOwner x),
        hashBytes (toEntityHash x), hashBytes (toChangesetHash x)])),
      marshalExpire = (\<lambda>t x. Inr (encStrs [t, u32Bytes (xoOpIndex x), hashBytes (xoEntityKey x), addrBytes (xoOwner x),
        hashBytes (xoEntityHash x), hashBytes (xoChangesetHash x)])),
      unmarshalType = (\<lambda>b. jsonFields b (\<lambda>fs. case fs of [] \<Rightarrow> None | t # _ \<Rightarrow> Some t)),
      unmarshalCreate = (\<lambda>b. jsonFields b (\<lambda>fs. case fs of [t, i, k, w, ex, eh, ch, p, ct, as] \<Rightarrow>
        Some \<lparr>coOpIndex = bytesU32 i, coEntityKey = BytesToHash k, coSender = 0, coTxIndex = 0,
          coOwner = BytesToAddress w, coExpiresAt = bytesUint64 ex, coEntityHash = BytesToHash eh,
          coChangesetHash = BytesToHash ch, coPayload = p, coContentType = ct,
          coAttributes = decAttributeList (decStrs [] as)\<rparr> | _ \<Rightarrow> None)),
      unmarshalUpdate = (\<lambda>b. jsonFields b (\<lambda>fs. case fs of [t, i, k, w, eh, ch, p, ct, as] \<Rightarrow>
        Some \<lparr>uoOpIndex = bytesU32 i, uoEntityKey = BytesToHash k, uoOwner = BytesToAddress w,
          uoEntityHash = BytesToHash eh, uoChangesetHash = BytesToHash ch, uoPayload = p, uoContentType = ct,
          uoAttributes = decAttributeList (decStrs [] as)\<rparr> | _ \<Rightarrow> None)),
      unmarshalDelete = (\<lambda>b. jsonFields b (\<lambda>fs. case fs of [t, i, k, w, eh, ch] \<Rightarrow>
        Some \<lparr>doOpIndex = bytesU32 i, doEntityKey = BytesToHash k, doOwner = BytesToAddress w,
          doEntityHash = BytesToHash eh, doChangesetHash = BytesToHash ch\<rparr> | _ \<Rightarrow> None)),
      unmarshalExtend = (\<lambda>b. jsonFields b (\<lambda>fs. case fs of [t, i, k, w, ex, eh, ch] \<Rightarrow>
        Some \<lparr>eoOpIndex = bytesU32 i, eoEntityKey = BytesToHash k, eoOwner = BytesToAddress w,
          eoExpiresAt = bytesUint64 ex, eoEntityHash = BytesToHash eh, eoChangesetHash = BytesToHash ch\<rparr> | _ \<Rightarrow> None)),
      unmarshalTransfer = (\<lambda>b. jsonFields b (\<lambda>fs. case fs of [t, i, k, w, eh, ch] \<Rightarrow>
        Some \<lparr>toOpIndex = bytesU32 i, toEntityKey = BytesToHash k, toOwner = BytesToAddress w,
          toEntityHash = BytesToHash eh, toChangesetHash = BytesToHash ch\<rparr> | _ \<Rightarrow> None)),
      unmarshalExpire = (\<lambda>b. jsonFields b (\<lambda>fs. case fs of [t, i, k, w, eh, ch] \<Rightarrow>
        Some \<lparr>xoOpIndex = bytesU32 i, xoEntityKey = BytesToHash k, xoOwner = BytesToAddress w,
          xoEntityHash = BytesToHash eh, xoChangesetHash = BytesToHash ch\<rparr> | _ \<Rightarrow> None))\<rparr>"

lemma json_refJson: "json_ok refJson"
  unfolding json_ok_def refJson_def jsonLib.simps jsonFields_def
  by (intro conjI allI) simp_all

end
