(* ===== verification/Query_Lexer.thy ===== *)
theory Query_Lexer
  imports Query_Norm
begin

text \<open>
  The lexer of the query language (\<open>lex\<close> in \<open>query/language.go\<close>): the rules with their patterns, and the
  tokens they cut a query into. Patterns are matched as Go's \<open>regexp\<close> does, on the runes of a string
  encoded in UTF-8, the first alternative first and repetition greedy. Which runes beyond ASCII are letters
  and numbers is a parameter, the tables of the \<open>unicode\<close> package.
\<close>

section \<open>Runes\<close>

text \<open>\<open>utf8.DecodeRune\<close>: the first rune and its width. A byte that starts no valid sequence is the rune \<open>U+FFFD\<close>.\<close>

definition contByte :: "char \<Rightarrow> bool" where
  "contByte c \<longleftrightarrow> 0x80 \<le> (of_char c :: int) \<and> (of_char c :: int) < 0xC0"

definition decodeRune :: "char \<Rightarrow> string \<Rightarrow> int \<times> nat" where
  "decodeRune c s =
     (let b = (of_char c :: int); bad = (0xFFFD, 1);
          cont = (\<lambda>k. k < length s \<and> contByte (s ! k));
          low = (\<lambda>k. (of_char (s ! k) :: int) - 0x80)
      in if b < 0x80 then (b, 1)
      else if b < 0xC2 then bad
      else if b < 0xE0 then (if cont 0 then ((b - 0xC0) * 64 + low 0, 2) else bad)
      else if b < 0xF0 then
        (let r = ((b - 0xE0) * 64 + low 0) * 64 + low 1
         in if cont 0 \<and> cont 1 \<and> 0x800 \<le> r \<and> \<not> (0xD800 \<le> r \<and> r < 0xE000) then (r, 3) else bad)
      else if b < 0xF5 then
        (let r = (((b - 0xF0) * 64 + low 0) * 64 + low 1) * 64 + low 2
         in if cont 0 \<and> cont 1 \<and> cont 2 \<and> 0x10000 \<le> r \<and> r < 0x110000 then (r, 4) else bad)
      else bad)"

lemma decodeRune_ascii: "fst (decodeRune c s) < 0x80 \<Longrightarrow> decodeRune c s = (of_char c, 1) \<and> (of_char c :: int) < 0x80"
  by (auto simp: decodeRune_def Let_def contByte_def split: if_splits)

lemma decodeRune_width: "0 < snd (decodeRune c s)" "snd (decodeRune c s) \<le> 4"
  by (auto simp: decodeRune_def Let_def)

lemma decodeRune_cont:
  "snd (decodeRune c s) = 1 \<or> snd (decodeRune c s) = 2 \<and> list_all contByte (take 1 s) \<or>
   snd (decodeRune c s) = 3 \<and> list_all contByte (take 2 s) \<or> snd (decodeRune c s) = 4 \<and> list_all contByte (take 3 s)"
  unfolding decodeRune_def Let_def
  by (cases s; cases "tl s"; cases "tl (tl s)") (simp_all split: if_split)

lemma decodeRune_bytes:
  assumes "fst (decodeRune c s) \<noteq> 0"
  shows "CHR 0x00 \<notin> set (take (snd (decodeRune c s)) (c # s))"
proof -
  have c: "c \<noteq> CHR 0x00"
    using assms by (auto simp: decodeRune_def)
  have k: "CHR 0x00 \<notin> set xs" if "list_all contByte xs" for xs
    using that by (auto simp: list_all_iff contByte_def)
  show ?thesis
    using decodeRune_cont[of c s] k c by (auto simp: numeral_eq_Suc)
qed

section \<open>Patterns\<close>

datatype rx = RxRune "int \<Rightarrow> bool" | RxEps | RxSeq rx rx | RxAlt rx rx | RxStar rx

text \<open>What is left of the string after each way to match, the preferred way first.\<close>

function (sequential) rxMatch :: "rx \<Rightarrow> string \<Rightarrow> string list" where
  "rxMatch (RxRune P) [] = []"
| "rxMatch (RxRune P) (c # s) =
     (case decodeRune c s of (r, w) \<Rightarrow> if P r then [drop w (c # s)] else [])"
| "rxMatch RxEps s = [s]"
| "rxMatch (RxSeq r1 r2) s = concat (map (rxMatch r2) (rxMatch r1 s))"
| "rxMatch (RxAlt r1 r2) s = rxMatch r1 s @ rxMatch r2 s"
| "rxMatch (RxStar r) s =
     concat (map (\<lambda>t. if length t < length s then rxMatch (RxStar r) t else []) (rxMatch r s)) @ [s]"
  by pat_completeness auto
termination
  by (relation "measures [\<lambda>(r, s). size r, \<lambda>(r, s). length s]") auto

declare rxMatch.simps(6) [simp del]

lemma rxMatch_StarE:
  assumes "t \<in> set (rxMatch (RxStar r) s)"
  obtains "t = s" | u where "u \<in> set (rxMatch r s)" "length u < length s" "t \<in> set (rxMatch (RxStar r) u)"
  using assms by (subst (asm) rxMatch.simps(6)) (auto split: if_splits)

text \<open>Matching consumes a prefix, made of runes that the pattern allows.\<close>

fun rxAll :: "(int \<Rightarrow> bool) \<Rightarrow> rx \<Rightarrow> bool" where
  "rxAll Q (RxRune P) \<longleftrightarrow> (\<forall>c. P c \<longrightarrow> Q c)"
| "rxAll Q RxEps \<longleftrightarrow> True"
| "rxAll Q (RxSeq r1 r2) \<longleftrightarrow> rxAll Q r1 \<and> rxAll Q r2"
| "rxAll Q (RxAlt r1 r2) \<longleftrightarrow> rxAll Q r1 \<and> rxAll Q r2"
| "rxAll Q (RxStar r) \<longleftrightarrow> rxAll Q r"

lemma rxMatch_suffix: "t \<in> set (rxMatch r s) \<Longrightarrow> \<exists>w. s = w @ t"
proof (induction r s arbitrary: t rule: rxMatch.induct)
  case (2 P c s)
  then have "t = drop (snd (decodeRune c s)) (c # s)" by (auto simp: case_prod_beta split: if_splits)
  then show ?case by (metis append_take_drop_id)
next
  case (4 r1 r2 s)
  then obtain u where u: "u \<in> set (rxMatch r1 s)" "t \<in> set (rxMatch r2 u)" by auto
  from "4.IH"(1)[OF u(1)] "4.IH"(2)[OF u] show ?case by (metis append_assoc)
next
  case (6 r s)
  from "6.prems" show ?case
  proof (cases rule: rxMatch_StarE)
    case (2 u)
    from "6.IH"(1)[OF 2(1)] "6.IH"(2)[OF 2] show ?thesis by (metis append_assoc)
  qed simp
qed (auto split: prod.splits)

lemma rxMatch_no_nul:
  assumes "rxAll (\<lambda>c. c \<noteq> 0) r"
  shows "t \<in> set (rxMatch r s) \<Longrightarrow> \<exists>w. s = w @ t \<and> CHR 0x00 \<notin> set w"
  using assms
proof (induction r s arbitrary: t rule: rxMatch.induct)
  case (2 P c s)
  let ?w = "snd (decodeRune c s)"
  have "t = drop ?w (c # s)" "P (fst (decodeRune c s))" using "2.prems"(1) by (auto simp: case_prod_beta split: if_splits)
  moreover have "fst (decodeRune c s) \<noteq> 0" using "2.prems"(2) calculation(2) by simp
  ultimately show ?case
    using decodeRune_bytes[of c s] by (intro exI[of _ "take ?w (c # s)"]) simp
next
  case (4 r1 r2 s)
  then obtain u where u: "u \<in> set (rxMatch r1 s)" "t \<in> set (rxMatch r2 u)" by auto
  obtain w1 where w1: "s = w1 @ u" "CHR 0x00 \<notin> set w1" using "4.IH"(1)[OF u(1)] "4.prems"(2) by auto
  obtain w2 where w2: "u = w2 @ t" "CHR 0x00 \<notin> set w2" using "4.IH"(2)[OF u] "4.prems"(2) by auto
  from w1 w2 show ?case by (intro exI[of _ "w1 @ w2"]) simp
next
  case (6 r s)
  from "6.prems"(1) show ?case
  proof (cases rule: rxMatch_StarE)
    case (2 u)
    obtain w1 where w1: "s = w1 @ u" "CHR 0x00 \<notin> set w1" using "6.IH"(1)[OF 2(1)] "6.prems"(2) by auto
    obtain w2 where "u = w2 @ t" "CHR 0x00 \<notin> set w2" using "6.IH"(2)[OF 2] "6.prems"(2) by blast
    with w1 show ?thesis by (intro exI[of _ "w1 @ w2"]) simp
  qed simp
qed (auto split: prod.splits)

section \<open>Rules\<close>

datatype tokenType = TkWhitespace | TkLParen | TkRParen | TkAnd | TkOr | TkNeq | TkEq | TkGeqt | TkLeqt | TkGt | TkLt
  | TkNotGlob | TkGlob | TkNot | TkEntityKey | TkAddress | TkString | TkNumber | TkIdent | TkCreatedAtBlock
  | TkContentType | TkOwner | TkCreator | TkKey | TkExpiration | TkSequence | TkAll | TkStar

definition rune :: "char \<Rightarrow> rx" where
  "rune c = RxRune (\<lambda>r. r = of_char c)"

fun lit :: "string \<Rightarrow> rx" where
  "lit [] = RxEps"
| "lit (c # cs) = RxSeq (rune c) (lit cs)"

fun rxTimes :: "nat \<Rightarrow> rx \<Rightarrow> rx" where
  "rxTimes 0 r = RxEps"
| "rxTimes (Suc n) r = RxSeq r (rxTimes n r)"

definition rxPlus :: "rx \<Rightarrow> rx" where
  "rxPlus r = RxSeq r (RxStar r)"

definition range :: "char \<Rightarrow> char \<Rightarrow> int \<Rightarrow> bool" where
  "range a b r \<longleftrightarrow> of_char a \<le> r \<and> r \<le> of_char b"

text \<open>The classes \<open>\p{L}\<close> and \<open>\p{N}\<close>: known in ASCII, the tables of a parameter beyond it.\<close>

record unicodeTables =
  uniLetter :: "int \<Rightarrow> bool"
  uniNumber :: "int \<Rightarrow> bool"

definition letterRune :: "unicodeTables \<Rightarrow> int \<Rightarrow> bool" where
  "letterRune uc r \<longleftrightarrow> range CHR ''a'' CHR ''z'' r \<or> range CHR ''A'' CHR ''Z'' r \<or> 0x80 \<le> r \<and> uniLetter uc r"

definition numberRune :: "unicodeTables \<Rightarrow> int \<Rightarrow> bool" where
  "numberRune uc r \<longleftrightarrow> range CHR ''0'' CHR ''9'' r \<or> 0x80 \<le> r \<and> uniNumber uc r"

definition hexRune :: rx where
  "hexRune = RxRune (\<lambda>r. range CHR ''a'' CHR ''f'' r \<or> range CHR ''A'' CHR ''F'' r \<or> range CHR ''0'' CHR ''9'' r)"

definition AnnotationIdentRegex :: "unicodeTables \<Rightarrow> rx" where
  "AnnotationIdentRegex uc =
     RxSeq (RxRune (\<lambda>r. letterRune uc r \<or> r = of_char CHR ''_''))
       (RxStar (RxRune (\<lambda>r. letterRune uc r \<or> numberRune uc r \<or> r = of_char CHR ''_'')))"

text \<open>A dot matches any rune but a newline.\<close>

definition stringRegex :: rx where
  "stringRegex = RxSeq (rune CHR 0x22) (RxSeq
     (RxStar (RxAlt (RxRune (\<lambda>r. r \<noteq> 0x22 \<and> r \<noteq> 0x5C)) (RxSeq (rune CHR 0x5C) (RxRune (\<lambda>r. r \<noteq> 0x0A)))))
     (rune CHR 0x22))"

definition lexRules :: "unicodeTables \<Rightarrow> (tokenType \<times> rx) list" where
  "lexRules uc =
    [(TkWhitespace, rxPlus (RxRune (\<lambda>r. r = 0x20 \<or> r = 0x09 \<or> r = 0x0A \<or> r = 0x0D))),
     (TkLParen, lit ''(''), (TkRParen, lit '')''),
     (TkAnd, lit ''&&''), (TkOr, lit ''||''),
     (TkNeq, lit ''!=''), (TkEq, lit ''=''), (TkGeqt, lit ''>=''), (TkLeqt, lit ''<=''),
     (TkGt, lit ''>''), (TkLt, lit ''<''), (TkNotGlob, lit ''!~''), (TkGlob, lit ''~''), (TkNot, lit ''!''),
     (TkEntityKey, RxSeq (lit ''0x'') (rxTimes 64 hexRune)),
     (TkAddress, RxSeq (lit ''0x'') (rxTimes 40 hexRune)),
     (TkString, stringRegex),
     (TkNumber, rxPlus (RxRune (range CHR ''0'' CHR ''9''))),
     (TkIdent, AnnotationIdentRegex uc),
     (TkCreatedAtBlock, lit ''$createdAtBlock''), (TkContentType, lit ''$contentType''), (TkOwner, lit ''$owner''),
     (TkCreator, lit ''$creator''), (TkKey, lit ''$key''), (TkExpiration, lit ''$expiration''),
     (TkSequence, lit ''$sequence''), (TkAll, lit ''$all''), (TkStar, lit ''*'')]"

section \<open>Tokens\<close>

record token =
  tkType :: tokenType
  tkText :: string

abbreviation tok :: "tokenType \<Rightarrow> string \<Rightarrow> token" where
  "tok ty s \<equiv> \<lparr>tkType = ty, tkText = s\<rparr>"

text \<open>The first rule whose pattern matches at the start of the string makes the token.\<close>

fun firstMatch :: "(tokenType \<times> rx) list \<Rightarrow> string \<Rightarrow> (token \<times> string) option" where
  "firstMatch [] s = None"
| "firstMatch ((ty, r) # rules) s =
     (case rxMatch r s of t # _ \<Rightarrow> Some (tok ty (take (length s - length t) s), t) | [] \<Rightarrow> firstMatch rules s)"

function tokenize :: "(tokenType \<times> rx) list \<Rightarrow> string \<Rightarrow> token list option" where
  "tokenize rules s =
     (if s = [] then Some []
      else case firstMatch rules s of
        Some (tk, t) \<Rightarrow> if length t < length s then map_option ((#) tk) (tokenize rules t) else None
      | None \<Rightarrow> None)"
  by pat_completeness auto
termination
  by (relation "measure (\<lambda>(rules, s). length s)") auto

declare tokenize.simps [simp del]

section \<open>What the tokens look like\<close>

text \<open>Lexing loses nothing: the texts of the tokens make up the query.\<close>

lemma firstMatchD:
  assumes "firstMatch rules s = Some (tk, t)"
  obtains r where "(tkType tk, r) \<in> set rules" "t \<in> set (rxMatch r s)" "s = tkText tk @ t"
proof -
  have "\<exists>r. (tkType tk, r) \<in> set rules \<and> t \<in> set (rxMatch r s) \<and> s = tkText tk @ t"
    using assms
  proof (induction rules s rule: firstMatch.induct)
    case (2 ty r rules s)
    show ?case
    proof (cases "rxMatch r s")
      case Nil
      then show ?thesis using 2 by auto
    next
      case (Cons u us)
      then have t: "u = t" "tk = tok ty (take (length s - length t) s)" using "2.prems" by auto
      have "t \<in> set (rxMatch r s)" using Cons t by simp
      moreover obtain w where "s = w @ t" using rxMatch_suffix[OF calculation] by blast
      ultimately show ?thesis using t(2) by auto
    qed
  qed simp
  with that show thesis by blast
qed

lemma tokenize_text: "tokenize rules s = Some ts \<Longrightarrow> concat (map tkText ts) = s"
proof (induction rules s arbitrary: ts rule: tokenize.induct)
  case (1 rules s)
  show ?case
  proof (cases "s = []")
    case True
    then show ?thesis using "1.prems" by (simp add: tokenize.simps)
  next
    case False
    then obtain tk t us where m: "firstMatch rules s = Some (tk, t)" "length t < length s"
      "tokenize rules t = Some us" "ts = tk # us"
      using "1.prems" by (subst (asm) tokenize.simps) (auto split: option.splits if_splits)
    have "concat (map tkText us) = t" by (rule "1.IH"[OF False m(1) refl m(2,3)])
    then show ?thesis using m by (auto elim: firstMatchD)
  qed
qed

lemma tokenize_all:
  assumes "\<And>s tk t. firstMatch rules s = Some (tk, t) \<Longrightarrow> P tk" and "tokenize rules s = Some ts"
  shows "list_all P ts"
  using assms
proof (induction rules s arbitrary: ts rule: tokenize.induct)
  case (1 rules s)
  show ?case
  proof (cases "s = []")
    case False
    then obtain tk t us where m: "firstMatch rules s = Some (tk, t)" "length t < length s"
      "tokenize rules t = Some us" "ts = tk # us"
      using "1.prems"(2) by (subst (asm) tokenize.simps) (auto split: option.splits if_splits)
    have "list_all P us" by (rule "1.IH"[OF False m(1) refl m(2) "1.prems"(1) m(3)])
    then show ?thesis using m "1.prems"(1) by simp
  qed (use "1.prems"(2) in \<open>simp add: tokenize.simps\<close>)
qed

lemma rxMatch_lit:
  assumes "list_all (\<lambda>c. (of_char c :: int) < 0x80) w" "t \<in> set (rxMatch (lit w) s)"
  shows "s = w @ t"
  using assms
proof (induction w arbitrary: s)
  case (Cons c w)
  then obtain d s' where s: "s = d # s'" by (cases s) (auto simp: rune_def)
  have d: "fst (decodeRune d s') = of_char c" "t \<in> set (rxMatch (lit w) (drop (snd (decodeRune d s')) s))"
    using Cons.prems(2) by (auto simp: s rune_def case_prod_beta split: if_splits)
  have "decodeRune d s' = (of_char d, 1)" using decodeRune_ascii[of d s'] d(1) Cons.prems(1) by simp
  with d Cons.IH[of s'] Cons.prems(1) show ?case by (simp add: s)
qed simp

text \<open>The text of a token whose pattern is a literal.\<close>

fun fixedText :: "tokenType \<Rightarrow> string option" where
  "fixedText TkLParen = Some ''(''"
| "fixedText TkRParen = Some '')''"
| "fixedText TkAnd = Some ''&&''"
| "fixedText TkOr = Some ''||''"
| "fixedText TkNeq = Some ''!=''"
| "fixedText TkEq = Some ''=''"
| "fixedText TkGeqt = Some ''>=''"
| "fixedText TkLeqt = Some ''<=''"
| "fixedText TkGt = Some ''>''"
| "fixedText TkLt = Some ''<''"
| "fixedText TkNotGlob = Some ''!~''"
| "fixedText TkGlob = Some ''~''"
| "fixedText TkNot = Some ''!''"
| "fixedText TkCreatedAtBlock = Some ''$createdAtBlock''"
| "fixedText TkContentType = Some ''$contentType''"
| "fixedText TkOwner = Some ''$owner''"
| "fixedText TkCreator = Some ''$creator''"
| "fixedText TkKey = Some ''$key''"
| "fixedText TkExpiration = Some ''$expiration''"
| "fixedText TkSequence = Some ''$sequence''"
| "fixedText TkAll = Some ''$all''"
| "fixedText TkStar = Some ''*''"
| "fixedText _ = None"

lemma lexRules_lit:
  assumes "(ty, r) \<in> set (lexRules uc)" "fixedText ty = Some w"
  shows "r = lit w" "list_all (\<lambda>c. (of_char c :: int) < 0x80) w"
  using assms by (auto simp: lexRules_def)

text \<open>An attribute name of the user: not empty, without a NUL, and no name with a dollar sign.\<close>

definition identText :: "string \<Rightarrow> bool" where
  "identText v \<longleftrightarrow> v \<noteq> [] \<and> CHR 0x00 \<notin> set v \<and> hd v \<noteq> CHR ''$''"

lemma ident_match:
  assumes "t \<in> set (rxMatch (AnnotationIdentRegex uc) s)" "s = w @ t"
  shows "identText w"
proof -
  have "rxAll (\<lambda>c. c \<noteq> 0) (AnnotationIdentRegex uc)"
    by (auto simp: AnnotationIdentRegex_def letterRune_def numberRune_def range_def)
  with rxMatch_no_nul assms have nul: "CHR 0x00 \<notin> set w" by (metis append_same_eq)
  obtain c s' where s: "s = c # s'"
    using assms(1) by (cases s) (auto simp: AnnotationIdentRegex_def)
  let ?d = "decodeRune c s'"
  have d: "letterRune uc (fst ?d) \<or> fst ?d = of_char CHR ''_''"
    "t \<in> set (rxMatch (RxStar (RxRune (\<lambda>r. letterRune uc r \<or> numberRune uc r \<or> r = of_char CHR ''_''))) (drop (snd ?d) s))"
    using assms(1) by (auto simp: s AnnotationIdentRegex_def case_prod_beta split: if_splits)
  have "c \<noteq> CHR ''$''"
    using d(1) by (auto simp: decodeRune_def letterRune_def range_def)
  moreover have "w \<noteq> []"
  proof -
    obtain v where "drop (snd ?d) s = v @ t" using rxMatch_suffix[OF d(2)] by blast
    then have "length t \<le> length (drop (snd ?d) s)" by simp
    also have "\<dots> < length s" using decodeRune_width(1)[of c s'] by (simp add: s)
    finally show ?thesis using assms(2) by auto
  qed
  ultimately show ?thesis using nul assms(2) s by (cases w) (auto simp: identText_def)
qed

definition tokenOk :: "token \<Rightarrow> bool" where
  "tokenOk tk \<longleftrightarrow> (\<forall>w. fixedText (tkType tk) = Some w \<longrightarrow> tkText tk = w) \<and>
     (tkType tk = TkIdent \<longrightarrow> identText (tkText tk))"

lemma tokenize_ok:
  assumes "tokenize (lexRules uc) s = Some ts"
  shows "list_all tokenOk ts"
proof (rule tokenize_all[OF _ assms])
  fix s tk t
  assume "firstMatch (lexRules uc) s = Some (tk, t)"
  then show "tokenOk tk"
  proof (cases rule: firstMatchD)
    case (1 r)
    have "tkText tk = w" if "fixedText (tkType tk) = Some w" for w
      using rxMatch_lit[of w t s] lexRules_lit[OF 1(1) that] 1(2,3) by auto
    moreover have "identText (tkText tk)" if "tkType tk = TkIdent"
    proof -
      have "r = AnnotationIdentRegex uc" using 1(1) that by (auto simp: lexRules_def)
      then show ?thesis using ident_match 1(2,3) by blast
    qed
    ultimately show ?thesis by (simp add: tokenOk_def)
  qed
qed

end
