(* ===== verification/Query_Grammar.thy ===== *)
theory Query_Grammar
  imports Query_Lexer
begin

text \<open>
  The grammar of the query language, the struct tags of \<open>query/language.go\<close>: which sequences of tokens each
  struct is captured from. The parser library builds the parser from these tags; what is assumed of it is
  that a tree it returns can be derived from the tokens (\<open>parser_ok\<close>). A tag writes a token type as a name and
  a token text in quotes; a quoted text matches whatever the type of the token is.
\<close>

section \<open>The tokens the parser sees\<close>

text \<open>\<open>Elide\<close> drops whitespace, \<open>Unquote\<close> replaces a string token by its content; both are options of the parser.\<close>

fun unquoteTokens :: "(string \<Rightarrow> string option) \<Rightarrow> token list \<Rightarrow> token list option" where
  "unquoteTokens unq [] = Some []"
| "unquoteTokens unq (tk # tks) =
     (if tkType tk = TkWhitespace then unquoteTokens unq tks
      else if tkType tk = TkString
      then (case unq (tkText tk) of
          Some s \<Rightarrow> map_option ((#) (tok TkString s)) (unquoteTokens unq tks) | None \<Rightarrow> None)
      else map_option ((#) tk) (unquoteTokens unq tks))"

lemma unquoteTokens_ok:
  "list_all tokenOk tks \<Longrightarrow> unquoteTokens unq tks = Some tks' \<Longrightarrow> list_all tokenOk tks'"
proof (induction unq tks arbitrary: tks' rule: unquoteTokens.induct)
  case (2 unq tk tks)
  have "tokenOk (tok TkString s)" for s by (simp add: tokenOk_def)
  with 2 show ?case by (auto split: if_splits option.splits)
qed simp

section \<open>Leaves\<close>

definition anyVar :: "token \<Rightarrow> bool" where
  "anyVar t \<longleftrightarrow> tkType t \<in> {TkIdent, TkKey, TkOwner, TkCreator, TkExpiration, TkSequence, TkCreatedAtBlock, TkContentType}"

definition rangeVar :: "token \<Rightarrow> bool" where
  "rangeVar t \<longleftrightarrow> tkType t \<in> {TkIdent, TkExpiration, TkCreatedAtBlock}"

definition stringToken :: "token \<Rightarrow> bool" where
  "stringToken t \<longleftrightarrow> tkType t \<in> {TkString, TkEntityKey, TkAddress}"

text \<open>The parameter \<open>num\<close> converts the text of a number token to the captured field.\<close>

inductive gValue :: "(string \<Rightarrow> uint64 option) \<Rightarrow> token list \<Rightarrow> Value \<Rightarrow> bool" for num where
  string: "stringToken t \<Longrightarrow> gValue num [t] \<lparr>valString = Some (tkText t), valNumber = None\<rparr>"
| number: "tkType t = TkNumber \<Longrightarrow> num (tkText t) = Some n \<Longrightarrow> gValue num [t] \<lparr>valString = None, valNumber = Some n\<rparr>"

inductive gValues :: "(string \<Rightarrow> uint64 option) \<Rightarrow> token list \<Rightarrow> Values \<Rightarrow> bool" for num where
  strings: "tkText l = ''('' \<Longrightarrow> tkText r = '')'' \<Longrightarrow> ts \<noteq> [] \<Longrightarrow> list_all stringToken ts \<Longrightarrow>
    gValues num (l # ts @ [r]) \<lparr>valuesStrings = map tkText ts, valuesNumbers = []\<rparr>"
| numbers: "tkText l = ''('' \<Longrightarrow> tkText r = '')'' \<Longrightarrow> ts \<noteq> [] \<Longrightarrow>
    list_all2 (\<lambda>t n. tkType t = TkNumber \<and> num (tkText t) = Some n) ts ns \<Longrightarrow>
    gValues num (l # ts @ [r]) \<lparr>valuesStrings = [], valuesNumbers = ns\<rparr>"

inductive gEquality :: "(string \<Rightarrow> uint64 option) \<Rightarrow> token list \<Rightarrow> Equality \<Rightarrow> bool" for num where
  eq: "anyVar v \<Longrightarrow> tkType p = TkEq \<Longrightarrow> gValue num ts x \<Longrightarrow>
    gEquality num (v # p # ts) \<lparr>eqVar = tkText v, eqIsNot = False, eqValue = x\<rparr>"
| neq: "anyVar v \<Longrightarrow> tkType p = TkNeq \<Longrightarrow> gValue num ts x \<Longrightarrow>
    gEquality num (v # p # ts) \<lparr>eqVar = tkText v, eqIsNot = True, eqValue = x\<rparr>"

inductive gInclusion :: "(string \<Rightarrow> uint64 option) \<Rightarrow> token list \<Rightarrow> Inclusion \<Rightarrow> bool" for num where
  incl: "anyVar v \<Longrightarrow> tkText i \<in> {''IN'', ''in''} \<Longrightarrow> gValues num ts x \<Longrightarrow>
    gInclusion num (v # i # ts) \<lparr>inVar = tkText v, inIsNot = False, inValues = x\<rparr>"
| not_incl: "anyVar v \<Longrightarrow> tkText n \<in> {''NOT'', ''not''} \<Longrightarrow> tkText i \<in> {''IN'', ''in''} \<Longrightarrow> gValues num ts x \<Longrightarrow>
    gInclusion num (v # n # i # ts) \<lparr>inVar = tkText v, inIsNot = True, inValues = x\<rparr>"

text \<open>The four comparisons differ in the token of the operator only.\<close>

inductive gVarValue :: "(string \<Rightarrow> uint64 option) \<Rightarrow> tokenType \<Rightarrow> token list \<Rightarrow> VarValue \<Rightarrow> bool" for num ty where
  cmp: "rangeVar v \<Longrightarrow> tkType p = ty \<Longrightarrow> gValue num ts x \<Longrightarrow>
    gVarValue num ty (v # p # ts) \<lparr>cmpVar = tkText v, cmpValue = x\<rparr>"

inductive gGlobExpr :: "token list \<Rightarrow> GlobExpr \<Rightarrow> bool" where
  glob: "tkType v = TkIdent \<Longrightarrow> tkType p = TkGlob \<Longrightarrow> tkType s = TkString \<Longrightarrow>
    gGlobExpr [v, p, s] \<lparr>glVar = tkText v, glIsNot = False, glValue = tkText s\<rparr>"
| not_glob: "tkType v = TkIdent \<Longrightarrow> tkType p = TkNotGlob \<Longrightarrow> tkType s = TkString \<Longrightarrow>
    gGlobExpr [v, p, s] \<lparr>glVar = tkText v, glIsNot = True, glValue = tkText s\<rparr>"
| word_glob: "tkType v = TkIdent \<Longrightarrow> tkText p \<in> {''GLOB'', ''glob''} \<Longrightarrow> tkType s = TkString \<Longrightarrow>
    gGlobExpr [v, p, s] \<lparr>glVar = tkText v, glIsNot = False, glValue = tkText s\<rparr>"
| word_not_glob: "tkType v = TkIdent \<Longrightarrow> tkText n \<in> {''NOT'', ''not''} \<Longrightarrow> tkText p \<in> {''GLOB'', ''glob''} \<Longrightarrow>
    tkType s = TkString \<Longrightarrow>
    gGlobExpr [v, n, p, s] \<lparr>glVar = tkText v, glIsNot = True, glValue = tkText s\<rparr>"

section \<open>Expressions\<close>

inductive gExpression :: "(string \<Rightarrow> uint64 option) \<Rightarrow> token list \<Rightarrow> Expression \<Rightarrow> bool"
  and gOrExpression :: "(string \<Rightarrow> uint64 option) \<Rightarrow> token list \<Rightarrow> OrExpression \<Rightarrow> bool"
  and gOrRHSs :: "(string \<Rightarrow> uint64 option) \<Rightarrow> token list \<Rightarrow> OrRHS list \<Rightarrow> bool"
  and gAndExpression :: "(string \<Rightarrow> uint64 option) \<Rightarrow> token list \<Rightarrow> AndExpression \<Rightarrow> bool"
  and gAndRHSs :: "(string \<Rightarrow> uint64 option) \<Rightarrow> token list \<Rightarrow> AndRHS list \<Rightarrow> bool"
  and gEqualExpr :: "(string \<Rightarrow> uint64 option) \<Rightarrow> token list \<Rightarrow> EqualExpr \<Rightarrow> bool"
  and gParen :: "(string \<Rightarrow> uint64 option) \<Rightarrow> token list \<Rightarrow> Paren \<Rightarrow> bool"
  for num where
  expr: "gOrExpression num ts x \<Longrightarrow> gExpression num ts (Expression x)"
| or_expr: "gAndExpression num ts x \<Longrightarrow> gOrRHSs num us rs \<Longrightarrow> gOrExpression num (ts @ us) (OrExpression x rs)"
| or_nil: "gOrRHSs num [] []"
| or_cons: "tkType p = TkOr \<or> tkText p \<in> {''OR'', ''or''} \<Longrightarrow> gAndExpression num ts x \<Longrightarrow> gOrRHSs num us rs \<Longrightarrow>
    gOrRHSs num (p # ts @ us) (OrRHS x # rs)"
| and_expr: "gEqualExpr num ts x \<Longrightarrow> gAndRHSs num us rs \<Longrightarrow> gAndExpression num (ts @ us) (AndExpression x rs)"
| and_nil: "gAndRHSs num [] []"
| and_cons: "tkType p = TkAnd \<or> tkText p \<in> {''AND'', ''and''} \<Longrightarrow> gEqualExpr num ts x \<Longrightarrow> gAndRHSs num us rs \<Longrightarrow>
    gAndRHSs num (p # ts @ us) (AndRHS x # rs)"
| paren: "gParen num ts x \<Longrightarrow> gEqualExpr num ts (parenExpr x)"
| assign: "gEquality num ts x \<Longrightarrow> gEqualExpr num ts (EqualExpr None (Some x) None None None None None None)"
| inclusion: "gInclusion num ts x \<Longrightarrow> gEqualExpr num ts (EqualExpr None None (Some x) None None None None None)"
| less: "gVarValue num TkLt ts x \<Longrightarrow> gEqualExpr num ts (EqualExpr None None None (Some x) None None None None)"
| less_eq: "gVarValue num TkLeqt ts x \<Longrightarrow> gEqualExpr num ts (EqualExpr None None None None (Some x) None None None)"
| greater: "gVarValue num TkGt ts x \<Longrightarrow> gEqualExpr num ts (EqualExpr None None None None None (Some x) None None)"
| greater_eq: "gVarValue num TkGeqt ts x \<Longrightarrow> gEqualExpr num ts (EqualExpr None None None None None None (Some x) None)"
| glob_expr: "gGlobExpr ts x \<Longrightarrow> gEqualExpr num ts (EqualExpr None None None None None None None (Some x))"
| plain_paren: "tkType l = TkLParen \<Longrightarrow> tkType r = TkRParen \<Longrightarrow> gExpression num ts x \<Longrightarrow>
    gParen num (l # ts @ [r]) (Paren False x)"
| not_paren: "tkType n = TkNot \<or> tkText n \<in> {''NOT'', ''not''} \<Longrightarrow> tkType l = TkLParen \<Longrightarrow> tkType r = TkRParen \<Longrightarrow>
    gExpression num ts x \<Longrightarrow> gParen num (n # l # ts @ [r]) (Paren True x)"

inductive gTopLevel :: "(string \<Rightarrow> uint64 option) \<Rightarrow> token list \<Rightarrow> TopLevel \<Rightarrow> bool" for num where
  top_expr: "gExpression num ts x \<Longrightarrow> gTopLevel num ts (Some x)"
| top_all: "tkType t = TkAll \<or> tkType t = TkStar \<Longrightarrow> gTopLevel num [t] None"

section \<open>What is assumed of the parser\<close>

text \<open>
  A tree it returns is captured from the whole query: the lexer cuts the query into tokens, which unquoted
  and without whitespace derive the tree. An error it returns is no panic.
\<close>

definition parser_ok ::
    "unicodeTables \<Rightarrow> (string \<Rightarrow> string option) \<Rightarrow> (string \<Rightarrow> uint64 option) \<Rightarrow> (string \<Rightarrow> TopLevel res) \<Rightarrow> bool" where
  "parser_ok uc unq num ParseString \<longleftrightarrow>
     (\<forall>q t. ParseString q = Inr t \<longrightarrow>
        (\<exists>ts ts'. tokenize (lexRules uc) q = Some ts \<and> unquoteTokens unq ts = Some ts' \<and> gTopLevel num ts' t)) \<and>
     (\<forall>q m. ParseString q \<noteq> Inl (Panic m))"

section \<open>What a parsed tree looks like\<close>

text \<open>
  Every leaf of a parsed tree is one alternative, and no other field of the struct is set; the attribute is an
  identifier or one of the names with a dollar sign, never with a NUL; a value is a string or a number, a list of
  values has strings or numbers, not both, and is not empty; no comparison is of an address.
\<close>

definition attrName :: "string \<Rightarrow> bool" where
  "attrName v \<longleftrightarrow> v \<noteq> [] \<and> CHR 0x00 \<notin> set v"

definition oneValue :: "Value \<Rightarrow> bool" where
  "oneValue v \<longleftrightarrow> (valString v = None) \<noteq> (valNumber v = None)"

definition cmpShape :: "VarValue \<Rightarrow> bool" where
  "cmpShape e \<longleftrightarrow> attrName (cmpVar e) \<and> \<not> addressVar (cmpVar e) \<and> oneValue (cmpValue e)"

fun leafShape :: "EqualExpr \<Rightarrow> bool" where
  "leafShape (EqualExpr paren assign incl lt le gt ge glob) \<longleftrightarrow>
     paren = None \<and>
     length (filter id [assign \<noteq> None, incl \<noteq> None, lt \<noteq> None, le \<noteq> None, gt \<noteq> None, ge \<noteq> None, glob \<noteq> None]) = 1 \<and>
     pred_option (\<lambda>e. attrName (eqVar e) \<and> oneValue (eqValue e)) assign \<and>
     pred_option (\<lambda>e. attrName (inVar e) \<and> (valuesStrings (inValues e) = []) \<noteq> (valuesNumbers (inValues e) = [])) incl \<and>
     pred_option cmpShape lt \<and> pred_option cmpShape le \<and> pred_option cmpShape gt \<and> pred_option cmpShape ge \<and>
     pred_option (\<lambda>e. attrName (glVar e) \<and> \<not> addressVar (glVar e)) glob"

lemma identText_name: "identText v \<Longrightarrow> attrName v \<and> \<not> addressVar v"
  by (auto simp: identText_def attrName_def addressVar_def)

lemma var_names:
  assumes "tokenOk t"
  shows "anyVar t \<Longrightarrow> attrName (tkText t)" "rangeVar t \<Longrightarrow> attrName (tkText t) \<and> \<not> addressVar (tkText t)"
    "tkType t = TkIdent \<Longrightarrow> attrName (tkText t) \<and> \<not> addressVar (tkText t)"
  using assms identText_name[of "tkText t"]
  by (auto simp: tokenOk_def anyVar_def rangeVar_def attrName_def addressVar_def)

lemma gValue_one: "gValue num ts x \<Longrightarrow> oneValue x"
  by (auto elim: gValue.cases simp: oneValue_def)

lemma gValues_one: "gValues num ts x \<Longrightarrow> (valuesStrings x = []) \<noteq> (valuesNumbers x = [])"
  by (auto elim!: gValues.cases)

lemma gVarValue_shape: "gVarValue num ty ts x \<Longrightarrow> list_all tokenOk ts \<Longrightarrow> cmpShape x"
  by (auto elim!: gVarValue.cases simp: cmpShape_def var_names gValue_one)

lemma g_shape:
  "gExpression num ts x1 \<Longrightarrow> list_all tokenOk ts \<Longrightarrow> list_all leafShape (leavesExpression x1)"
  "gOrExpression num ts x2 \<Longrightarrow> list_all tokenOk ts \<Longrightarrow> list_all leafShape (leavesOr x2)"
  "gOrRHSs num ts x3 \<Longrightarrow> list_all tokenOk ts \<Longrightarrow> list_all leafShape (concat (map leavesOrRHS x3))"
  "gAndExpression num ts x4 \<Longrightarrow> list_all tokenOk ts \<Longrightarrow> list_all leafShape (leavesAnd x4)"
  "gAndRHSs num ts x5 \<Longrightarrow> list_all tokenOk ts \<Longrightarrow> list_all leafShape (concat (map leavesAndRHS x5))"
  "gEqualExpr num ts x6 \<Longrightarrow> list_all tokenOk ts \<Longrightarrow> list_all leafShape (leavesEq x6)"
  "gParen num ts x7 \<Longrightarrow> list_all tokenOk ts \<Longrightarrow> list_all leafShape (leavesParen x7)"
proof (induction rule: gExpression_gOrExpression_gOrRHSs_gAndExpression_gAndRHSs_gEqualExpr_gParen.inducts)
  case (assign ts x)
  then show ?case by (auto elim!: gEquality.cases simp: var_names gValue_one)
next
  case (inclusion ts x)
  then show ?case by (auto elim!: gInclusion.cases simp: var_names dest: gValues_one)
next
  case (glob_expr ts x)
  then show ?case by (auto elim!: gGlobExpr.cases simp: var_names)
qed (simp_all add: gVarValue_shape)

lemma gTopLevel_shape: "gTopLevel num ts (Some x) \<Longrightarrow> list_all tokenOk ts \<Longrightarrow> list_all leafShape (leavesExpression x)"
  by (auto elim: gTopLevel.cases dest: g_shape(1))

lemma parser_shape:
  assumes "parser_ok uc unq num ParseString" "ParseString q = Inr (Some x)"
  shows "list_all leafShape (leavesExpression x)"
proof -
  obtain ts ts' where "tokenize (lexRules uc) q = Some ts" "unquoteTokens unq ts = Some ts'" "gTopLevel num ts' (Some x)"
    using assms unfolding parser_ok_def by blast
  then show ?thesis using gTopLevel_shape unquoteTokens_ok tokenize_ok by blast
qed

end
