(* ===== verification/Reference_Parser.thy ===== *)
theory Reference_Parser
  imports Query_Grammar
begin

text \<open>
  A parser for the query language that meets \<open>parser_ok\<close>: a recursive descent over the tokens, with the number
  of tokens as its fuel. It shows that what is assumed of the generated parser can hold, and parses the
  queries of the examples; it accepts the string and number literals without escapes and without a leading zero.
\<close>

section \<open>Literals and names\<close>

definition asciiTables :: unicodeTables where
  "asciiTables = \<lparr>uniLetter = \<lambda>_. False, uniNumber = \<lambda>_. False\<rparr>"

definition refUnquote :: "string \<Rightarrow> string option" where
  "refUnquote s = (let b = butlast (tl s) in if CHR 0x5C \<in> set b \<or> CHR 0x0A \<in> set b then None else Some b)"

definition digit :: "char \<Rightarrow> int" where
  "digit c = of_char c - of_char CHR ''0''"

definition refNum :: "string \<Rightarrow> uint64 option" where
  "refNum s = (let n = fold (\<lambda>c n. 10 * n + digit c) s 0 in
     if n < 2 ^ 64 \<and> (s = ''0'' \<or> (s \<noteq> [] \<and> hd s \<noteq> CHR ''0'')) then Some (word_of_int n) else None)"

section \<open>Leaves\<close>

type_synonym 'a parsed = "('a \<times> token list) option"

definition withTree :: "('a \<Rightarrow> 'b) \<Rightarrow> 'a parsed \<Rightarrow> 'b parsed" where
  "withTree f r = map_option (map_prod f id) r"

lemma withTree_Some [simp]: "withTree f r = Some (y, ts) \<longleftrightarrow> (\<exists>x. r = Some (x, ts) \<and> y = f x)"
  by (auto simp: withTree_def)

fun refValue :: "token list \<Rightarrow> Value parsed" where
  "refValue [] = None"
| "refValue (t # ts) =
     (if stringToken t then Some (\<lparr>valString = Some (tkText t), valNumber = None\<rparr>, ts)
      else if tkType t = TkNumber
      then map_option (\<lambda>n. (\<lparr>valString = None, valNumber = Some n\<rparr>, ts)) (refNum (tkText t)) else None)"

definition refValues :: "token list \<Rightarrow> Values parsed" where
  "refValues ts = (case ts of [] \<Rightarrow> None | l # ts \<Rightarrow>
     if tkText l \<noteq> ''('' then None else
     let ss = takeWhile stringToken ts; ns = takeWhile (\<lambda>t. tkType t = TkNumber) ts
     in if ss \<noteq> []
        then (case drop (length ss) ts of
            r # us \<Rightarrow> if tkText r = '')'' then Some (\<lparr>valuesStrings = map tkText ss, valuesNumbers = []\<rparr>, us) else None
          | [] \<Rightarrow> None)
        else if ns \<noteq> [] \<and> list_all (\<lambda>t. refNum (tkText t) \<noteq> None) ns
        then (case drop (length ns) ts of
            r # us \<Rightarrow> if tkText r = '')''
              then Some (\<lparr>valuesStrings = [], valuesNumbers = map (\<lambda>t. the (refNum (tkText t))) ns\<rparr>, us) else None
          | [] \<Rightarrow> None)
        else None)"

definition refLeaf :: "token list \<Rightarrow> EqualExpr parsed" where
  "refLeaf ts = (case ts of
     v # p # us \<Rightarrow>
       if anyVar v \<and> (tkType p = TkEq \<or> tkType p = TkNeq)
       then withTree (\<lambda>x. EqualExpr None (Some \<lparr>eqVar = tkText v, eqIsNot = (tkType p = TkNeq), eqValue = x\<rparr>)
         None None None None None None) (refValue us)
       else if anyVar v \<and> tkText p \<in> {''IN'', ''in''}
       then withTree (\<lambda>x. EqualExpr None None (Some \<lparr>inVar = tkText v, inIsNot = False, inValues = x\<rparr>)
         None None None None None) (refValues us)
       else if anyVar v \<and> tkText p \<in> {''NOT'', ''not''} \<and> us \<noteq> [] \<and> tkText (hd us) \<in> {''IN'', ''in''}
       then withTree (\<lambda>x. EqualExpr None None (Some \<lparr>inVar = tkText v, inIsNot = True, inValues = x\<rparr>)
         None None None None None) (refValues (tl us))
       else if rangeVar v \<and> tkType p = TkLt
       then withTree (\<lambda>x. EqualExpr None None None (Some \<lparr>cmpVar = tkText v, cmpValue = x\<rparr>) None None None None) (refValue us)
       else if rangeVar v \<and> tkType p = TkLeqt
       then withTree (\<lambda>x. EqualExpr None None None None (Some \<lparr>cmpVar = tkText v, cmpValue = x\<rparr>) None None None) (refValue us)
       else if rangeVar v \<and> tkType p = TkGt
       then withTree (\<lambda>x. EqualExpr None None None None None (Some \<lparr>cmpVar = tkText v, cmpValue = x\<rparr>) None None) (refValue us)
       else if rangeVar v \<and> tkType p = TkGeqt
       then withTree (\<lambda>x. EqualExpr None None None None None None (Some \<lparr>cmpVar = tkText v, cmpValue = x\<rparr>) None) (refValue us)
       else if tkType v = TkIdent \<and> us \<noteq> [] \<and> tkType (hd us) = TkString \<and>
         (tkType p = TkGlob \<or> tkType p = TkNotGlob \<or> tkText p \<in> {''GLOB'', ''glob''})
       then Some (EqualExpr None None None None None None None
         (Some \<lparr>glVar = tkText v, glIsNot = (tkType p = TkNotGlob), glValue = tkText (hd us)\<rparr>), tl us)
       else None
     | _ \<Rightarrow> None)"

section \<open>Expressions\<close>

definition orToken :: "token \<Rightarrow> bool" where
  "orToken p \<longleftrightarrow> tkType p = TkOr \<or> tkText p \<in> {''OR'', ''or''}"

definition andToken :: "token \<Rightarrow> bool" where
  "andToken p \<longleftrightarrow> tkType p = TkAnd \<or> tkText p \<in> {''AND'', ''and''}"

definition notToken :: "token \<Rightarrow> bool" where
  "notToken p \<longleftrightarrow> tkType p = TkNot \<or> tkText p \<in> {''NOT'', ''not''}"

text \<open>What follows a parsed part, and a closing parenthesis.\<close>

definition thenParse :: "'a parsed \<Rightarrow> ('a \<Rightarrow> token list \<Rightarrow> 'b parsed) \<Rightarrow> 'b parsed" where
  "thenParse r f = (case r of Some (x, ts) \<Rightarrow> f x ts | None \<Rightarrow> None)"

lemma thenParse_Some [simp]: "thenParse r f = Some y \<longleftrightarrow> (\<exists>x ts. r = Some (x, ts) \<and> f x ts = Some y)"
  by (auto simp: thenParse_def split: option.splits)

definition closing :: "'a \<Rightarrow> token list \<Rightarrow> 'a parsed" where
  "closing x ts = (case ts of r # us \<Rightarrow> if tkType r = TkRParen then Some (x, us) else None | [] \<Rightarrow> None)"

lemma closing_Some [simp]: "closing x ts = Some (y, us) \<longleftrightarrow> y = x \<and> (\<exists>r. ts = r # us \<and> tkType r = TkRParen)"
  by (auto simp: closing_def split: list.splits)

fun refOr :: "nat \<Rightarrow> token list \<Rightarrow> Expression parsed"
  and refOrRHSs :: "nat \<Rightarrow> token list \<Rightarrow> OrRHS list parsed"
  and refAnd :: "nat \<Rightarrow> token list \<Rightarrow> AndExpression parsed"
  and refAndRHSs :: "nat \<Rightarrow> token list \<Rightarrow> AndRHS list parsed"
  and refEqual :: "nat \<Rightarrow> token list \<Rightarrow> EqualExpr parsed" where
  "refOr 0 ts = None"
| "refOr (Suc n) ts = thenParse (refAnd n ts) (\<lambda>x us. withTree (\<lambda>rs. Expression (OrExpression x rs)) (refOrRHSs n us))"
| "refOrRHSs 0 ts = None"
| "refOrRHSs (Suc n) ts =
     (if ts \<noteq> [] \<and> orToken (hd ts)
      then thenParse (refAnd n (tl ts)) (\<lambda>x us. withTree (\<lambda>rs. OrRHS x # rs) (refOrRHSs n us)) else Some ([], ts))"
| "refAnd 0 ts = None"
| "refAnd (Suc n) ts = thenParse (refEqual n ts) (\<lambda>x us. withTree (\<lambda>rs. AndExpression x rs) (refAndRHSs n us))"
| "refAndRHSs 0 ts = None"
| "refAndRHSs (Suc n) ts =
     (if ts \<noteq> [] \<and> andToken (hd ts)
      then thenParse (refEqual n (tl ts)) (\<lambda>x us. withTree (\<lambda>rs. AndRHS x # rs) (refAndRHSs n us)) else Some ([], ts))"
| "refEqual 0 ts = None"
| "refEqual (Suc n) ts =
     (if ts \<noteq> [] \<and> tkType (hd ts) = TkLParen
      then thenParse (refOr n (tl ts)) (\<lambda>x. closing (parenExpr (Paren False x)))
      else if ts \<noteq> [] \<and> notToken (hd ts) \<and> tl ts \<noteq> [] \<and> tkType (hd (tl ts)) = TkLParen
      then thenParse (refOr n (tl (tl ts))) (\<lambda>x. closing (parenExpr (Paren True x)))
      else refLeaf ts)"

definition refTopLevel :: "token list \<Rightarrow> TopLevel option" where
  "refTopLevel ts =
     (if length ts = 1 \<and> tkType (hd ts) \<in> {TkAll, TkStar} then Some None
      else case refOr (4 * length ts + 4) ts of Some (x, []) \<Rightarrow> Some (Some x) | _ \<Rightarrow> None)"

definition refParseString :: "string \<Rightarrow> TopLevel res" where
  "refParseString q =
     (case tokenize (lexRules asciiTables) q of None \<Rightarrow> Inl (Errorf ''invalid input text'') | Some ts \<Rightarrow>
     (case unquoteTokens refUnquote ts of None \<Rightarrow> Inl (Errorf ''invalid quoted string'') | Some ts' \<Rightarrow>
     (case refTopLevel ts' of None \<Rightarrow> Inl (Errorf ''unexpected token'') | Some t \<Rightarrow> Inr t)))"

section \<open>The parser meets its contract\<close>

lemma refValue_sound: "refValue ts = Some (x, r) \<Longrightarrow> \<exists>us. ts = us @ r \<and> gValue refNum us x"
  by (cases ts) (fastforce intro: gValue.intros split: if_splits)+

lemma list_all_takeWhile: "list_all P (takeWhile P xs)"
  by (induction xs) auto

lemma refValues_sound:
  assumes "refValues ts = Some (x, r)"
  shows "\<exists>us. ts = us @ r \<and> gValues refNum us x"
proof -
  obtain l ts' where ts: "ts = l # ts'" "tkText l = ''(''"
    using assms by (auto simp: refValues_def split: list.splits if_splits)
  let ?ss = "takeWhile stringToken ts'" and ?ns = "takeWhile (\<lambda>t. tkType t = TkNumber) ts'"
  show ?thesis
  proof (cases "?ss = []")
    case False
    then obtain c where c: "drop (length ?ss) ts' = c # r" "tkText c = '')''"
      "x = \<lparr>valuesStrings = map tkText ?ss, valuesNumbers = []\<rparr>"
      using assms ts by (auto simp: refValues_def Let_def split: list.splits if_splits)
    have "ts' = ?ss @ c # r" using c(1) by (metis dropWhile_eq_drop takeWhile_dropWhile_id)
    then show ?thesis
      using gValues.strings[OF ts(2) c(2) False list_all_takeWhile, of refNum] ts(1) c(3)
      by (intro exI[of _ "l # ?ss @ [c]"]) simp
  next
    case True
    then obtain c where c: "?ns \<noteq> []" "list_all (\<lambda>t. refNum (tkText t) \<noteq> None) ?ns"
      "drop (length ?ns) ts' = c # r" "tkText c = '')''"
      "x = \<lparr>valuesStrings = [], valuesNumbers = map (\<lambda>t. the (refNum (tkText t))) ?ns\<rparr>"
      using assms ts by (auto simp: refValues_def Let_def split: list.splits if_splits)
    have "ts' = ?ns @ c # r" using c(3) by (metis dropWhile_eq_drop takeWhile_dropWhile_id)
    moreover have "list_all2 (\<lambda>t n. tkType t = TkNumber \<and> refNum (tkText t) = Some n) ?ns
        (map (\<lambda>t. the (refNum (tkText t))) ?ns)"
      using c(2) list_all_takeWhile[of "\<lambda>t. tkType t = TkNumber" ts']
      by (auto simp: list_all2_map2 list_all2_same list_all_iff)
    ultimately show ?thesis
      using gValues.numbers[OF ts(2) c(4) c(1)] ts(1) c(5) by (intro exI[of _ "l # ?ns @ [c]"]) simp
  qed
qed

lemma consumed:
  "gEqualExpr num (v # p # us) x \<Longrightarrow> \<exists>ts. v # p # us @ r = ts @ r \<and> gEqualExpr num ts x"
  "gEqualExpr num (v # n # p # us) x \<Longrightarrow> \<exists>ts. v # n # p # us @ r = ts @ r \<and> gEqualExpr num ts x"
  "gEqualExpr num [v, p, t] x \<Longrightarrow> \<exists>ts. v # p # t # r = ts @ r \<and> gEqualExpr num ts x"
  by (metis append_Cons append_Nil)+

lemma refLeaf_sound:
  assumes "refLeaf ts = Some (x, r)"
  shows "\<exists>us. ts = us @ r \<and> gEqualExpr refNum us x"
proof -
  obtain v p ts' where ts: "ts = v # p # ts'"
    using assms by (auto simp: refLeaf_def split: list.splits)
  note leaf = assms[unfolded refLeaf_def ts list.case]
  show ?thesis
  proof (cases "anyVar v \<and> (tkType p = TkEq \<or> tkType p = TkNeq)")
    case True
    then show ?thesis
      using leaf unfolding ts
      by (auto dest!: refValue_sound intro!: consumed(1) assign gEquality.intros)
  next
    case F1: False
    show ?thesis
    proof (cases "anyVar v \<and> tkText p \<in> {''IN'', ''in''}")
      case True
      then show ?thesis
        using leaf F1 unfolding ts
        by (auto dest!: refValues_sound intro!: consumed(1) inclusion gInclusion.incl)
    next
      case F2: False
      show ?thesis
      proof (cases "anyVar v \<and> tkText p \<in> {''NOT'', ''not''} \<and> ts' \<noteq> [] \<and> tkText (hd ts') \<in> {''IN'', ''in''}")
        case True
        then obtain i us where "ts' = i # us" "tkText i \<in> {''IN'', ''in''}" by (cases ts') auto
        then show ?thesis
          using leaf F1 F2 True unfolding ts
          by (auto dest!: refValues_sound intro!: consumed(2) inclusion gInclusion.not_incl)
      next
        case F3: False
        note rest = leaf[unfolded if_not_P[OF F1] if_not_P[OF F2] if_not_P[OF F3]]
        show ?thesis
        proof (cases "rangeVar v \<and> tkType p \<in> {TkLt, TkLeqt, TkGt, TkGeqt}")
          case True
          then show ?thesis
            using rest unfolding ts
            by (auto dest!: refValue_sound intro!: consumed(1) less less_eq greater greater_eq gVarValue.intros)
        next
          case F4: False
          obtain t where t: "ts' = t # r" "tkType v = TkIdent" "tkType t = TkString"
            "tkType p = TkGlob \<or> tkType p = TkNotGlob \<or> tkText p \<in> {''GLOB'', ''glob''}"
            "x = EqualExpr None None None None None None None
              (Some \<lparr>glVar = tkText v, glIsNot = (tkType p = TkNotGlob), glValue = tkText t\<rparr>)"
            using rest F4 by (cases ts') (auto split: if_splits)
          have "gGlobExpr [v, p, t] \<lparr>glVar = tkText v, glIsNot = (tkType p = TkNotGlob), glValue = tkText t\<rparr>"
            using t(2-4) not_glob[of v p t] gGlobExpr.glob[of v p t] word_glob[of v p t] by (cases "tkType p = TkNotGlob") auto
          then show ?thesis
            unfolding ts t(1,5) by (intro consumed(3) glob_expr)
        qed
      qed
    qed
  qed
qed

lemma ref_sound:
  "refOr n ts = Some (x1, r) \<Longrightarrow> \<exists>us. ts = us @ r \<and> gExpression refNum us x1"
  "refOrRHSs n ts = Some (x2, r) \<Longrightarrow> \<exists>us. ts = us @ r \<and> gOrRHSs refNum us x2"
  "refAnd n ts = Some (x3, r) \<Longrightarrow> \<exists>us. ts = us @ r \<and> gAndExpression refNum us x3"
  "refAndRHSs n ts = Some (x4, r) \<Longrightarrow> \<exists>us. ts = us @ r \<and> gAndRHSs refNum us x4"
  "refEqual n ts = Some (x5, r) \<Longrightarrow> \<exists>us. ts = us @ r \<and> gEqualExpr refNum us x5"
proof (induction n ts and n ts and n ts and n ts and n ts arbitrary: x1 r and x2 r and x3 r and x4 r and x5 r
    rule: refOr_refOrRHSs_refAnd_refAndRHSs_refEqual.induct)
  case (2 n ts)
  then obtain x us rs where "refAnd n ts = Some (x, us)" "refOrRHSs n us = Some (rs, r)"
    "x1 = Expression (OrExpression x rs)" by auto
  then obtain as bs where "ts = as @ us" "gAndExpression refNum as x" "us = bs @ r" "gOrRHSs refNum bs rs"
    using "2.IH" by meson
  then show ?case using \<open>x1 = _\<close> by (intro exI[of _ "as @ bs"]) (auto intro: expr or_expr)
next
  case (4 n ts)
  show ?case
  proof (cases "ts \<noteq> [] \<and> orToken (hd ts)")
    case True
    then obtain p ts' where ts: "ts = p # ts'" "orToken p" by (cases ts) auto
    then obtain x us rs where "refAnd n ts' = Some (x, us)" "refOrRHSs n us = Some (rs, r)" "x2 = OrRHS x # rs"
      using "4.prems" by auto
    then obtain as bs where "ts' = as @ us" "gAndExpression refNum as x" "us = bs @ r" "gOrRHSs refNum bs rs"
      using "4.IH" True ts by (metis list.sel(3))
    then show ?thesis using ts \<open>x2 = _\<close> or_cons[of p refNum as x bs rs]
      by (intro exI[of _ "p # as @ bs"]) (simp add: orToken_def)
  next
    case False
    then show ?thesis using "4.prems" or_nil by auto
  qed
next
  case (6 n ts)
  then obtain x us rs where "refEqual n ts = Some (x, us)" "refAndRHSs n us = Some (rs, r)" "x3 = AndExpression x rs"
    by auto
  then obtain as bs where "ts = as @ us" "gEqualExpr refNum as x" "us = bs @ r" "gAndRHSs refNum bs rs"
    using "6.IH" by meson
  then show ?case using \<open>x3 = _\<close> by (intro exI[of _ "as @ bs"]) (auto intro: and_expr)
next
  case (8 n ts)
  show ?case
  proof (cases "ts \<noteq> [] \<and> andToken (hd ts)")
    case True
    then obtain p ts' where ts: "ts = p # ts'" "andToken p" by (cases ts) auto
    then obtain x us rs where "refEqual n ts' = Some (x, us)" "refAndRHSs n us = Some (rs, r)" "x4 = AndRHS x # rs"
      using "8.prems" by auto
    then obtain as bs where "ts' = as @ us" "gEqualExpr refNum as x" "us = bs @ r" "gAndRHSs refNum bs rs"
      using "8.IH" True ts by (metis list.sel(3))
    then show ?thesis using ts \<open>x4 = _\<close> and_cons[of p refNum as x bs rs]
      by (intro exI[of _ "p # as @ bs"]) (simp add: andToken_def)
  next
    case False
    then show ?thesis using "8.prems" and_nil by auto
  qed
next
  case (10 n ts)
  consider (plain) l ts' where "ts = l # ts'" "tkType l = TkLParen"
    | (neg) m l ts' where "ts = m # l # ts'" "tkType m \<noteq> TkLParen" "notToken m" "tkType l = TkLParen"
    | (leaf) "refLeaf ts = Some (x5, r)"
    using "10.prems" by (cases ts; cases "tl ts") (auto split: if_splits)
  then show ?case
  proof cases
    case plain
    then obtain x us c where x: "refOr n ts' = Some (x, us)" "x5 = parenExpr (Paren False x)" "us = c # r" "tkType c = TkRParen"
      using "10.prems" by auto
    obtain as where "ts' = as @ us" "gExpression refNum as x" using "10.IH"(1) plain x(1) by auto
    then show ?thesis using plain x plain_paren[of l c refNum as x]
      by (intro exI[of _ "l # as @ [c]"]) (auto intro: paren)
  next
    case neg
    then obtain x us c where x: "refOr n ts' = Some (x, us)" "x5 = parenExpr (Paren True x)" "us = c # r" "tkType c = TkRParen"
      using "10.prems" by auto
    obtain as where "ts' = as @ us" "gExpression refNum as x" using "10.IH"(2) neg x(1) by auto
    then show ?thesis using neg x not_paren[of m l c refNum as x]
      by (intro exI[of _ "m # l # as @ [c]"]) (auto simp: notToken_def intro: paren)
  next
    case leaf
    then show ?thesis by (rule refLeaf_sound)
  qed
qed simp_all

lemma parser_refParseString: "parser_ok asciiTables refUnquote refNum refParseString"
proof -
  have "gTopLevel refNum ts t" if r: "refTopLevel ts = Some t" for ts t
  proof (cases "length ts = 1 \<and> tkType (hd ts) \<in> {TkAll, TkStar}")
    case True
    then show ?thesis using r by (cases ts) (auto simp: refTopLevel_def intro: top_all)
  next
    case False
    then obtain x where "refOr (4 * length ts + 4) ts = Some (x, [])" "t = Some x"
      using r by (auto simp: refTopLevel_def split: option.splits prod.splits list.splits)
    then show ?thesis using ref_sound(1)[of _ ts x "[]"] by (auto intro: top_expr)
  qed
  then show ?thesis by (auto simp: parser_ok_def refParseString_def split: option.splits)
qed

end
