(* ===== verification/Query_Parsed.thy ===== *)
theory Query_Parsed
  imports Query_Grammar Query_Eval
begin

text \<open>
  What happens to a query the parser accepts: how normalisation treats the leaves of its tree, when it
  succeeds, and which terms its normal form has.
\<close>

section \<open>Normalisation and properties of leaves\<close>

lemma invEqualExpr_cases:
  assumes "invEqualExpr (EqualExpr paren as inc lt le gt ge gl) = Inr l'"
  obtains p where "paren = Some p" "l' = parenExpr (invParen p)"
  | x where "paren = None" "lt = Some x" "l' = EqualExpr None None None None None None (Some (invLessThan x)) None"
  | x where "paren = None" "lt = None" "le = Some x"
      "l' = EqualExpr None None None None None (Some (invLessOrEqualThan x)) None None"
  | x where "paren = None" "lt = None" "le = None" "gt = Some x"
      "l' = EqualExpr None None None None (Some (invGreaterThan x)) None None None"
  | x where "paren = None" "lt = None" "le = None" "gt = None" "ge = Some x"
      "l' = EqualExpr None None None (Some (invGreaterOrEqualThan x)) None None None None"
  | x where "paren = None" "lt = None" "le = None" "gt = None" "ge = None" "gl = Some x"
      "l' = EqualExpr None None None None None None None (Some (invGlob x))"
  | x where "paren = None" "lt = None" "le = None" "gt = None" "ge = None" "gl = None" "as = Some x"
      "l' = EqualExpr None (Some (invEquality x)) None None None None None None"
  | x where "paren = None" "lt = None" "le = None" "gt = None" "ge = None" "gl = None" "as = None" "inc = Some x"
      "l' = EqualExpr None None (Some (invInclusion x)) None None None None None"
  using assms unfolding invEqualExpr_def by (simp split: option.splits)

lemma turned_leafOk:
  assumes "turned l l'" "leafOk uni l'"
  shows "leafOk uni l"
proof (cases "l' = l")
  case False
  obtain paren as inc lt le gt ge gl where l: "l = EqualExpr paren as inc lt le gt ge gl" by (cases l)
  have "invEqualExpr (EqualExpr paren as inc lt le gt ge gl) = Inr l'" using assms(1) False by (simp add: turned_def l)
  then show ?thesis
    using assms(2)
    by (cases rule: invEqualExpr_cases)
      (auto simp: l leafOk_def normEqualExpr_def andThen_eq_Inr normEquality_def invEquality_def split: if_splits)
qed (use assms(2) in simp)

lemma turned_leavesOk: "list_all2 turned ls ls' \<Longrightarrow> leavesOk uni ls' \<Longrightarrow> leavesOk uni ls"
  by (induction ls ls' rule: list_all2_induct) (auto intro: turned_leafOk)

lemma list_all2_left: "list_all2 P xs ys \<Longrightarrow> x \<in> set xs \<Longrightarrow> \<exists>y. P x y"
  by (induction xs ys rule: list_all2_induct) auto

lemma mapRes_Inl: "mapRes f xs = Inl e \<Longrightarrow> \<exists>x \<in> set xs. f x = Inl e"
  by (induction xs) (auto simp: andThen_eq_Inl)

lemma combineTerms_set:
  assumes "c \<in> set (combineTerms ts)" "x \<in> set c"
  shows "\<exists>d \<in> set ts. \<exists>c' \<in> set d. x \<in> set c'"
proof -
  let ?f = "\<lambda>d ast. concat (map (\<lambda>c. map (\<lambda>t. c @ t) d) ast)"
  have "\<exists>c' \<in> set as \<union> \<Union> (set ` set ts). x \<in> set c'" if "c \<in> set (fold ?f ts as)" "x \<in> set c" for as
    using that
  proof (induction ts arbitrary: as)
    case (Cons d ts)
    obtain c' where c': "c' \<in> set (?f d as) \<union> \<Union> (set ` set ts)" "x \<in> set c'"
      using Cons.IH[of "?f d as"] Cons.prems by auto
    show ?case
    proof (cases "c' \<in> set (?f d as)")
      case True
      then obtain a b where "a \<in> set as" "b \<in> set d" "c' = a @ b" by auto
      with c'(2) show ?thesis by auto
    qed (use c' in auto)
  qed auto
  from this[of "[[]]"] assms show ?thesis by (auto simp: combineTerms_def)
qed

text \<open>
  When normalisation fails it is with the error of a leaf, and a term of its result is the normal form of
  a leaf; the leaf has every property that inversion keeps and that the leaves of the tree have.
\<close>

definition fromLeaf :: "(string \<Rightarrow> string) \<Rightarrow> (EqualExpr \<Rightarrow> bool) \<Rightarrow> ASTOr res \<Rightarrow> bool" where
  "fromLeaf uni Q r \<longleftrightarrow>
     (case r of Inl er \<Rightarrow> \<exists>l. Q l \<and> normEqualExpr uni l = Inl er
      | Inr t \<Rightarrow> \<forall>c \<in> set t. \<forall>x \<in> set c. \<exists>l. Q l \<and> normEqualExpr uni l = Inr x)"

lemma fromLeaf_seq:
  assumes r1: "fromLeaf uni Q r1" and f: "\<And>t r. r1 = Inr t \<Longrightarrow> r \<in> set rs \<Longrightarrow> fromLeaf uni Q (f r)"
    and comb: "\<And>t ts c x. c \<in> set (comb t ts) \<Longrightarrow> x \<in> set c \<Longrightarrow> \<exists>d \<in> set (t # ts). \<exists>c' \<in> set d. x \<in> set c'"
  shows "fromLeaf uni Q (andThen r1 (\<lambda>t. andThen (mapRes f rs) (\<lambda>ts. Inr (comb t ts))))"
proof (cases r1)
  case (Inr t)
  show ?thesis
  proof (cases "mapRes f rs")
    case (Inl er)
    then obtain r where "r \<in> set rs" "f r = Inl er" using mapRes_Inl by blast
    with f[OF Inr] show ?thesis by (fastforce simp: Inr Inl fromLeaf_def)
  next
    case i: (Inr ts)
    have "list_all2 (\<lambda>r t. f r = Inr t) rs ts" using i by (simp add: mapRes_Inr)
    then have "\<exists>r \<in> set rs. f r = Inr d" if "d \<in> set ts" for d
      using that by (induction rs ts rule: list_all2_induct) auto
    then have "\<forall>d \<in> set (t # ts). fromLeaf uni Q (Inr d)" using f[OF Inr] r1 Inr by fastforce
    then show ?thesis using comb[of _ t ts] by (fastforce simp: Inr i fromLeaf_def)
  qed
qed (use r1 in \<open>simp add: fromLeaf_def\<close>)

lemma norm_leaves:
  assumes Q: "leafClosed Q"
  shows "list_all Q (leavesExpression e) \<Longrightarrow> fromLeaf uni Q (normExpression uni e)"
    and "list_all Q (leavesOr a) \<Longrightarrow> fromLeaf uni Q (normOrExpression uni a)"
    and "list_all Q (leavesAnd b) \<Longrightarrow> fromLeaf uni Q (normAndExpression uni b)"
    and "list_all Q (leavesEq c) \<Longrightarrow> fromLeaf uni Q (convertToTerms uni c)"
    and "list_all Q (leavesParen d) \<Longrightarrow> fromLeaf uni Q (normParen uni d)"
proof (induction uni e and uni a and uni b and uni c and uni d
    rule: normExpression_normOrExpression_normAndExpression_convertToTerms_normParen.induct)
  case (1 uni e)
  then show ?case by simp
next
  case (2 uni left right)
  have "fromLeaf uni Q (case r of OrRHS e \<Rightarrow> normAndExpression uni e)"
    if "normAndExpression uni left = Inr ts" "r \<in> set right" for r ts
  proof -
    obtain e where e: "r = OrRHS e" by (cases r)
    have "list_all Q (leavesAnd e)" using "2.prems" that e by (fastforce simp: list_all_iff)
    from "2.IH"(2)[OF that e this] show ?thesis by (simp add: e)
  qed
  with "2.IH"(1) "2.prems" show ?case
    unfolding normOrExpression.simps by (intro fromLeaf_seq) auto
next
  case (3 uni left right)
  have "fromLeaf uni Q (case r of AndRHS e \<Rightarrow> convertToTerms uni e)"
    if "convertToTerms uni left = Inr ts" "r \<in> set right" for r ts
  proof -
    obtain e where e: "r = AndRHS e" by (cases r)
    have "list_all Q (leavesEq e)" using "3.prems" that e by (fastforce simp: list_all_iff)
    from "3.IH"(2)[OF that e this] show ?thesis by (simp add: e)
  qed
  with "3.IH"(1) "3.prems" show ?case
    unfolding normAndExpression.simps by (intro fromLeaf_seq combineTerms_set) auto
next
  case (4 uni paren assign incl lt le gt ge glob)
  show ?case
  proof (cases paren)
    case None
    let ?l = "EqualExpr paren assign incl lt le gt ge glob"
    have "Q ?l" using "4.prems" None by simp
    then show ?thesis using None by (cases "normEqualExpr uni ?l") (auto simp: fromLeaf_def)
  next
    case (Some p)
    then show ?thesis using "4.prems" "4.IH"[OF Some] by simp
  qed
next
  case (5 uni isNot nested)
  show ?case
  proof (cases isNot)
    case True
    obtain e' where e': "invExpression nested = Inr e'"
      using invExpression_total[OF Q, of nested] "5.prems" by auto
    have "list_all Q (leavesExpression e')"
      by (rule turned_all[OF Q turned_Expression[OF e']]) (use "5.prems" in simp)
    then show ?thesis using "5.IH"(1)[OF True e'] True e' by simp
  next
    case False
    then show ?thesis using "5.prems" "5.IH"(2) by simp
  qed
qed

text \<open>Conversely, a tree whose normalisation succeeds has leaves that all normalise.\<close>

lemma norm_leavesOk:
  shows "normExpression uni e = Inr t1 \<Longrightarrow> leavesOk uni (leavesExpression e)"
    and "normOrExpression uni a = Inr t2 \<Longrightarrow> leavesOk uni (leavesOr a)"
    and "normAndExpression uni b = Inr t3 \<Longrightarrow> leavesOk uni (leavesAnd b)"
    and "convertToTerms uni c = Inr t4 \<Longrightarrow> leavesOk uni (leavesEq c)"
    and "normParen uni d = Inr t5 \<Longrightarrow> leavesOk uni (leavesParen d)"
proof (induction uni e and uni a and uni b and uni c and uni d arbitrary: t1 and t2 and t3 and t4 and t5
    rule: normExpression_normOrExpression_normAndExpression_convertToTerms_normParen.induct)
  case (2 uni left right)
  then obtain ts tss where ts: "normAndExpression uni left = Inr ts"
    "list_all2 (\<lambda>r t. (case r of OrRHS e \<Rightarrow> normAndExpression uni e) = Inr t) right tss"
    by (auto simp: andThen_eq_Inr mapRes_Inr)
  have "leavesOk uni (leavesOrRHS r)" if r: "r \<in> set right" for r
  proof -
    obtain e where e: "r = OrRHS e" by (cases r)
    obtain t where "normAndExpression uni e = Inr t" using list_all2_left[OF ts(2) r] e by auto
    from "2.IH"(2)[OF ts(1) r e this] show ?thesis by (simp add: e)
  qed
  with "2.IH"(1)[OF ts(1)] show ?case by simp
next
  case (3 uni left right)
  then obtain ts tss where ts: "convertToTerms uni left = Inr ts"
    "list_all2 (\<lambda>r t. (case r of AndRHS e \<Rightarrow> convertToTerms uni e) = Inr t) right tss"
    by (auto simp: andThen_eq_Inr mapRes_Inr)
  have "leavesOk uni (leavesAndRHS r)" if r: "r \<in> set right" for r
  proof -
    obtain e where e: "r = AndRHS e" by (cases r)
    obtain t where "convertToTerms uni e = Inr t" using list_all2_left[OF ts(2) r] e by auto
    from "3.IH"(2)[OF ts(1) r e this] show ?thesis by (simp add: e)
  qed
  with "3.IH"(1)[OF ts(1)] show ?case by simp
next
  case (4 uni paren assign incl lt le gt ge glob)
  show ?case
  proof (cases paren)
    case None
    then show ?thesis using "4.prems" by (auto simp: leafOk_def andThen_eq_Inr)
  next
    case (Some p)
    then show ?thesis using "4.prems" "4.IH"[OF Some] by simp
  qed
next
  case (5 uni isNot nested)
  show ?case
  proof (cases isNot)
    case True
    then obtain e' where e': "invExpression nested = Inr e'" "normExpression uni e' = Inr t5"
      using "5.prems" by (auto simp: andThen_eq_Inr)
    from turned_leavesOk[OF turned_Expression[OF e'(1)] "5.IH"(1)[OF True e'(1,2)]] show ?thesis by simp
  next
    case False
    then show ?thesis using "5.prems" "5.IH"(2) by simp
  qed
qed simp

section \<open>Parsed queries\<close>

lemma leafShape_cases:
  assumes "leafShape l"
  obtains e where "l = EqualExpr None (Some e) None None None None None None" "attrName (eqVar e)" "oneValue (eqValue e)"
  | e where "l = EqualExpr None None (Some e) None None None None None" "attrName (inVar e)"
      "(valuesStrings (inValues e) = []) \<noteq> (valuesNumbers (inValues e) = [])"
  | e where "l = EqualExpr None None None (Some e) None None None None" "cmpShape e"
  | e where "l = EqualExpr None None None None (Some e) None None None" "cmpShape e"
  | e where "l = EqualExpr None None None None None (Some e) None None" "cmpShape e"
  | e where "l = EqualExpr None None None None None None (Some e) None" "cmpShape e"
  | e where "l = EqualExpr None None None None None None None (Some e)" "attrName (glVar e)" "\<not> addressVar (glVar e)"
  using assms by (cases l) (auto split: if_splits)

lemma leafClosed_shape: "leafClosed leafShape"
  unfolding leafClosed_def
proof (intro allI impI)
  fix l
  assume "leafShape l"
  then show "\<exists>l'. invEqualExpr l = Inr l' \<and> leafShape l'"
    by (cases rule: leafShape_cases) (simp_all add: invEqualExpr_def invEquality_def invInclusion_def invGlob_def)
qed

text \<open>The one leaf whose normalisation fails: an equality of an address with a number.\<close>

definition nilLeaf :: "EqualExpr \<Rightarrow> bool" where
  "nilLeaf l \<longleftrightarrow> (case l of EqualExpr paren assign incl lt le gt ge glob \<Rightarrow>
     pred_option (\<lambda>e. addressVar (eqVar e) \<and> valString (eqValue e) = None) assign \<and> assign \<noteq> None)"

definition nilPanic :: err where
  "nilPanic = Panic ''nil pointer dereference''"

text \<open>A term of a normal form: one field, with a name that has no NUL and a value.\<close>

definition termShape :: "ASTTerm \<Rightarrow> bool" where
  "termShape t \<longleftrightarrow>
     (\<exists>e. t = noTerm\<lparr>tmAssign := Some e\<rparr> \<and> attrName (eqVar e) \<and> oneValue (eqValue e)) \<or>
     (\<exists>e. t = noTerm\<lparr>tmInclusion := Some e\<rparr> \<and> attrName (inVar e)) \<or>
     (\<exists>e. cmpShape e \<and> (t = noTerm\<lparr>tmLessThan := Some e\<rparr> \<or> t = noTerm\<lparr>tmLessOrEqualThan := Some e\<rparr> \<or>
        t = noTerm\<lparr>tmGreaterThan := Some e\<rparr> \<or> t = noTerm\<lparr>tmGreaterOrEqualThan := Some e\<rparr>)) \<or>
     (\<exists>e. t = noTerm\<lparr>tmGlob := Some e\<rparr> \<and> attrName (glVar e))"

lemma termShape_simps [simp]:
  "termShape (noTerm\<lparr>tmAssign := Some e\<rparr>) \<longleftrightarrow> attrName (eqVar e) \<and> oneValue (eqValue e)"
  "termShape (noTerm\<lparr>tmInclusion := Some i\<rparr>) \<longleftrightarrow> attrName (inVar i)"
  "termShape (noTerm\<lparr>tmLessThan := Some v\<rparr>) \<longleftrightarrow> cmpShape v"
  "termShape (noTerm\<lparr>tmLessOrEqualThan := Some v\<rparr>) \<longleftrightarrow> cmpShape v"
  "termShape (noTerm\<lparr>tmGreaterThan := Some v\<rparr>) \<longleftrightarrow> cmpShape v"
  "termShape (noTerm\<lparr>tmGreaterOrEqualThan := Some v\<rparr>) \<longleftrightarrow> cmpShape v"
  "termShape (noTerm\<lparr>tmGlob := Some g\<rparr>) \<longleftrightarrow> attrName (glVar g)"
  by (auto simp: termShape_def noTerm_def)

lemma cmpShape_norm: "cmpShape e \<Longrightarrow> normVarValue uni e = Inr e"
  by (simp add: cmpShape_def normVarValue_def)

lemma leafShape_norm:
  assumes "leafShape l"
  shows "if nilLeaf l then normEqualExpr uni l = Inl nilPanic else \<exists>t. normEqualExpr uni l = Inr t \<and> termShape t"
  using assms
proof (cases rule: leafShape_cases)
  case (1 e)
  then show ?thesis
    by (auto simp: nilLeaf_def nilPanic_def normEqualExpr_def normEquality_def derefString_def oneValue_def)
next
  case (2 e)
  then show ?thesis
    by (auto simp: nilLeaf_def normEqualExpr_def normInclusion_def)
qed (auto simp: nilLeaf_def normEqualExpr_def cmpShape_norm)

lemma leafShape_leafOk: "leafShape l \<Longrightarrow> leafOk uni l \<longleftrightarrow> \<not> nilLeaf l"
  using leafShape_norm[of l uni] by (auto simp: leafOk_def split: if_splits)

text \<open>
  Normalisation of a parsed tree either gives terms of this shape, or, exactly when the tree has such a leaf,
  dereferences a nil pointer.
\<close>

lemma norm_parsed:
  assumes shape: "list_all leafShape (leavesExpression x)"
  shows "if list_ex nilLeaf (leavesExpression x) then normExpression uni x = Inl nilPanic
    else \<exists>t. normExpression uni x = Inr t \<and> (\<forall>c \<in> set t. c \<noteq> [] \<and> list_all termShape c)"
proof -
  have l: "fromLeaf uni leafShape (normExpression uni x)" by (rule norm_leaves(1)[OF leafClosed_shape shape])
  have ok: "leavesOk uni (leavesExpression x) \<longleftrightarrow> \<not> list_ex nilLeaf (leavesExpression x)"
    using shape leafShape_leafOk by (auto simp: leavesOk_def list_all_iff list_ex_iff)
  show ?thesis
  proof (cases "normExpression uni x")
    case (Inl er)
    then obtain l where "leafShape l" "normEqualExpr uni l = Inl er" using l by (auto simp: fromLeaf_def)
    then have "er = nilPanic" using leafShape_norm[of l uni] by (auto split: if_splits)
    moreover have "\<not> leavesOk uni (leavesExpression x)" using norm_total(1)[of uni x] Inl by auto
    ultimately show ?thesis using Inl ok by simp
  next
    case (Inr t)
    have "leavesOk uni (leavesExpression x)" by (rule norm_leavesOk(1)[OF Inr])
    moreover have "termShape y" if cy: "c \<in> set t" "y \<in> set c" for c y
    proof -
      obtain l where "leafShape l" "normEqualExpr uni l = Inr y" using l cy unfolding Inr fromLeaf_def by auto
      then show ?thesis using leafShape_norm[of l uni] by (auto split: if_splits)
    qed
    moreover have "[] \<notin> set t" using norm_nonempty(1) Inr by blast
    ultimately show ?thesis using Inr ok by (auto simp: list_all_iff)
  qed
qed

section \<open>From the parser to the evaluation\<close>

text \<open>The pairs that a normal form looks up.\<close>

definition termPairs :: "ASTTerm \<Rightarrow> annotPair set" where
  "termPairs t =
     (case tmAssign t of Some e \<Rightarrow> (case annotVal (eqValue e) of Inr v \<Rightarrow> {pair (eqVar e) v} | Inl _ \<Rightarrow> {}) | None \<Rightarrow> {}) \<union>
     (case tmInclusion t of Some e \<Rightarrow> pair (inVar e) ` set (inclusionValues (inValues e)) | None \<Rightarrow> {})"

definition astPairs :: "AST \<Rightarrow> annotPair set" where
  "astPairs ast = (case ast of None \<Rightarrow> {} | Some t \<Rightarrow> \<Union> (termPairs ` \<Union> (set ` set t)))"

lemma oneValue_annotVal: "oneValue v \<Longrightarrow> \<exists>s. annotVal v = Inr s"
  by (auto simp: oneValue_def annotVal_def derefNumber_def)

lemma termShape_ok:
  assumes "termShape t" "termPairs t \<subseteq> U"
  shows "pointTerm U t \<or> scanTerm t"
proof -
  have c: "cmpOk e" if "cmpShape e" for e
    using that by (auto simp: cmpShape_def cmpOk_def attrName_def oneValue_def)
  consider (assign) e where "t = noTerm\<lparr>tmAssign := Some e\<rparr>" "oneValue (eqValue e)"
    | (incl) e where "t = noTerm\<lparr>tmInclusion := Some e\<rparr>"
    | (cmp) e where "cmpShape e" "t = noTerm\<lparr>tmLessThan := Some e\<rparr> \<or> t = noTerm\<lparr>tmLessOrEqualThan := Some e\<rparr> \<or>
        t = noTerm\<lparr>tmGreaterThan := Some e\<rparr> \<or> t = noTerm\<lparr>tmGreaterOrEqualThan := Some e\<rparr>"
    | (glob) e where "t = noTerm\<lparr>tmGlob := Some e\<rparr>" "attrName (glVar e)"
    using assms(1) unfolding termShape_def by blast
  then show ?thesis
  proof cases
    case assign
    then show ?thesis
      using assms(2) oneValue_annotVal[of "eqValue e"] by (auto simp: pointTerm_def termPairs_def noTerm_def)
  next
    case incl
    then show ?thesis using assms(2) by (auto simp: pointTerm_def termPairs_def noTerm_def)
  next
    case cmp
    then show ?thesis using c by (auto simp: scanTerm_def noTerm_def)
  next
    case glob
    then show ?thesis by (auto simp: scanTerm_def noTerm_def attrName_def)
  qed
qed

text \<open>
  A query the parser accepts is normalised to something that can be evaluated, or, exactly when it compares
  an address with a number, crashes the request; no other error comes out of normalisation.
\<close>

lemma Parse_parsed:
  assumes p: "parser_ok uc unq num ParseString" and q: "ParseString q = Inr tree"
  shows "if \<exists>x. tree = Some x \<and> list_ex nilLeaf (leavesExpression x) then Parse ParseString uni q = Inl nilPanic
    else \<exists>ast. Parse ParseString uni q = Inr ast \<and> (astPairs ast \<subseteq> U \<longrightarrow> astOk (\<lambda>t. pointTerm U t \<or> scanTerm t) ast)"
proof (cases tree)
  case None
  then show ?thesis using q by (simp add: Parse_def normTopLevel_def astOk_def)
next
  case (Some x)
  have n: "if list_ex nilLeaf (leavesExpression x) then normExpression uni x = Inl nilPanic
    else \<exists>t. normExpression uni x = Inr t \<and> (\<forall>c \<in> set t. c \<noteq> [] \<and> list_all termShape c)"
    by (rule norm_parsed[OF parser_shape[OF p q[unfolded Some]]])
  have ast: "astOk (\<lambda>t. pointTerm U t \<or> scanTerm t) (Some t)"
    if "\<forall>c \<in> set t. c \<noteq> [] \<and> list_all termShape c" "astPairs (Some t) \<subseteq> U" for t
  proof -
    have "pointTerm U y \<or> scanTerm y" if "c \<in> set t" "y \<in> set c" for c y
      using \<open>\<forall>c \<in> set t. _\<close> \<open>astPairs _ \<subseteq> U\<close> that
      by (intro termShape_ok) (auto simp: list_all_iff astPairs_def)
    with that(1) show ?thesis by (auto simp: astOk_def)
  qed
  show ?thesis
  proof (cases "list_ex nilLeaf (leavesExpression x)")
    case True
    then show ?thesis using n q Some by (simp add: Parse_def normTopLevel_def)
  next
    case False
    then obtain t where t: "normExpression uni x = Inr t" "\<forall>c \<in> set t. c \<noteq> [] \<and> list_all termShape c"
      using n by auto
    have "Parse ParseString uni q = Inr (Some t)" using q t(1) by (simp add: Parse_def normTopLevel_def Some)
    then show ?thesis using ast[OF t(2)] False Some by auto
  qed
qed

end
