(* ===== verification/Examples.thy ===== *)
theory Examples
  imports Chain_History Reference_Clients Reference_Parser Query_Parsed
begin

text \<open>
  A chain of two blocks on the concrete library: an empty block, and one that creates an entity. The
  hypotheses of the theorems about blocks, reverts and queries are shown to hold of it.
\<close>

section \<open>The blocks\<close>

definition exAddr :: address where "exAddr = 5"
definition exKey :: hash where "exKey = BytesToHash (addrBytes exAddr @ zeros 12)"

definition exBlock1 :: ArkivBlock where
  "exBlock1 = \<lparr>Header = \<lparr>Number = 1, Hash = 11, ParentHash = 10, ChangesetHash = 0\<rparr>, Transactions = []\<rparr>"

definition exCreate :: CreateOp where
  "exCreate = \<lparr>coOpIndex = 0, coEntityKey = exKey, coSender = 7, coTxIndex = 0, coOwner = 7, coExpiresAt = 100,
     coEntityHash = 0, coChangesetHash = 0, coPayload = ''payload'', coContentType = ''text'',
     coAttributes = [\<lparr>ValueType = ''string'', Name = ''name'', Value = ''bob''\<rparr>,
                     \<lparr>ValueType = ''uint'', Name = ''size'', Value = [CHR 0x05]\<rparr>]\<rparr>"

definition exOp :: ArkivOperation where
  "exOp = \<lparr>Create = Some exCreate, Update = None, Delete = None, Extend = None, Transfer = None, Expire = None\<rparr>"

definition exBlock2 :: ArkivBlock where
  "exBlock2 = \<lparr>Header = \<lparr>Number = 2, Hash = 12, ParentHash = 11, ChangesetHash = 0\<rparr>,
     Transactions = [\<lparr>txHash = 0, txIndex = 0, txSender = 7, txOperations = [exOp]\<rparr>]\<rparr>"

definition exEntity :: Entity where
  "exEntity = newEntity refLib 2 exCreate"

definition exTable :: table where
  "exTable = [exAddr \<mapsto> (1, exEntity)]"

text \<open>A later block creates a second entity, alike but for its key.\<close>

definition exAddr2 :: address where "exAddr2 = 6"
definition exKey2 :: hash where "exKey2 = BytesToHash (addrBytes exAddr2 @ zeros 11 @ [CHR 0x01])"

definition exCreate2 :: CreateOp where
  "exCreate2 = exCreate\<lparr>coEntityKey := exKey2\<rparr>"

definition exEntity2 :: Entity where
  "exEntity2 = newEntity refLib 3 exCreate2"

text \<open>The pairs that occur are those of the two entities.\<close>

definition exPairs :: "annotPair set" where
  "exPairs = set (allAnnotations refLib exEntity) \<union> set (allAnnotations refLib exEntity2)"

section \<open>The stores\<close>

definition storeAfter :: "((bytes \<times> bytes) list) Store \<Rightarrow> ArkivBlock \<Rightarrow> ((bytes \<times> bytes) list) Store" where
  "storeAfter s block = snd (ProcessBlock refLib s block)"

definition exStore0 :: "((bytes \<times> bytes) list) Store" where "exStore0 = New refLib []"
definition exStore1 :: "((bytes \<times> bytes) list) Store" where "exStore1 = storeAfter exStore0 exBlock1"
definition exStore2 :: "((bytes \<times> bytes) list) Store" where "exStore2 = storeAfter exStore1 exBlock2"

text \<open>The blob of the state a block commits.\<close>

definition stateBlob :: "((bytes \<times> bytes) list) Store \<Rightarrow> ArkivBlock \<Rightarrow> bytes" where
  "stateBlob s block =
     (case andThen (stageBlock refLib s block) (\<lambda>cs. andThen (flushEntities refLib cs) (flushBitmaps refLib)) of
        Inr c \<Rightarrow> encState (stateDB c) | Inl _ \<Rightarrow> [])"

definition exBlobs :: "bytes set" where
  "exBlobs = insert (stateBlob exStore1 exBlock2) {b. length b \<le> 31}"

section \<open>Facts about the data\<close>

lemma addrOfKey_exKey: "addrOfKey exKey = exAddr"
  by (simp add: addrOfKey_def exKey_def hashBytes_BytesToHash)

lemma strip_zeros [simp]: "strip (zeros n @ b) = strip b"
  by (induction n) (simp_all add: strip_def zeros_def)

lemma strip_one [simp]: "strip (CHR 0x01 # b) = CHR 0x01 # b"
  by (simp add: strip_def)

lemma addrBytes_system: "addrBytes (systemAddress refLib) = zeros 7 @ CHR 0x01 # ''arkiv.system''"
proof -
  let ?b = "CHR 0x01 # ''arkiv.system''"
  have "systemAddress refLib = word_of_nat (refKeccakNat ''arkiv.system'')"
    using refKeccakNat_bounds(2)[of "''arkiv.system''"]
    by (simp add: systemAddress_def BytesToAddress_def hashBytes_def be_nat_be_bytes)
  also have "\<dots> = BytesToAddress (zeros 7 @ ?b)"
    by (simp add: refKeccakNat_def BytesToAddress_def be_nat_append)
  finally show ?thesis by (simp add: addrBytes_BytesToAddress)
qed

lemma systemAddress_refLib: "systemAddress refLib \<noteq> exAddr"
proof
  assume "systemAddress refLib = exAddr"
  then have "BytesToAddress (zeros 7 @ CHR 0x01 # ''arkiv.system'') = exAddr"
    using addrBytes_system by (metis BytesToAddress_addrBytes)
  moreover have "be_nat (CHR 0x01 # ''arkiv.system'') = 109386533249008542688174433645" by (simp add: be_nat_def)
  ultimately show False by (simp add: BytesToAddress_def exAddr_def be_nat_append)
qed

lemma attrUint64_5: "attrUint64 [CHR 0x05] = 5"
  using fold_shift_or[of "[CHR 0x05]"] by (simp add: attrUint64_def be_nat_def)

lemma exEntity_eq:
  "exEntity = \<lparr>Payload = ''payload'', Owner = 7, Creator = 7, ExpiresAt = 100, CreatedAtBlock = 2,
     LastModifiedAtBlock = 2, TransactionIndexInBlock = 0, OperationIndexInTransaction = 0, ContentType = ''text'',
     Key = exKey, StringAnnotations = [\<lparr>saKey = ''name'', saValue = ''bob''\<rparr>],
     NumericAnnotations = [\<lparr>naKey = ''size'', naValue = 5\<rparr>]\<rparr>"
  by (simp add: exEntity_def newEntity_def exCreate_def applyAttributes_def applyAttribute_def trimRightNul_def
      attrUint64_5)

lemma exEntity2_eq: "exEntity2 = exEntity\<lparr>CreatedAtBlock := 3, LastModifiedAtBlock := 3, Key := exKey2\<rparr>"
  by (simp add: exEntity2_def exEntity_def exCreate2_def newEntity_def exCreate_def applyAttributes_def
      applyAttribute_def)

lemma exEntity_pairs:
  "set (allAnnotations refLib exEntity) = {pair ''$all'' ''true'', pair ''$creator'' (hex0x (addrBytes 7)),
     pair ''$createdAtBlock'' (numericVal 2), pair ''$lastModifiedAtBlock'' (numericVal 2),
     pair ''$owner'' (hex0x (addrBytes 7)), pair ''$key'' (hex0x (hashBytes exKey)), pair ''$expiration'' (numericVal 100),
     pair ''$contentType'' ''text'', pair ''name'' ''bob'', pair ''size'' (numericVal 5)}"
  "set (allAnnotations refLib exEntity2) = {pair ''$all'' ''true'', pair ''$creator'' (hex0x (addrBytes 7)),
     pair ''$createdAtBlock'' (numericVal 3), pair ''$lastModifiedAtBlock'' (numericVal 3),
     pair ''$owner'' (hex0x (addrBytes 7)), pair ''$key'' (hex0x (hashBytes exKey2)), pair ''$expiration'' (numericVal 100),
     pair ''$contentType'' ''text'', pair ''name'' ''bob'', pair ''size'' (numericVal 5)}"
  by (simp_all add: exEntity2_eq exEntity_eq allAnnotations_def builtinAnnotations_def userAnnotations_def ToLower_def
      toLower_hex insert_commute)

lemma exPairs_eq:
  "exPairs = {pair ''$all'' ''true'', pair ''$creator'' (hex0x (addrBytes 7)),
     pair ''$createdAtBlock'' (numericVal 2), pair ''$createdAtBlock'' (numericVal 3),
     pair ''$lastModifiedAtBlock'' (numericVal 2), pair ''$lastModifiedAtBlock'' (numericVal 3),
     pair ''$owner'' (hex0x (addrBytes 7)), pair ''$key'' (hex0x (hashBytes exKey)),
     pair ''$key'' (hex0x (hashBytes exKey2)), pair ''$expiration'' (numericVal 100),
     pair ''$contentType'' ''text'', pair ''name'' ''bob'', pair ''size'' (numericVal 5)}"
  by (auto simp: exPairs_def exEntity_pairs)

text \<open>The long preimages of slots differ in their first 8 bytes or their last.\<close>

lemma last_hex_exKey: "last (hex0x (hashBytes exKey)) = CHR ''0''" "last (hex0x (hashBytes exKey2)) = CHR ''1''"
proof -
  have z: "zeros 12 = zeros 11 @ [CHR 0x00]" by (simp add: zeros_def eval_nat_numeral)
  show "last (hex0x (hashBytes exKey)) = CHR ''0''"
    unfolding exKey_def z by (simp add: hashBytes_BytesToHash hex0x_def hexByte_def hexDigits_def)
  show "last (hex0x (hashBytes exKey2)) = CHR ''1''"
    by (simp add: exKey2_def hashBytes_BytesToHash hex0x_def hexByte_def hexDigits_def)
qed

lemma last_lastBytes: "b \<noteq> [] \<Longrightarrow> last (lastBytes b) = last b"
  by (simp add: lastBytes_def)

lemma last_numericVal: "last (numericVal n) = char_of (unat n)"
  using be_bytes.simps(2)[of 7 "unat n"] by (simp add: numericVal_def uint64Bytes_def del: be_bytes.simps)

lemma exSlots_ok: "slots_ok refLib exPairs"
proof -
  define C where "C = ''annot$creator'' @ CHR 0x00 # hex0x (addrBytes 7)"
  define W where "W = ''annot$owner'' @ CHR 0x00 # hex0x (addrBytes 7)"
  define K where "K = ''annot$key'' @ CHR 0x00 # hex0x (hashBytes exKey)"
  define K' where "K' = ''annot$key'' @ CHR 0x00 # hex0x (hashBytes exKey2)"
  define M where "M = ''annot$lastModifiedAtBlock'' @ CHR 0x00 # numericVal 2"
  define M' where "M' = ''annot$lastModifiedAtBlock'' @ CHR 0x00 # numericVal 3"
  have n: "numericVal v \<noteq> []" for v by (metis length_numericVal list.size(3) zero_neq_numeral)
  have h: "hex0x v \<noteq> []" for v by (simp add: hex0x_def)
  have t: "take 8 C = ''annot$cr''" "take 8 W = ''annot$ow''" "take 8 K = ''annot$ke''" "take 8 K' = ''annot$ke''"
    "take 8 M = ''annot$la''" "take 8 M' = ''annot$la''"
    by (simp_all add: C_def W_def K_def K'_def M_def M'_def)
  have l: "last K = CHR ''0''" "last K' = CHR ''1''" "last M = CHR 0x02" "last M' = CHR 0x03"
    by (simp_all add: K_def K'_def M_def M'_def last_hex_exKey last_numericVal n h char_of_def bit_iff_odd)
  have "inj_on refKeccak (slotPre exPairs)"
  proof (rule inj_on_refKeccak)
    fix b c assume bc: "b \<in> slotPre exPairs" "c \<in> slotPre exPairs" "31 < length b" "31 < length c" "take 20 b = take 20 c"
      "lastBytes b = lastBytes c"
    have "take 8 (take 20 b) = take 8 (take 20 c)" using bc(5) by simp
    then have tl: "take 8 b = take 8 c" "last b = last c"
      using bc(3,4,6) last_lastBytes by (simp, metis list.size(3) not_less0)
    have "x \<in> {C, W, K, K', M, M'}" if "x \<in> slotPre exPairs" "31 < length x" for x
      using that unfolding slotPre_def exPairs_eq image_insert image_empty Un_iff insert_iff empty_iff image_iff
      by (elim disjE bexE) (simp_all add: C_def W_def K_def K'_def M_def M'_def)
    from this[OF bc(1,3)] this[OF bc(2,4)] tl show "b = c"
      unfolding insert_iff empty_iff by (elim disjE) (simp_all add: t l)
  qed
  then show ?thesis by (auto simp: slots_ok_def exPairs_eq)
qed

lemma exHash_ok: "hash_ok refLib exPairs exBlobs"
proof -
  have "inj_on refKeccak exBlobs" by (rule inj_on_refKeccak) (auto simp: exBlobs_def)
  then show ?thesis using exSlots_ok by (simp add: hash_ok_def)
qed


section \<open>The first block\<close>

text \<open>The blob of a state with nothing but the system account is short.\<close>

lemma commitBlobs_refLib:
  "commitBlobs refLib cs \<subseteq> {bs. \<exists>p b. map_of (dirtyBitmaps cs) p = Some b \<and> refMarshal b = Inr bs} \<union>
     {v. \<exists>c. andThen (flushEntities refLib cs) (flushBitmaps refLib) = Inr c \<and> v = encState (stateDB c)}"
  by (auto simp: commitBlobs_def refCommit_def Let_def)

lemma length_refMarshal:
  assumes "refMarshal b = Inr bs" "card (set b) \<le> 3"
  shows "length bs \<le> 31"
proof -
  have "length (concat (map uint64Bytes xs)) = 8 * length xs" for xs by (induction xs) auto
  moreover have "length (sortedSet b) \<le> 3" using assms(2) by (simp add: sortedSet_def length_remdups_card_conv)
  ultimately show ?thesis using assms(1) by (auto simp: refMarshal_def)
qed

lemma exStore0_inv: "store_inv refLib exPairs exBlobs exStore0 Map.empty 0"
  unfolding exStore0_def by (rule New_empty[OF lib_refLib]) (simp add: fun_eq_iff)

lemma exStore0_eq: "exStore0 = \<lparr>rawDB = [], headRoot = 0, headHash = 0, headNumber = 0\<rparr>"
  by (simp add: exStore0_def New_def)

lemma exBlock1_ok: "block_ok refLib exPairs exBlock1 (Map.empty, 0)"
  "absBlock refLib exBlock1 (Map.empty, 0) = Some (Map.empty, 0)"
  by (simp_all add: block_ok_def absBlock_def blockOps_def exBlock1_def)

lemma exBlock1_blobs: "blobs_in refLib exBlobs exStore0 exBlock1"
proof -
  let ?s = "initSystemAccount refLib refEmpty"
  have s: "?s = \<lparr>rsNonce = [(systemAddress refLib, 1)], rsCode = [], rsSlot = []\<rparr>"
    by (simp add: initSystemAccount_def refExist_def refEmpty_def refCreateAccount_def)
  have "be_nat [CHR 0x01] = 1" by (simp add: be_nat_def)
  then have "uint64Bytes 1 = zeros 7 @ [CHR 0x01]"
    using uint64Bytes_bytesUint64[of "zeros 7 @ [CHR 0x01]"] by (simp add: bytesUint64_def be_nat_append)
  then have "length (encState ?s) \<le> 31"
    by (simp add: s encState_def liveCodes_def lookupOr_def addrBytes_system encStrs_def escByte_def)
  moreover have "stageBlock refLib exStore0 exBlock1 = Inr (openBlock refLib exStore0 exBlock1 refEmpty)"
    by (simp add: stageBlock_open[OF kv_refLib] refStateNew_def exStore0_eq exBlock1_def)
  ultimately show ?thesis
    using commitBlobs_refLib[of "openBlock refLib exStore0 exBlock1 refEmpty"]
    by (auto simp: blobs_in_def exBlobs_def openBlock_def flushEntities_def flushBitmaps_def)
qed


lemma exStore1: "\<exists>root. processBlock refLib exStore0 exBlock1 = Inr (root, exStore1)"
proof -
  obtain root s' where "processBlock refLib exStore0 exBlock1 = Inr (root, s')"
    using processBlock_returns[OF lib_refLib io_refLib exHash_ok exStore0_inv exBlock1_ok exBlock1_blobs] by blast
  then show ?thesis by (simp add: exStore1_def storeAfter_def ProcessBlock_def)
qed

lemma exStore1_inv: "store_inv refLib exPairs exBlobs exStore1 Map.empty 0" "head_ok refLib exStore1"
  using exStore1 processBlock_commits(1,2)[OF lib_refLib exHash_ok exStore0_inv exBlock1_ok exBlock1_blobs] by blast+

section \<open>The second block\<close>

lemma exOp_injected: "injectTx \<lparr>txHash = 0, txIndex = 0, txSender = 7, txOperations = [exOp]\<rparr> exOp = exOp"
  by (simp add: injectTx_def exOp_def exCreate_def)

lemma exEntity_ok: "entity_ok refLib exPairs exEntity"
  by (simp add: entity_ok_def exPairs_def userKeysOk_def) (simp add: exEntity_eq userAnnotations_def)

lemma exEntity2_ok: "entity_ok refLib exPairs exEntity2"
  by (simp add: entity_ok_def exPairs_def userKeysOk_def) (simp add: exEntity2_eq exEntity_eq userAnnotations_def)

lemma exOp_ok: "op_ok refLib exPairs 2 exOp (Map.empty, 0)" "absOp refLib 2 exOp (Map.empty, 0) = Some (exTable, 1)"
proof -
  have key: "coEntityKey exCreate = exKey" by (simp add: exCreate_def)
  show "op_ok refLib exPairs 2 exOp (Map.empty, 0)"
    using exEntity_ok not_sym[OF systemAddress_refLib]
    by (simp add: op_ok_def exOp_def key addrOfKey_exKey exEntity_def)
  show "absOp refLib 2 exOp (Map.empty, 0) = Some (exTable, 1)"
    by (simp add: absOp_def exOp_def absCreate_def key addrOfKey_exKey exTable_def exEntity_def)
qed

lemma exBlock2_ok: "block_ok refLib exPairs exBlock2 (Map.empty, 0)"
  "absBlock refLib exBlock2 (Map.empty, 0) = Some (exTable, 1)"
proof -
  have ops: "blockOps exBlock2 = [exOp]" by (simp add: blockOps_def exBlock2_def exOp_injected)
  have number: "Number (Header exBlock2) = 2" by (simp add: exBlock2_def)
  show "block_ok refLib exPairs exBlock2 (Map.empty, 0)" "absBlock refLib exBlock2 (Map.empty, 0) = Some (exTable, 1)"
    by (simp_all add: block_ok_def absBlock_def ops number exOp_ok)
qed

text \<open>The write buffer of the second block before its operation.\<close>

lemma exBuffer: "\<exists>cs. cs_inv refLib exPairs exBlobs cs Map.empty 0 \<and> blockNumber cs = 2"
proof -
  obtain sdb where s: "stateNew refLib (rd refLib (rawDB exStore1)) (headRoot exStore1) = Inr sdb"
    "consistent refLib exPairs exBlobs (rd refLib (rawDB exStore1)) sdb Map.empty 0"
    "sdGetNonce refLib sdb (systemAddress refLib) \<noteq> 0 \<or> \<not> sdExist refLib sdb (systemAddress refLib)"
    using exStore1_inv(1) unfolding store_inv_def by blast
  have "blockNumber (openBlock refLib exStore1 exBlock2 sdb) = 2" by (simp add: openBlock_def exBlock2_def)
  with openBlock_inv[OF lib_refLib s] show ?thesis by blast
qed

text \<open>The bitmaps of a state with few entities are short, so only the blob of the state itself matters.\<close>

lemma short_bitmaps:
  assumes inv: "cs_inv refLib exPairs H cs T n" and T: "\<And>a i e. T a = Some (i, e) \<Longrightarrow> i \<in> {1, 2}"
    and p: "map_of (dirtyBitmaps cs) p = Some b" "refMarshal b = Inr bs"
  shows "length bs \<le> 31"
proof (rule length_refMarshal[OF p(2)])
  have bms: "bms_ok refLib exPairs cs (idsOf refLib T)" using inv by (simp add: cs_inv_def)
  then have "fst ` set (dirtyBitmaps cs) \<subseteq> exPairs" by (simp only: bms_ok_def)
  moreover have "p \<in> fst ` set (dirtyBitmaps cs)" using map_of_SomeD[OF p(1)] by (rule image_eqI[rotated]) simp
  ultimately have "p \<in> exPairs" by blast
  with bms p(1) have "bmSet refLib b = idsOf refLib T p" unfolding bms_ok_def by blast
  then have "set b = idsOf refLib T p" by simp
  also have "\<dots> \<subseteq> {1, 2}" using T by (auto simp: idsOf_def)
  finally show "card (set b) \<le> 3" using card_mono[of "{1, 2}" "set b"] by simp
qed

lemma commitBlobs_stateBlob:
  assumes cs: "stageBlock refLib s block = Inr cs" and inv: "cs_inv refLib exPairs H cs T n"
    and T: "\<And>a i e. T a = Some (i, e) \<Longrightarrow> i \<in> {1, 2}"
  shows "commitBlobs refLib cs \<subseteq> insert (stateBlob s block) {b. length b \<le> 31}"
proof -
  have short: "length bs \<le> 31" if "map_of (dirtyBitmaps cs) p = Some b" "refMarshal b = Inr bs" for p b bs
    by (rule short_bitmaps[OF inv _ that]) (rule T)
  have "v = stateBlob s block"
    if "andThen (flushEntities refLib cs) (flushBitmaps refLib) = Inr c" "v = encState (stateDB c)" for c v
    using that cs by (simp add: stateBlob_def)
  with short commitBlobs_refLib[of cs] show ?thesis by blast
qed

lemma exTable_ids: "exTable a = Some (i, e) \<Longrightarrow> i \<in> {1, 2}"
  by (auto simp: exTable_def split: if_splits)

lemma exBlock2_blobs: "blobs_in refLib exBlobs exStore1 exBlock2"
  unfolding blobs_in_def exBlobs_def
proof (intro allI impI)
  fix cs assume cs: "stageBlock refLib exStore1 exBlock2 = Inr cs"
  then have "cs_inv refLib exPairs exBlobs cs exTable 1"
    using stageBlock_ok[OF lib_refLib exHash_ok exStore1_inv(1) exBlock2_ok(1)] by (simp add: exBlock2_ok(2))
  from commitBlobs_stateBlob[OF cs this exTable_ids]
  show "commitBlobs refLib cs \<subseteq> insert (stateBlob exStore1 exBlock2) {b. length b \<le> 31}" .
qed

lemma exStore2: "\<exists>root. processBlock refLib exStore1 exBlock2 = Inr (root, exStore2)"
proof -
  obtain root s' where "processBlock refLib exStore1 exBlock2 = Inr (root, s')"
    using processBlock_returns[OF lib_refLib io_refLib exHash_ok exStore1_inv(1) exBlock2_ok exBlock2_blobs] by blast
  then show ?thesis by (simp add: exStore2_def storeAfter_def ProcessBlock_def)
qed

lemma exStore2_inv: "store_inv refLib exPairs exBlobs exStore2 exTable 1" "head_ok refLib exStore2"
  using exStore2 processBlock_commits(1,2)[OF lib_refLib exHash_ok exStore1_inv(1) exBlock2_ok exBlock2_blobs] by blast+


lemma exStore2_head: "headHash exStore2 = 12" "headNumber exStore2 = 2"
proof -
  obtain root where p: "processBlock refLib exStore1 exBlock2 = Inr (root, exStore2)" using exStore2 by blast
  note c = processBlock_commits(4,5)[OF lib_refLib exHash_ok exStore1_inv(1) exBlock2_ok exBlock2_blobs p]
  show "headHash exStore2 = 12" "headNumber exStore2 = 2" using c by (simp_all add: exBlock2_def)
qed

section \<open>Reverting the second block\<close>

definition exRef :: ArkivBlockRef where
  "exRef = \<lparr>refNumber = 2, refHash = 12\<rparr>"

lemma exStore1_head: "headHash exStore1 = 11" "head_indexed refLib exStore1" "headNumber exStore1 = 1"
proof -
  note c = processBlock_commits[OF lib_refLib exHash_ok exStore0_inv exBlock1_ok exBlock1_blobs]
  obtain root where p: "processBlock refLib exStore0 exBlock1 = Inr (root, exStore1)" using exStore1 by blast
  show "headHash exStore1 = 11" using c(4)[OF p] by (simp add: exBlock1_def)
  show "headNumber exStore1 = 1" using c(5)[OF p] by (simp add: exBlock1_def)
  show "head_indexed refLib exStore1"
    by (rule processBlock_indexed[OF lib_refLib exHash_ok exStore0_inv exBlock1_ok exBlock1_blobs p])
qed

lemma exBlock2_child:
  "ParentHash (Header exBlock2) = headHash exStore1" "Hash (Header exBlock2) \<noteq> headHash exStore1"
  by (simp_all add: exStore1_head(1) exBlock2_def)

lemma ids_current_empty: "ids_current g Map.empty"
  by (simp add: ids_current_def)

lemma exRef_eq: "exRef = \<lparr>refNumber = Number (Header exBlock2), refHash = Hash (Header exBlock2)\<rparr>"
  by (simp add: exRef_def exBlock2_def)

section \<open>Queries\<close>

definition exName :: EqualExpr where
  "exName = EqualExpr None (Some \<lparr>eqVar = ''name'', eqIsNot = False,
     eqValue = \<lparr>valString = Some ''bob'', valNumber = None\<rparr>\<rparr>) None None None None None None"

definition exSize :: EqualExpr where
  "exSize = EqualExpr None None None None None None (Some \<lparr>cmpVar = ''size'',
     cmpValue = \<lparr>valString = None, valNumber = Some 5\<rparr>\<rparr>) None"

text \<open>A query, its parse tree and its normal form.\<close>

definition exQuery :: string where
  "exQuery = ''name = \"bob\" && size >= 5''"

lemma exQuery_tree:
  "refParseString exQuery = Inr (Some (Expression (OrExpression (AndExpression exName [AndRHS exSize]) [])))"
  by code_simp

definition exNegated :: Expression where
  "exNegated = Expression (OrExpression (AndExpression (parenExpr (Paren True (Expression (OrExpression
     (AndExpression (EqualExpr None None None (Some \<lparr>cmpVar = ''size'',
        cmpValue = \<lparr>valString = None, valNumber = Some 7\<rparr>\<rparr>) None None None None) [])
     [OrRHS (AndExpression (EqualExpr None None (Some \<lparr>inVar = ''$owner'', inIsNot = False,
        inValues = \<lparr>valuesStrings = [''0xab'', ''0xcd''], valuesNumbers = []\<rparr>\<rparr>) None None None None None) [])])))) []) [])"

lemma exNegated_tree:
  "refParseString ''!(size < 7 || $owner in (\"0xab\" \"0xcd\"))'' = Inr (Some exNegated)"
  by code_simp

definition exNameTerm :: ASTTerm where
  "exNameTerm = noTerm\<lparr>tmAssign := Some \<lparr>eqVar = ''name'', eqIsNot = False,
     eqValue = \<lparr>valString = Some ''bob'', valNumber = None\<rparr>\<rparr>\<rparr>"

definition exSizeTerm :: ASTTerm where
  "exSizeTerm = noTerm\<lparr>tmGreaterOrEqualThan := Some \<lparr>cmpVar = ''size'',
     cmpValue = \<lparr>valString = None, valNumber = Some 5\<rparr>\<rparr>\<rparr>"

definition exAst :: AST where
  "exAst = Some [[exNameTerm, exSizeTerm]]"

lemma exParse_ok: "Parse refParseString uni exQuery = Inr exAst"
  by (simp add: Parse_def exQuery_tree normTopLevel_def exName_def exSize_def normEqualExpr_def normEquality_def
      normVarValue_def addressVar_def combineTerms_def exAst_def exNameTerm_def exSizeTerm_def)

lemma exTerms_ok: "pointTerm exPairs exNameTerm" "scanTerm exSizeTerm"
  by (simp_all add: pointTerm_def scanTerm_def exNameTerm_def exSizeTerm_def noTerm_def annotVal_def exPairs_eq cmpOk_def)

lemma exAst_ok: "astOk (\<lambda>t. pointTerm exPairs t \<or> scanTerm t) exAst" "astOk (pointTerm exPairs) (Some [[exNameTerm]])"
  using exTerms_ok by (simp_all add: astOk_def exAst_def)

lemma exPairs_all: "pair ''$all'' ''true'' \<in> exPairs"
  by (simp add: exPairs_eq)

text \<open>Both entities satisfy the query.\<close>

lemma exEntity_sat: "satAST (allAnnotations refLib exEntity) exAst" "satAST (allAnnotations refLib exEntity2) exAst"
proof -
  have v: "bytesUint64 (numericVal 5) = 5" by (simp add: numericVal_def)
  have "satTerm (allAnnotations refLib e) exNameTerm" "satTerm (allAnnotations refLib e) exSizeTerm"
    if "pair ''name'' ''bob'' \<in> set (allAnnotations refLib e)" "pair ''size'' (numericVal 5) \<in> set (allAnnotations refLib e)" for e
    using that v by (auto simp: satTerm_def exNameTerm_def exSizeTerm_def noTerm_def annotVal_def satCmp_def hasValue_iff)
  then show "satAST (allAnnotations refLib exEntity) exAst" "satAST (allAnnotations refLib exEntity2) exAst"
    by (simp_all add: satAST_def exAst_def satTerms_def exEntity_pairs)
qed

lemma exMatching: "matching refLib exTable exAst None = [1]"
proof -
  have "{i. belowCursor None i \<and> (\<exists>a e. exTable a = Some (i, e) \<and> satAST (allAnnotations refLib e) exAst)} = {1}"
    using exEntity_sat by (auto simp: belowCursor_def exTable_def split: if_splits)
  then show ?thesis by (simp add: matching_def)
qed

lemma exBlock1_readable: "blockRep refLib exPairs exStore1 1 Map.empty"
proof -
  obtain root where p: "processBlock refLib exStore0 exBlock1 = Inr (root, exStore1)" using exStore1 by blast
  have n: "Number (Header exBlock1) = 1" by (simp add: exBlock1_def)
  show ?thesis
    using processBlock_readable[OF lib_refLib exHash_ok exStore0_inv exBlock1_ok exBlock1_blobs p exPairs_all]
    by (simp add: n)
qed

lemma exBlock1_number: "rd refLib (rawDB exStore1) (blockNumberKey 1) = Some (hashBytes 11)"
proof -
  obtain root where p: "processBlock refLib exStore0 exBlock1 = Inr (root, exStore1)" using exStore1 by blast
  show ?thesis
    using processBlock_commits(7)[OF lib_refLib exHash_ok exStore0_inv exBlock1_ok exBlock1_blobs p, of "blockNumberKey 1"]
    by (simp add: blockWrites_def exBlock1_def)
qed

lemma exNotTaken:
  "\<forall>hb. rd refLib (rawDB exStore1) (blockNumberKey 1) = Some hb \<longrightarrow> BytesToHash hb \<noteq> Hash (Header exBlock2)"
  unfolding exBlock1_number by (simp add: exBlock2_def)

lemma exBlock2_facts: "1 \<noteq> Number (Header exBlock2)" "Number (Header exBlock2) \<noteq> 0"
  by (simp_all add: exBlock2_def)

lemma exChain_ok: "chain_ok refLib exPairs exBlobs exStore0 [exBlock1, exBlock2] (Map.empty, 0)"
  using exStore1 exStore2 exBlock1_ok exBlock2_ok exBlock1_blobs exBlock2_blobs by auto

lemma exChain_abs: "absChain refLib [exBlock1, exBlock2] (Map.empty, 0) = Some (exTable, 1)"
  by (simp add: absChain_def exBlock1_ok exBlock2_ok)

section \<open>A block that is rejected\<close>

text \<open>A block whose only operation is empty, which no wire message decodes to but the dispatcher handles.\<close>

definition exBad :: ArkivBlock where
  "exBad = \<lparr>Header = \<lparr>Number = 2, Hash = 12, ParentHash = 11, ChangesetHash = 0\<rparr>,
     Transactions = [\<lparr>txHash = 0, txIndex = 0, txSender = 7, txOperations = [noOperation]\<rparr>]\<rparr>"

lemma exBad_ok: "block_ok refLib exPairs exBad (Map.empty, 0)" "absBlock refLib exBad (Map.empty, 0) = None"
  by (simp_all add: block_ok_def absBlock_def blockOps_def exBad_def injectTx_def noOperation_def op_ok_def absOp_def)

lemma exBad_error: "\<exists>e. processBlock refLib exStore1 exBad = Inl e"
  by (rule processBlock_error[OF lib_refLib exHash_ok exStore1_inv(1) exBad_ok])

lemma exBad_commit: "\<exists>e. commitBlocks refLib exStore0 0 [exBlock1, exBad] = (Inl e, exStore1)"
  using exStore1 exBad_error by (auto simp: ProcessBlock_def)

lemma exBad_reorg: "\<exists>e. Reorg refLib exStore0 [] [exBlock1, exBad] = (Inl e, exStore1)"
  using exStore1 exBad_error by (auto simp: Reorg_def)

section \<open>The old root\<close>

lemma exUndo:
  "\<exists>s. revertToAncestor refLib exStore2 [exRef] = Inr s \<and> store_inv refLib exPairs exBlobs s Map.empty 0 \<and>
    headRoot s = headRoot exStore1 \<and> headHash s = 11"
proof -
  obtain root where p: "processBlock refLib exStore1 exBlock2 = Inr (root, exStore2)" using exStore2 by blast
  from undo_block[OF lib_refLib io_refLib exHash_ok exStore1_inv(1) exBlock2_ok exBlock2_blobs p exStore1_head(2)
      exBlock2_child ids_current_empty exRef_eq] exStore1_head(1)
  show ?thesis by auto
qed

lemma exOldRoot: "root_ok refLib exPairs (rd refLib (rawDB exStore2)) (headRoot exStore1) Map.empty 0"
proof -
  obtain root where p: "processBlock refLib exStore1 exBlock2 = Inr (root, exStore2)" using exStore2 by blast
  show ?thesis
    by (rule root_ok_mono[OF lib_refLib store_inv_root_ok[OF exStore1_inv(1)]
        processBlock_histLe[OF lib_refLib exHash_ok exStore1_inv(1) exBlock2_ok exBlock2_blobs p]])
qed

lemma exParent: "rd refLib (rawDB exStore2) (parentKey (refHash (last [exRef]))) = Some (hashBytes 11)"
  "rd refLib (rawDB exStore2) (rootKey 11) = Some (hashBytes (headRoot exStore1))"
proof -
  obtain root where p: "processBlock refLib exStore1 exBlock2 = Inr (root, exStore2)" using exStore2 by blast
  note c = processBlock_commits(7)[OF lib_refLib exHash_ok exStore1_inv(1) exBlock2_ok exBlock2_blobs p]
  show "rd refLib (rawDB exStore2) (parentKey (refHash (last [exRef]))) = Some (hashBytes 11)"
    using c[of "parentKey 12"] by (simp add: blockWrites_def exBlock2_def exRef_def)
  obtain root1 where q: "processBlock refLib exStore0 exBlock1 = Inr (root1, exStore1)" using exStore1 by blast
  note d = processBlock_commits[OF lib_refLib exHash_ok exStore0_inv exBlock1_ok exBlock1_blobs q]
  have "rd refLib (rawDB exStore1) (rootKey 11) = Some (hashBytes (headRoot exStore1))"
    using d(7)[of "rootKey 11"] d(3) by (simp add: blockWrites_def exBlock1_def)
  then show "rd refLib (rawDB exStore2) (rootKey 11) = Some (hashBytes (headRoot exStore1))"
    using c[of "rootKey 11"] by (simp add: blockWrites_def exBlock2_def)
qed

section \<open>More blobs\<close>

lemma store_inv_mono:
  assumes "store_inv L U H s T n" "H \<subseteq> H'"
  shows "store_inv L U H' s T n"
proof -
  have "blobs_ok L H g \<Longrightarrow> blobs_ok L H' g" "nodes_ok L H g \<Longrightarrow> nodes_ok L H' g" for g
    using assms(2) by (auto simp: blobs_ok_def nodes_ok_def)
  with assms(1) show ?thesis by (auto simp: store_inv_def consistent_def)
qed

text \<open>The blob of a staged block tells how many entities there are.\<close>

lemma stateBlob_count:
  assumes cs: "stageBlock refLib s block = Inr cs" and inv: "cs_inv refLib exPairs H cs T n"
    and h: "hash_ok refLib exPairs H" and sub: "{b. length b \<le> 31} \<subseteq> H"
    and T: "\<And>a i e. T a = Some (i, e) \<Longrightarrow> i \<in> {1, 2}"
  shows "\<exists>r. stateBlob s block = replicate (card (dom T)) (CHR ''x'') @ CHR 0x00 # r"
proof -
  have short: "bs \<in> H" if "map_of (dirtyBitmaps cs) p = Some b" "bmMarshal refLib b = Inr bs" for p b bs
  proof -
    have "length bs \<le> 31" by (rule short_bitmaps[OF inv _ that(1)]) (use T that(2) in auto)
    then show ?thesis using sub by blast
  qed
  have "\<exists>st sd. andThen (flushEntities refLib cs) (flushBitmaps refLib) = Inr (cs\<lparr>stagingDB := st, stateDB := sd\<rparr>)
      \<and> Database st = Database (stagingDB cs) \<and> mid_inv refLib exPairs H (cs\<lparr>stagingDB := st, stateDB := sd\<rparr>) T n exPairs"
    by (rule flush_bitmaps_in[OF lib_refLib h inv]) (rule short)
  then obtain st sd where f: "andThen (flushEntities refLib cs) (flushBitmaps refLib) = Inr (cs\<lparr>stagingDB := st, stateDB := sd\<rparr>)"
    "mid_inv refLib exPairs H (cs\<lparr>stagingDB := st, stateDB := sd\<rparr>) T n exPairs" by blast
  have code: "code_ok refLib sd a (T a)" for a using f(2) by (simp add: mid_inv_def)
  have "lookupOr [] (rsCode sd) a \<noteq> [] \<longleftrightarrow> a \<in> dom T" for a
    using code[of a] by (cases "T a") (auto simp: code_ok_def)
  then have "liveCodes sd = card (dom T)" by (simp add: liveCodes_def)
  moreover have "stateBlob s block = encState sd" using cs f(1) by (simp add: stateBlob_def)
  moreover have "concat (map escByte (replicate m (CHR ''x''))) = replicate m (CHR ''x'')" for m
    by (induction m) (auto simp: escByte_def)
  ultimately show ?thesis by (simp add: encState_def encStrs_def)
qed

end
