(* ===== verification/Example_Revert.thy ===== *)
theory Example_Revert
  imports Examples
begin

text \<open>
  The chain of \<open>Examples\<close> continued: the entity is deleted, an empty block follows, and then the two
  blocks are reverted one at a time. The second revert makes the entity live again, but its entry of the
  number index was removed by the first.
\<close>

section \<open>The blocks\<close>

definition exDelete :: ArkivOperation where
  "exDelete = noOperation\<lparr>Delete := Some \<lparr>doOpIndex = 0, doEntityKey = exKey, doOwner = 7, doEntityHash = 0,
     doChangesetHash = 0\<rparr>\<rparr>"

definition exBlock3 :: ArkivBlock where
  "exBlock3 = \<lparr>Header = \<lparr>Number = 3, Hash = 13, ParentHash = 12, ChangesetHash = 0\<rparr>,
     Transactions = [\<lparr>txHash = 0, txIndex = 0, txSender = 7, txOperations = [exDelete]\<rparr>]\<rparr>"

definition exBlock4 :: ArkivBlock where
  "exBlock4 = \<lparr>Header = \<lparr>Number = 4, Hash = 14, ParentHash = 13, ChangesetHash = 0\<rparr>, Transactions = []\<rparr>"

definition exStore3 :: "((bytes \<times> bytes) list) Store" where "exStore3 = storeAfter exStore2 exBlock3"
definition exStore4 :: "((bytes \<times> bytes) list) Store" where "exStore4 = storeAfter exStore3 exBlock4"

definition exBlobs3 :: "bytes set" where
  "exBlobs3 = insert (stateBlob exStore2 exBlock3) exBlobs"

section \<open>The blob of a block\<close>

text \<open>What a committed root opens is what the blob of the block encodes.\<close>

lemma committed_blob:
  assumes h: "hash_ok refLib U H" and inv: "store_inv refLib U H s' T n" and bl: "blobs_in refLib H s block"
    and p: "processBlock refLib s block = Inr (root, s')"
    and o: "stateNew refLib (rd refLib (rawDB s')) (headRoot s') = Inr sdb"
  shows "encState sdb = stateBlob s block"
proof -
  obtain cs where cs: "stageBlock refLib s block = Inr cs" using p by (auto simp: processBlock_def andThen_eq_Inr)
  obtain c where c: "andThen (flushEntities refLib cs) (flushBitmaps refLib) = Inr c" "root = refKeccak (encState (stateDB c))"
    "headRoot s' = root"
    using p cs by (auto simp: processBlock_def Commit_def andThen_eq_Inr refCommit_def Let_def)
  have b: "encState (stateDB c) = stateBlob s block" using cs c(1) by (simp add: stateBlob_def)
  have "stateBlob s block \<in> commitBlobs refLib cs"
    unfolding commitBlobs_def using c(1) b by (auto simp: refCommit_def Let_def)
  then have H: "stateBlob s block \<in> H" using bl cs by (auto simp: blobs_in_def)
  obtain v where v: "rd refLib (rawDB s') (hashBytes root) = Some v" "refKeccak v = root" "sdb = decState v"
    using o unfolding c(3) by (auto simp: refStateNew_def c(2) split: option.splits if_splits)
  have "nodes_ok refLib H (rd refLib (rawDB s'))" using inv by (simp add: store_inv_def)
  then have "v \<in> H" using v(1) c(2) unfolding nodes_ok_def by fastforce
  with H v(2) c(2) b h have "v = stateBlob s block" by (auto simp: hash_ok_def inj_on_def)
  then show ?thesis using v(3) b by (metis decState_encState)
qed

section \<open>The third block\<close>

lemma exDelete_injected: "injectTx tx exDelete = exDelete"
  by (simp add: injectTx_def exDelete_def noOperation_def)

lemma exBlock3_ok: "block_ok refLib exPairs exBlock3 (exTable, 1)"
  "absBlock refLib exBlock3 (exTable, 1) = Some (Map.empty, 1)"
proof -
  have ops: "blockOps exBlock3 = [exDelete]" by (simp add: blockOps_def exBlock3_def exDelete_injected)
  have a: "absOp refLib m exDelete (exTable, 1) = Some (Map.empty, 1)" for m
    by (simp add: absOp_def exDelete_def noOperation_def absModify_def addrOfKey_exKey exTable_def)
  show "block_ok refLib exPairs exBlock3 (exTable, 1)"
    unfolding block_ok_def ops by (simp add: a) (simp add: op_ok_def exDelete_def noOperation_def)
  show "absBlock refLib exBlock3 (exTable, 1) = Some (Map.empty, 1)"
    by (simp add: absBlock_def ops a)
qed

lemma exStage3: "\<exists>cs. stageBlock refLib exStore2 exBlock3 = Inr cs \<and> cs_inv refLib exPairs exBlobs cs Map.empty 1"
  using stageBlock_ok[OF lib_refLib exHash_ok exStore2_inv(1) exBlock3_ok(1)] by (auto simp: exBlock3_ok(2))

lemma exStateBlobs:
  "\<exists>r. stateBlob exStore1 exBlock2 = CHR ''x'' # CHR 0x00 # r" "\<exists>r. stateBlob exStore2 exBlock3 = CHR 0x00 # r"
proof -
  have sub: "{b. length b \<le> 31} \<subseteq> exBlobs" by (auto simp: exBlobs_def)
  obtain cs where cs: "stageBlock refLib exStore1 exBlock2 = Inr cs" "cs_inv refLib exPairs exBlobs cs exTable 1"
    using stageBlock_ok[OF lib_refLib exHash_ok exStore1_inv(1) exBlock2_ok(1)] by (auto simp: exBlock2_ok(2))
  have "card (dom exTable) = 1" by (simp add: exTable_def)
  with stateBlob_count[OF cs exHash_ok sub exTable_ids]
  show "\<exists>r. stateBlob exStore1 exBlock2 = CHR ''x'' # CHR 0x00 # r" by simp
  obtain cs where cs: "stageBlock refLib exStore2 exBlock3 = Inr cs" "cs_inv refLib exPairs exBlobs cs Map.empty 1"
    using exStage3 by blast
  from stateBlob_count[OF cs exHash_ok sub] show "\<exists>r. stateBlob exStore2 exBlock3 = CHR 0x00 # r" by simp
qed

lemma exHash3_ok: "hash_ok refLib exPairs exBlobs3"
proof -
  have "inj_on refKeccak exBlobs3"
  proof (rule inj_on_refKeccak)
    fix b c assume "b \<in> exBlobs3" "c \<in> exBlobs3" "31 < length b" "31 < length c" "take 20 b = take 20 c"
    then show "b = c" using exStateBlobs by (auto simp: exBlobs3_def exBlobs_def)
  qed
  then show ?thesis using exSlots_ok by (simp add: hash_ok_def)
qed

lemma exBlobs3_mono: "exBlobs \<subseteq> exBlobs3"
  by (auto simp: exBlobs3_def)

lemma exStore2_inv3: "store_inv refLib exPairs exBlobs3 exStore2 exTable 1"
  by (rule store_inv_mono[OF exStore2_inv(1) exBlobs3_mono])

lemma exBlock3_blobs: "blobs_in refLib exBlobs3 exStore2 exBlock3"
  unfolding blobs_in_def
proof (intro allI impI)
  fix cs assume cs: "stageBlock refLib exStore2 exBlock3 = Inr cs"
  with exStage3 have "cs_inv refLib exPairs exBlobs cs Map.empty 1" by auto
  from commitBlobs_stateBlob[OF cs this] show "commitBlobs refLib cs \<subseteq> exBlobs3"
    by (auto simp: exBlobs3_def exBlobs_def)
qed

lemma exStore3: "\<exists>root. processBlock refLib exStore2 exBlock3 = Inr (root, exStore3)"
proof -
  obtain root s' where "processBlock refLib exStore2 exBlock3 = Inr (root, s')"
    using processBlock_returns[OF lib_refLib io_refLib exHash3_ok exStore2_inv3 exBlock3_ok exBlock3_blobs] by blast
  then show ?thesis by (simp add: exStore3_def storeAfter_def ProcessBlock_def)
qed

lemma exStore3_inv: "store_inv refLib exPairs exBlobs3 exStore3 Map.empty 1" "headHash exStore3 = 13"
  "head_indexed refLib exStore3"
proof -
  obtain root where p: "processBlock refLib exStore2 exBlock3 = Inr (root, exStore3)" using exStore3 by blast
  note c = processBlock_commits[OF lib_refLib exHash3_ok exStore2_inv3 exBlock3_ok exBlock3_blobs p]
  show "store_inv refLib exPairs exBlobs3 exStore3 Map.empty 1" by (rule c(1))
  show "headHash exStore3 = 13" using c(4) by (simp add: exBlock3_def)
  show "head_indexed refLib exStore3"
    by (rule processBlock_indexed[OF lib_refLib exHash3_ok exStore2_inv3 exBlock3_ok exBlock3_blobs p])
qed

text \<open>The entries the third block wrote, and the old ones it kept.\<close>

lemma exStore3_chain:
  "rd refLib (rawDB exStore3) (parentKey 13) = Some (hashBytes 12)"
  "rd refLib (rawDB exStore3) (rootKey 12) = Some (hashBytes (headRoot exStore2))"
  "root_ok refLib exPairs (rd refLib (rawDB exStore3)) (headRoot exStore2) exTable 1"
proof -
  obtain root where p: "processBlock refLib exStore2 exBlock3 = Inr (root, exStore3)" using exStore3 by blast
  note c = processBlock_commits(7)[OF lib_refLib exHash3_ok exStore2_inv3 exBlock3_ok exBlock3_blobs p]
  show "rd refLib (rawDB exStore3) (parentKey 13) = Some (hashBytes 12)"
    using c[of "parentKey 13"] by (simp add: blockWrites_def exBlock3_def)
  obtain root2 where q: "processBlock refLib exStore1 exBlock2 = Inr (root2, exStore2)" using exStore2 by blast
  note d = processBlock_commits[OF lib_refLib exHash_ok exStore1_inv(1) exBlock2_ok exBlock2_blobs q]
  have "rd refLib (rawDB exStore2) (rootKey 12) = Some (hashBytes (headRoot exStore2))"
    using d(7)[of "rootKey 12"] d(3) by (simp add: blockWrites_def exBlock2_def)
  then show "rd refLib (rawDB exStore3) (rootKey 12) = Some (hashBytes (headRoot exStore2))"
    using c[of "rootKey 12"] by (simp add: blockWrites_def exBlock3_def)
  show "root_ok refLib exPairs (rd refLib (rawDB exStore3)) (headRoot exStore2) exTable 1"
    by (rule root_ok_mono[OF lib_refLib store_inv_root_ok[OF exStore2_inv(1)]
        processBlock_histLe[OF lib_refLib exHash3_ok exStore2_inv3 exBlock3_ok exBlock3_blobs p]])
qed

section \<open>The fourth block\<close>

lemma exBlock4_ok: "block_ok refLib exPairs exBlock4 (Map.empty, 1)"
  "absBlock refLib exBlock4 (Map.empty, 1) = Some (Map.empty, 1)"
  by (simp_all add: block_ok_def absBlock_def blockOps_def exBlock4_def)

lemma exBlock4_blobs: "blobs_in refLib exBlobs3 exStore3 exBlock4"
proof -
  obtain sdb where s: "stateNew refLib (rd refLib (rawDB exStore3)) (headRoot exStore3) = Inr sdb"
    "consistent refLib exPairs exBlobs3 (rd refLib (rawDB exStore3)) sdb Map.empty 1"
    using exStore3_inv(1) unfolding store_inv_def by blast
  have "readEntityCount refLib sdb = 1" using s(2) by (simp add: consistent_def ids_ok_def)
  then have "sdGetState refLib sdb (systemAddress refLib) (entityCountSlot refLib) \<noteq> 0"
    by (auto simp: readEntityCount_def Let_def)
  then have "sdExist refLib sdb (systemAddress refLib)"
    using not_exist_zero(1)[OF account_refLib] by blast
  then have i: "initSystemAccount refLib sdb = sdb" by (simp add: initSystemAccount_def)
  obtain root where p: "processBlock refLib exStore2 exBlock3 = Inr (root, exStore3)" using exStore3 by blast
  have "encState sdb \<in> exBlobs3"
    using committed_blob[OF exHash3_ok exStore3_inv(1) exBlock3_blobs p s(1)] by (simp add: exBlobs3_def)
  moreover have "stageBlock refLib exStore3 exBlock4 = Inr (openBlock refLib exStore3 exBlock4 sdb)"
    by (simp add: stageBlock_open[OF kv_refLib s(1)] exBlock4_def)
  ultimately show ?thesis
    using commitBlobs_refLib[of "openBlock refLib exStore3 exBlock4 sdb"]
    by (auto simp: blobs_in_def openBlock_def flushEntities_def flushBitmaps_def i)
qed

lemma exStore4: "\<exists>root. processBlock refLib exStore3 exBlock4 = Inr (root, exStore4)"
proof -
  obtain root s' where "processBlock refLib exStore3 exBlock4 = Inr (root, s')"
    using processBlock_returns[OF lib_refLib io_refLib exHash3_ok exStore3_inv(1) exBlock4_ok exBlock4_blobs] by blast
  then show ?thesis by (simp add: exStore4_def storeAfter_def ProcessBlock_def)
qed

lemma exStore4_inv: "store_inv refLib exPairs exBlobs3 exStore4 Map.empty 1"
  "\<And>k. arkivKey k \<Longrightarrow> \<not> stagedKey k \<Longrightarrow> k \<notin> {headKey, rootKey 14, parentKey 14, blockNumberKey 4} \<Longrightarrow>
     rd refLib (rawDB exStore4) k = rd refLib (rawDB exStore3) k"
  "histLe (rd refLib (rawDB exStore3)) (rd refLib (rawDB exStore4))"
proof -
  obtain root where p: "processBlock refLib exStore3 exBlock4 = Inr (root, exStore4)" using exStore4 by blast
  note c = processBlock_commits[OF lib_refLib exHash3_ok exStore3_inv(1) exBlock4_ok exBlock4_blobs p]
  show "store_inv refLib exPairs exBlobs3 exStore4 Map.empty 1" by (rule c(1))
  show "\<And>k. arkivKey k \<Longrightarrow> \<not> stagedKey k \<Longrightarrow> k \<notin> {headKey, rootKey 14, parentKey 14, blockNumberKey 4} \<Longrightarrow>
     rd refLib (rawDB exStore4) k = rd refLib (rawDB exStore3) k"
    using c(7) by (simp add: blockWrites_def exBlock4_def)
  show "histLe (rd refLib (rawDB exStore3)) (rd refLib (rawDB exStore4))"
    by (rule processBlock_histLe[OF lib_refLib exHash3_ok exStore3_inv(1) exBlock4_ok exBlock4_blobs p])
qed

section \<open>The reverts\<close>

definition exRef4 :: ArkivBlockRef where "exRef4 = \<lparr>refNumber = 4, refHash = 14\<rparr>"
definition exRef3 :: ArkivBlockRef where "exRef3 = \<lparr>refNumber = 3, refHash = 13\<rparr>"

text \<open>The first revert is to a state without the entity, and takes its entry away.\<close>

lemma exRevert4:
  "\<exists>s. revertToAncestor refLib exStore4 [exRef4] = Inr s \<and> store_inv refLib exPairs exBlobs3 s Map.empty 1 \<and>
     rd refLib (rawDB s) (idKey 1) = None \<and> rd refLib (rawDB s) (parentKey 13) = Some (hashBytes 12) \<and>
     rd refLib (rawDB s) (rootKey 12) = Some (hashBytes (headRoot exStore2)) \<and>
     root_ok refLib exPairs (rd refLib (rawDB s)) (headRoot exStore2) exTable 1"
proof -
  obtain root where p: "processBlock refLib exStore3 exBlock4 = Inr (root, exStore4)" using exStore4 by blast
  have "ParentHash (Header exBlock4) = headHash exStore3" "Hash (Header exBlock4) \<noteq> headHash exStore3"
    "exRef4 = \<lparr>refNumber = Number (Header exBlock4), refHash = Hash (Header exBlock4)\<rparr>"
    by (simp_all add: exBlock4_def exRef4_def exStore3_inv(2))
  from undo_block[OF lib_refLib io_refLib exHash3_ok exStore3_inv(1) exBlock4_ok exBlock4_blobs p exStore3_inv(3)
      this(1,2) ids_current_empty this(3)] obtain s where
    s: "revertToAncestor refLib exStore4 [exRef4] = Inr s" "store_inv refLib exPairs exBlobs3 s Map.empty 1"
      "headRoot s = headRoot exStore3" by blast
  note rv = lib_refLib exHash3_ok exStore4_inv(1) s(1)
  have le: "histLe (rd refLib (rawDB exStore3)) (rd refLib (rawDB s))"
    using exStore4_inv(3) revert_head(5)[OF rv] histLe_trans by blast
  obtain sdb where sdb: "stateNew refLib (rd refLib (rawDB exStore4)) (headRoot s) = Inr sdb" "idSlotOf refLib sdb 1 = 0"
    using root_ok_mono[OF lib_refLib store_inv_root_ok[OF exStore3_inv(1)] exStore4_inv(3)]
    unfolding s(3) root_ok_def by fastforce
  have "rd refLib (rawDB s) (idKey 1) = None" using revert_ids(2)[OF rv sdb] by blast
  moreover have "rd refLib (rawDB s) k = rd refLib (rawDB exStore3) k" if "k = parentKey 13 \<or> k = rootKey 12" for k
  proof -
    have "rd refLib (rawDB s) k = rd refLib (rawDB exStore4) k"
      by (rule revert_keeps_chain[OF rv]) (use that in \<open>auto simp: exRef4_def deleteRef_def\<close>)
    also have "\<dots> = rd refLib (rawDB exStore3) k" by (rule exStore4_inv(2)) (use that in auto)
    finally show ?thesis .
  qed
  ultimately show ?thesis
    using s exStore3_chain root_ok_mono[OF lib_refLib exStore3_chain(3) le] by auto
qed

text \<open>The second brings the entity back, and not its entry.\<close>

lemma exRevert3:
  assumes s: "store_inv refLib exPairs exBlobs3 s Map.empty 1"
    "rd refLib (rawDB s) (parentKey 13) = Some (hashBytes 12)"
    "rd refLib (rawDB s) (rootKey 12) = Some (hashBytes (headRoot exStore2))"
    "root_ok refLib exPairs (rd refLib (rawDB s)) (headRoot exStore2) exTable 1"
  shows "\<exists>s'. revertToAncestor refLib s [exRef3] = Inr s' \<and> headRoot s' = headRoot exStore2"
proof -
  have p: "rd refLib (rawDB s) (parentKey (refHash (last [exRef3]))) = Some (hashBytes 12)"
    using s(2) by (simp add: exRef3_def)
  have a: "ancestorRootOf refLib (rd refLib (rawDB s)) (BytesToHash (hashBytes 12)) = headRoot exStore2"
    using s(3) by (simp add: ancestorRootOf_def)
  obtain s' where s': "revertToAncestor refLib s [exRef3] = Inr s'"
    using revert_returns[OF lib_refLib io_refLib p] s(4) unfolding a by blast
  show ?thesis
  proof (cases rule: revertToAncestor_view[OF kv_refLib s'])
    case (1 pb sdb ops)
    have "pb = hashBytes 12" using 1(2) p by simp
    with 1(5) a s' show ?thesis by auto
  qed
qed

end
