(* ===== verification/Example_Pages.thy ===== *)
theory Example_Pages
  imports Examples
begin

text \<open>
  The chain of \<open>Examples\<close> with a third block that creates a second entity, so that a query has two
  matches and a page of one.
\<close>

definition exOp2 :: ArkivOperation where
  "exOp2 = noOperation\<lparr>Create := Some exCreate2\<rparr>"

definition exBlockB :: ArkivBlock where
  "exBlockB = \<lparr>Header = \<lparr>Number = 3, Hash = 15, ParentHash = 12, ChangesetHash = 0\<rparr>,
     Transactions = [\<lparr>txHash = 0, txIndex = 0, txSender = 7, txOperations = [exOp2]\<rparr>]\<rparr>"

definition exStoreB :: "((bytes \<times> bytes) list) Store" where "exStoreB = storeAfter exStore2 exBlockB"

definition exTable2 :: table where
  "exTable2 = exTable(exAddr2 \<mapsto> (2, exEntity2))"

definition exBlobs2 :: "bytes set" where
  "exBlobs2 = insert (stateBlob exStore2 exBlockB) exBlobs"

lemma exAddr2_facts: "addrOfKey exKey2 = exAddr2" "exAddr2 \<noteq> exAddr" "systemAddress refLib \<noteq> exAddr2"
proof -
  show "addrOfKey exKey2 = exAddr2" by (simp add: addrOfKey_def exKey2_def hashBytes_BytesToHash)
  show "exAddr2 \<noteq> exAddr" by (simp add: exAddr_def exAddr2_def)
  have "be_nat (CHR 0x01 # ''arkiv.system'') = 109386533249008542688174433645" by (simp add: be_nat_def)
  then show "systemAddress refLib \<noteq> exAddr2"
    using addrBytes_system BytesToAddress_addrBytes[of "systemAddress refLib"]
    by (auto simp: BytesToAddress_def exAddr2_def be_nat_append)
qed

lemma exBlockB_ok: "block_ok refLib exPairs exBlockB (exTable, 1)"
  "absBlock refLib exBlockB (exTable, 1) = Some (exTable2, 2)"
proof -
  have inj: "injectTx \<lparr>txHash = 0, txIndex = 0, txSender = 7, txOperations = [exOp2]\<rparr> exOp2 = exOp2"
    by (simp add: injectTx_def exOp2_def noOperation_def exCreate2_def exCreate_def)
  have ops: "blockOps exBlockB = [exOp2]" by (simp add: blockOps_def exBlockB_def inj)
  have key: "coEntityKey exCreate2 = exKey2" by (simp add: exCreate2_def)
  have number: "Number (Header exBlockB) = 3" by (simp add: exBlockB_def)
  have new: "exTable exAddr2 = None" by (simp add: exTable_def exAddr2_facts)
  show "block_ok refLib exPairs exBlockB (exTable, 1)"
    unfolding block_ok_def ops using exEntity2_ok not_sym[OF exAddr2_facts(3)] new
    by (simp add: number op_ok_def exOp2_def noOperation_def key exAddr2_facts(1) exEntity2_def split: option.split)
  show "absBlock refLib exBlockB (exTable, 1) = Some (exTable2, 2)"
    unfolding absBlock_def ops
    by (simp add: number absOp_def exOp2_def noOperation_def absCreate_def key exAddr2_facts(1) exTable2_def exEntity2_def)
qed

lemma exTable2_ids: "exTable2 a = Some (i, e) \<Longrightarrow> i \<in> {1, 2}"
  by (auto simp: exTable2_def exTable_def split: if_splits)

lemma exStageB: "\<exists>cs. stageBlock refLib exStore2 exBlockB = Inr cs \<and> cs_inv refLib exPairs exBlobs cs exTable2 2"
  using stageBlock_ok[OF lib_refLib exHash_ok exStore2_inv(1) exBlockB_ok(1)] by (auto simp: exBlockB_ok(2))

lemma exHash2_ok: "hash_ok refLib exPairs exBlobs2"
proof -
  have sub: "{b. length b \<le> 31} \<subseteq> exBlobs" by (auto simp: exBlobs_def)
  obtain cs where cs: "stageBlock refLib exStore1 exBlock2 = Inr cs" "cs_inv refLib exPairs exBlobs cs exTable 1"
    using stageBlock_ok[OF lib_refLib exHash_ok exStore1_inv(1) exBlock2_ok(1)] by (auto simp: exBlock2_ok(2))
  have "card (dom exTable) = 1" by (simp add: exTable_def)
  then have 1: "\<exists>r. stateBlob exStore1 exBlock2 = CHR ''x'' # CHR 0x00 # r"
    using stateBlob_count[OF cs exHash_ok sub] exTable_ids by auto
  obtain cs where cs: "stageBlock refLib exStore2 exBlockB = Inr cs" "cs_inv refLib exPairs exBlobs cs exTable2 2"
    using exStageB by blast
  have "card (dom exTable2) = 2" using exAddr2_facts(2) by (simp add: exTable2_def exTable_def)
  then have 2: "\<exists>r. stateBlob exStore2 exBlockB = CHR ''x'' # CHR ''x'' # CHR 0x00 # r"
    using stateBlob_count[OF cs exHash_ok sub] exTable2_ids by (auto simp: eval_nat_numeral)
  have "inj_on refKeccak exBlobs2"
  proof (rule inj_on_refKeccak)
    fix b c assume "b \<in> exBlobs2" "c \<in> exBlobs2" "31 < length b" "31 < length c" "take 20 b = take 20 c"
    then show "b = c" using 1 2 by (auto simp: exBlobs2_def exBlobs_def)
  qed
  then show ?thesis using exSlots_ok by (simp add: hash_ok_def)
qed

lemma exStoreB_inv: "store_inv refLib exPairs exBlobs2 exStoreB exTable2 2" "headNumber exStoreB = 3"
proof -
  have inv: "store_inv refLib exPairs exBlobs2 exStore2 exTable 1"
    by (rule store_inv_mono[OF exStore2_inv(1)]) (auto simp: exBlobs2_def)
  have bl: "blobs_in refLib exBlobs2 exStore2 exBlockB"
    unfolding blobs_in_def
  proof (intro allI impI)
    fix cs assume cs: "stageBlock refLib exStore2 exBlockB = Inr cs"
    with exStageB have "cs_inv refLib exPairs exBlobs cs exTable2 2" by auto
    have "commitBlobs refLib cs \<subseteq> insert (stateBlob exStore2 exBlockB) {b. length b \<le> 31}"
      by (rule commitBlobs_stateBlob[OF cs \<open>cs_inv refLib exPairs exBlobs cs exTable2 2\<close>]) (rule exTable2_ids)
    then show "commitBlobs refLib cs \<subseteq> exBlobs2" by (auto simp: exBlobs2_def exBlobs_def)
  qed
  obtain root s' where p: "processBlock refLib exStore2 exBlockB = Inr (root, s')"
    using processBlock_returns[OF lib_refLib io_refLib exHash2_ok inv exBlockB_ok bl] by blast
  then have s': "s' = exStoreB" by (simp add: exStoreB_def storeAfter_def ProcessBlock_def)
  note c = processBlock_commits[OF lib_refLib exHash2_ok inv exBlockB_ok bl p]
  show "store_inv refLib exPairs exBlobs2 exStoreB exTable2 2" "headNumber exStoreB = 3"
    using c(1,5) by (simp_all add: s' exBlockB_def)
qed

lemma exMatching2: "matching refLib exTable2 exAst None = [2, 1]"
proof -
  have "{i. belowCursor None i \<and> (\<exists>a e. exTable2 a = Some (i, e) \<and> satAST (allAnnotations refLib e) exAst)} = {1, 2}"
    using exEntity_sat exAddr2_facts(2)
    by (auto simp: belowCursor_def exTable2_def exTable_def split: if_splits)
  then show ?thesis by (simp add: matching_def)
qed

text \<open>A page of one.\<close>

definition exOpt :: Options where
  "exOpt = \<lparr>optAtBlock = None, optIncludeData = None, optResultsPerPage = Some 1, optCursor = []\<rparr>"

lemma exOpt_facts: "getAtBlock (Some exOpt) = 0" "getCursor refWeb (Some exOpt) = Inr None" "getResultsPerPage (Some exOpt) = 1"
  by (simp_all add: exOpt_def getAtBlock_def getCursor_def getResultsPerPage_def queryResultCountLimit_def)

end
