(* ===== verification/Version_Info.thy ===== *)
theory Version_Info
  imports Arkiv_Prelude
begin

text \<open>
  Build information (\<open>version/version.go\<close>), the handler that serves it (\<open>version/http.go\<close>) and the
  configuration of the daemon (\<open>cmd/arkiv-storaged/main.go\<close>). The variables set by the linker, the build
  information of the run time and the file system are arguments.
\<close>

section \<open>Build information\<close>

definition unknown :: string where "unknown = ''unknown''"

text \<open>\<open>strings.TrimSpace\<close>: ASCII white space is trimmed here, other strings go to the argument \<open>uni\<close>.\<close>

definition isSpace :: "char \<Rightarrow> bool" where
  "isSpace c \<longleftrightarrow> c \<in> {CHR 0x09, CHR 0x0A, CHR 0x0B, CHR 0x0C, CHR 0x0D, CHR '' ''}"

definition TrimSpace :: "(string \<Rightarrow> string) \<Rightarrow> string \<Rightarrow> string" where
  "TrimSpace uni s =
     (if isASCII s then rev (dropWhile isSpace (rev (dropWhile isSpace s))) else uni s)"

record unicode =
  uniLower :: "string \<Rightarrow> string"
  uniTrim :: "string \<Rightarrow> string"

record ldflags =
  flTag :: string
  flCommit :: string
  flDirty :: string
  flBuildTime :: string

record buildInfo =
  biMainVersion :: string
  biSettings :: "(string \<times> string) list"

record Info =
  inTag :: string
  inCommit :: string
  inCommitShort :: string
  inDirty :: "bool option"
  inBuildTime :: string
  inGoVersion :: string
  inModuleVersion :: string
  inVCSRevision :: string
  inVCSTime :: string
  inVCSModified :: "bool option"

definition clean :: "unicode \<Rightarrow> string \<Rightarrow> string" where
  "clean u value = (let v = TrimSpace (uniTrim u) value in if v = [] then unknown else v)"

definition parseBool :: "unicode \<Rightarrow> string \<Rightarrow> bool option" where
  "parseBool u value =
     (let v = toLower (uniLower u) (TrimSpace (uniTrim u) value) in
      if v \<in> {''true'', ''1'', ''yes'', ''dirty''} then Some True
      else if v \<in> {''false'', ''0'', ''no'', ''clean''} then Some False
      else None)"

definition shortCommit :: "unicode \<Rightarrow> string \<Rightarrow> string" where
  "shortCommit u commit =
     (let c = clean u commit in if c = unknown then unknown else if length c \<le> 12 then c else take 12 c)"

definition applySetting :: "unicode \<Rightarrow> string \<times> string \<Rightarrow> Info \<Rightarrow> Info" where
  "applySetting u = (\<lambda>(key, value) info.
     if key = ''vcs.revision'' then
       info\<lparr>inVCSRevision := value, inCommit := (if inCommit info = unknown then value else inCommit info)\<rparr>
     else if key = ''vcs.time'' then
       info\<lparr>inVCSTime := value, inBuildTime := (if inBuildTime info = unknown then value else inBuildTime info)\<rparr>
     else if key = ''vcs.modified'' then
       (case parseBool u value of
          None \<Rightarrow> info
        | Some m \<Rightarrow> info\<lparr>inVCSModified := Some m, inDirty := (if inDirty info = None then Some m else inDirty info)\<rparr>)
     else info)"

definition applyBuildInfo :: "unicode \<Rightarrow> buildInfo \<Rightarrow> Info \<Rightarrow> Info" where
  "applyBuildInfo u bi info =
     (let v = biMainVersion bi;
          info = (if v \<noteq> [] \<and> v \<noteq> ''(devel)''
                  then info\<lparr>inModuleVersion := v, inTag := (if inTag info = unknown then v else inTag info)\<rparr>
                  else info)
      in fold (applySetting u) (biSettings bi) info)"

definition Current :: "unicode \<Rightarrow> ldflags \<Rightarrow> string \<Rightarrow> buildInfo option \<Rightarrow> Info" where
  "Current u fl goVersion build =
     (let info = \<lparr>inTag = clean u (flTag fl), inCommit = clean u (flCommit fl), inCommitShort = [],
                  inDirty = parseBool u (flDirty fl), inBuildTime = clean u (flBuildTime fl),
                  inGoVersion = goVersion, inModuleVersion = [], inVCSRevision = [], inVCSTime = [],
                  inVCSModified = None\<rparr>;
          info = (case build of None \<Rightarrow> info | Some bi \<Rightarrow> applyBuildInfo u bi info);
          short = shortCommit u (inCommit info);
          info = (if short \<noteq> unknown then info\<lparr>inCommitShort := short\<rparr> else info)
      in if inBuildTime info = unknown then info\<lparr>inBuildTime := []\<rparr> else info)"

section \<open>The handler\<close>

text \<open>
  What the handler writes: headers, status and body, or the response of the handler it wraps. \<open>http.Error\<close>
  sets two headers and writes its message with a line break.
\<close>

datatype replyBody = InfoJson Info | ErrorText string

datatype reply =
  Delegated
| Reply nat "(string \<times> string) list" "replyBody option"

record httpRequest =
  reqPath :: string
  reqMethod :: string

definition httpError :: "string \<Rightarrow> nat \<Rightarrow> (string \<times> string) list \<Rightarrow> reply" where
  "httpError message code headers =
     Reply code (headers @ [(''Content-Type'', ''text/plain; charset=utf-8''), (''X-Content-Type-Options'', ''nosniff'')])
       (Some (ErrorText (message @ [CHR 0x0A])))"

definition versionHandler :: "Info \<Rightarrow> httpRequest \<Rightarrow> reply" where
  "versionHandler current r =
     (if reqPath r \<noteq> ''/version'' then Delegated
      else if reqMethod r \<noteq> ''GET'' \<and> reqMethod r \<noteq> ''HEAD''
      then httpError ''method not allowed'' 405 [(''Allow'', ''GET, HEAD'')]
      else Reply 200 [(''Content-Type'', ''application/json''), (''Cache-Control'', ''no-store'')]
             (if reqMethod r = ''HEAD'' then None else Some (InfoJson current)))"

section \<open>Configuration\<close>

record config =
  cfgChainAddr :: string
  cfgQueryAddr :: string

text \<open>\<open>filepath.Join\<close> of the home directory and a name is an argument.\<close>

definition defaultDataDir :: "(string \<Rightarrow> string \<Rightarrow> string) \<Rightarrow> string res \<Rightarrow> string" where
  "defaultDataDir join home = (case home of Inl _ \<Rightarrow> ''.arkiv-storaged'' | Inr h \<Rightarrow> join h ''.arkiv-storaged'')"

text \<open>
  Reading the file: opening it, decoding it, and closing it, whose error counts only when there is no
  other. A missing file is an empty configuration.
\<close>

definition loadConfig :: "'f res \<Rightarrow> ('f \<Rightarrow> config res) \<Rightarrow> ('f \<Rightarrow> err option) \<Rightarrow> config res" where
  "loadConfig open decode close =
     (case open of
        Inl ErrNotFound \<Rightarrow> Inr \<lparr>cfgChainAddr = [], cfgQueryAddr = []\<rparr>
      | Inl e \<Rightarrow> Inl e
      | Inr f \<Rightarrow> (case decode f of
          Inl e \<Rightarrow> Inl e
        | Inr cfg \<Rightarrow> (case close f of None \<Rightarrow> Inr cfg | Some e \<Rightarrow> Inl e)))"

record flags =
  flagChainAddr :: "string option"
  flagQueryAddr :: "string option"

definition chainAddrOf :: "flags \<Rightarrow> config \<Rightarrow> string" where
  "chainAddrOf fl cfg =
     (let chainAddr = (case flagChainAddr fl of Some a \<Rightarrow> a | None \<Rightarrow> ''127.0.0.1:2704'')
      in if flagChainAddr fl = None \<and> cfgChainAddr cfg \<noteq> [] then cfgChainAddr cfg else chainAddr)"

definition queryAddrOf :: "flags \<Rightarrow> config \<Rightarrow> string" where
  "queryAddrOf fl cfg =
     (let queryAddr = (case flagQueryAddr fl of Some a \<Rightarrow> a | None \<Rightarrow> ''127.0.0.1:2705'')
      in if flagQueryAddr fl = None \<and> cfgQueryAddr cfg \<noteq> [] then cfgQueryAddr cfg else queryAddr)"

section \<open>Precedence\<close>

lemma dropWhile_idem: "dropWhile P (dropWhile P xs) = dropWhile P xs"
  by (induction xs) auto

text \<open>Values set at build time win; the metadata of the run time only fills in what is unknown.\<close>

lemma applySetting_keeps:
  "inTag (applySetting u kv info) = inTag info"
  "inCommit info \<noteq> unknown \<Longrightarrow> inCommit (applySetting u kv info) = inCommit info"
  "inDirty info \<noteq> None \<Longrightarrow> inDirty (applySetting u kv info) = inDirty info"
  "inBuildTime info \<noteq> unknown \<Longrightarrow> inBuildTime (applySetting u kv info) = inBuildTime info"
  by (auto simp: applySetting_def split: prod.splits option.splits)

lemma fold_applySetting_keeps:
  "inTag (fold (applySetting u) kvs info) = inTag info"
  "inCommit info \<noteq> unknown \<Longrightarrow> inCommit (fold (applySetting u) kvs info) = inCommit info"
  "inDirty info \<noteq> None \<Longrightarrow> inDirty (fold (applySetting u) kvs info) = inDirty info"
  "inBuildTime info \<noteq> unknown \<Longrightarrow> inBuildTime (fold (applySetting u) kvs info) = inBuildTime info"
proof (induction kvs arbitrary: info)
  case (Cons kv kvs)
  {
    case 1
    show ?case using Cons(1)[of "applySetting u kv info"] by (simp add: applySetting_keeps)
  next
    case 2
    then show ?case using Cons(2)[of "applySetting u kv info"] by (simp add: applySetting_keeps)
  next
    case 3
    then show ?case using Cons(3)[of "applySetting u kv info"] by (simp add: applySetting_keeps)
  next
    case 4
    then show ?case using Cons(4)[of "applySetting u kv info"] by (simp add: applySetting_keeps)
  }
qed simp_all

lemma Current_flags:
  "clean u (flTag fl) \<noteq> unknown \<Longrightarrow> inTag (Current u fl go build) = clean u (flTag fl)"
  "clean u (flCommit fl) \<noteq> unknown \<Longrightarrow> inCommit (Current u fl go build) = clean u (flCommit fl)"
  "parseBool u (flDirty fl) \<noteq> None \<Longrightarrow> inDirty (Current u fl go build) = parseBool u (flDirty fl)"
  "clean u (flBuildTime fl) \<noteq> unknown \<Longrightarrow> inBuildTime (Current u fl go build) = clean u (flBuildTime fl)"
  by (cases build; simp add: Current_def Let_def applyBuildInfo_def fold_applySetting_keeps)+

lemma length_shortCommit: "length (shortCommit u commit) \<le> 12"
  by (auto simp: shortCommit_def Let_def unknown_def)

end
