(* ===== verification/Further_Facts.thy ===== *)
theory Further_Facts
  imports Example_Revert Example_Pages Version_Info
begin

text \<open>
  Facts about single operations: the state of past blocks, the entity count, opening and restarting a store,
  the encodings of numbers and of the head, the staging database and the build information.
\<close>

text \<open>A block keeps the state at every earlier block readable as it was, unless it takes over the number or
  the hash of that block.\<close>

theorem past_states_kept:
  assumes "lib_ok L" "hash_ok L U H" "store_inv L U H s T n" "block_ok L U block (T, n)"
    "absBlock L block (T, n) = Some (T', n')" "blobs_in L H s block"
    "processBlock L s block = Inr (root, s')" "blockRep L U s m Tm" "m \<noteq> 0" "m \<noteq> Number (Header block)"
    "\<forall>hb. rd L (rawDB s) (blockNumberKey m) = Some hb \<longrightarrow> BytesToHash hb \<noteq> Hash (Header block)"
  shows "blockRep L U s' m Tm"
  by (rule processBlock_keeps_past[OF assms])

theorem past_states_kept_witness:
  "blockRep refLib exPairs exStore2 1 Map.empty"
  using exStore2 past_states_kept[OF lib_refLib exHash_ok exStore1_inv(1) exBlock2_ok exBlock2_blobs _
    exBlock1_readable _ exBlock2_facts(1) exNotTaken] by auto

text \<open>An equality between \<open>$owner\<close> and a number, which the grammar accepts, makes normalisation
  dereference a nil pointer.\<close>

theorem owner_number_panics:
  "normExpression uni (Expression (OrExpression (AndExpression (EqualExpr None
     (Some \<lparr>eqVar = ''$owner'', eqIsNot = b, eqValue = \<lparr>valString = None, valNumber = Some n\<rparr>\<rparr>)
     None None None None None None) []) []))
   = Inl (Panic ''nil pointer dereference'')"
  by (simp add: normEqualExpr_def normEquality_def addressVar_def derefString_def)

text \<open>The entity count is the number of live entities.\<close>

theorem GetEntityCount_exact:
  assumes "lib_ok L" "store_inv L U H s T n" "pair ''$all'' ''true'' \<in> U"
  shows "GetEntityCount L (storeBackend L s) = Inr (word_of_nat (card (dom T)))"
  by (rule GetEntityCount_store[OF blockRep_head[OF assms(1,3,2)]])

theorem GetEntityCount_exact_witness:
  "GetEntityCount refLib (storeBackend refLib exStoreB) = Inr 2"
proof -
  have "card (dom exTable2) = 2" using exAddr2_facts(2) by (simp add: exTable2_def exTable_def)
  with GetEntityCount_exact[OF lib_refLib exStoreB_inv(1) exPairs_all] show ?thesis by simp
qed

text \<open>With zero results per page a query returns no data and no cursor, however many entities match.\<close>

theorem zero_results_no_cursor:
  assumes "optResultsPerPage opt = Some 0" "Query W ParseString L be q (Some opt) = Inr r"
  shows "qrData r = [] \<and> qrCursor r = None"
  using assms
  by (auto simp: Query_def andThen_eq_Inr Let_def getResultsPerPage_def queryLoop.simps)

theorem zero_results_no_cursor_witness:
  "\<exists>r. Query refWeb refParseString refLib (storeBackend refLib exStoreB) exQuery (Some (exOpt\<lparr>optResultsPerPage := Some 0\<rparr>)) = Inr r \<and>
    qrData r = [] \<and> qrCursor r = None"
proof -
  have o: "getAtBlock (Some (exOpt\<lparr>optResultsPerPage := Some 0\<rparr>)) = 0"
    "getCursor refWeb (Some (exOpt\<lparr>optResultsPerPage := Some 0\<rparr>)) = Inr None"
    by (simp_all add: exOpt_def getAtBlock_def getCursor_def)
  obtain r where r: "Query refWeb refParseString refLib (storeBackend refLib exStoreB) exQuery
      (Some (exOpt\<lparr>optResultsPerPage := Some 0\<rparr>)) = Inr r"
    using Query_head[OF lib_refLib web_refWeb exHash2_ok exStoreB_inv(1) exPairs_all exParse_ok exAst_ok(1) o]
    by blast
  from zero_results_no_cursor[OF _ r] r show ?thesis by auto
qed

text \<open>A store is restored from its database alone: opening the database again gives the same store.\<close>

theorem restart_restores:
  assumes "head_ok L s"
  shows "New L (rawDB s) = s"
  by (rule New_restores[OF assms])

theorem restart_restores_witness: "New refLib (rawDB exStore2) = exStore2"
  by (rule restart_restores[OF exStore2_inv(2)])

text \<open>Opening an empty database, as the in-memory store does, gives a store without entities, on which every
  theorem about blocks can start.\<close>

theorem empty_database_opens:
  assumes "lib_ok L" "rd L db = Map.empty"
  shows "store_inv L U H (New L db) Map.empty 0 \<and> head_indexed L (New L db) \<and> HeadNumber (New L db) = 0 \<and>
    store_inv L U H (NewMemory L) Map.empty 0"
proof -
  obtain er where "dbGet L db headKey = Inl er"
    using fun_cong[OF assms(2), of headKey] by (auto simp: rd_def okOption_eq_None)
  moreover have "store_inv L U H (NewMemory L) Map.empty 0"
    unfolding NewMemory_def by (rule New_empty[OF assms(1)]) (use assms(1) in \<open>auto simp: rd_memNew\<close>)
  ultimately show ?thesis using New_empty[OF assms] head_indexed_New[OF assms(2)] by (simp add: HeadNumber_def New_def)
qed

theorem empty_database_opens_witness: "store_inv refLib exPairs exBlobs (New refLib []) Map.empty 0"
  using empty_database_opens[OF lib_refLib, of "[]"] by (simp add: fun_eq_iff)

text \<open>Reverting one block is reverting the list that holds it.\<close>

theorem revertBlock_is_revertToAncestor: "revertBlock L s ref = revertToAncestor L s [ref]"
  by (simp add: revertToAncestor_single)

text \<open>The annotation values of numbers sort like the numbers, and the eight bytes of a wire attribute are read
  as the number its last eight bytes write.\<close>

theorem numeric_values:
  "(numericVal v < numericVal w \<longleftrightarrow> v < w) \<and> bytesUint64 (numericVal v) = v \<and> attrUint64 b = word_of_nat (be_nat b)"
proof -
  have "numericVal v < numericVal w \<longleftrightarrow> v < w"
    using uint64Bytes_le_iff[of w v] by (simp add: numericVal_def linorder_not_le[symmetric])
  moreover have "attrUint64 b = word_of_nat (be_nat b)"
  proof (cases "length b > 8")
    case True
    let ?a = "take (length b - 8) b" and ?c = "drop (length b - 8) b"
    have "be_nat b = be_nat ?a * 2 ^ 64 + be_nat ?c"
      using True be_nat_append[of ?a ?c] by simp
    then have "(word_of_nat (be_nat b) :: uint64) = word_of_nat (be_nat ?a) * word_of_nat (2 ^ 64) + word_of_nat (be_nat ?c)"
      by (simp only: of_nat_add of_nat_mult)
    also have "(word_of_nat (2 ^ 64) :: uint64) = 0" by (simp add: word_of_nat_eq_0_iff)
    finally show ?thesis using True by (simp add: attrUint64_def fold_shift_or)
  qed (simp add: attrUint64_def fold_shift_or)
  ultimately show ?thesis by (simp add: numericVal_def)
qed

text \<open>The persisted head is read back as it was written, and its record has 72 bytes, the length
  that opening a store checks.\<close>

theorem head_roundtrip: "decodeHead (encodeHead n h r) = (n, h, r) \<and> length (encodeHead n h r) = 72"
  by (simp add: decodeHead_encodeHead length_encodeHead)

text \<open>Deleting a key from the staging database does not hide the entry of the real one.\<close>

theorem staged_delete_falls_back:
  assumes "kv_ok L" "stDelete L s k = Inr s'"
  shows "okOption (stGet L s' k) = okOption (dbGet L (Database s) k)"
  using stDelete_falls_back[OF assms] by (simp add: rd_def)

theorem staged_delete_falls_back_witness:
  "\<exists>s'. stDelete refLib (newStagingDB refLib [(''k'', ''v'')]) ''k'' = Inr s' \<and> okOption (stGet refLib s' ''k'') = Some ''v''"
proof -
  obtain s' where s': "stDelete refLib (newStagingDB refLib [(''k'', ''v'')]) ''k'' = Inr s'"
    by (simp add: stDelete_def)
  from staged_delete_falls_back[OF kv_refLib s'] s' show ?thesis by (simp add: newStagingDB_def)
qed

text \<open>Values set when the service was built win over the metadata of the run time.\<close>

theorem build_flags_win:
  "(clean u (flTag fl) \<noteq> unknown \<longrightarrow> inTag (Current u fl go build) = clean u (flTag fl)) \<and>
   (clean u (flCommit fl) \<noteq> unknown \<longrightarrow> inCommit (Current u fl go build) = clean u (flCommit fl)) \<and>
   (parseBool u (flDirty fl) \<noteq> None \<longrightarrow> inDirty (Current u fl go build) = parseBool u (flDirty fl)) \<and>
   (clean u (flBuildTime fl) \<noteq> unknown \<longrightarrow> inBuildTime (Current u fl go build) = clean u (flBuildTime fl))"
  using Current_flags by blast

theorem build_flags_win_witness:
  "inTag (Current \<lparr>uniLower = id, uniTrim = id\<rparr>
     \<lparr>flTag = '' v1 '', flCommit = [], flDirty = [], flBuildTime = []\<rparr> ''go1''
     (Some \<lparr>biMainVersion = ''v2'', biSettings = []\<rparr>)) = ''v1''"
proof -
  have "clean \<lparr>uniLower = id, uniTrim = id\<rparr> '' v1 '' = ''v1''"
    by (simp add: clean_def TrimSpace_def isASCII_def isSpace_def Let_def)
  then show ?thesis
    using build_flags_win[of "\<lparr>uniLower = id, uniTrim = id\<rparr>" "\<lparr>flTag = '' v1 '', flCommit = [], flDirty = [], flBuildTime = []\<rparr>"
      "''go1''" "Some \<lparr>biMainVersion = ''v2'', biSettings = []\<rparr>"] by (simp add: unknown_def)
qed

text \<open>After a chain of blocks is committed, the state of every block of it can be read under its number: the
  table that the blocks up to it specify.\<close>

theorem chain_readable:
  assumes "lib_ok L" "io_ok L" "hash_ok L U H" "pair ''$all'' ''true'' \<in> U" "store_inv L U H s T n"
    "chain_ok L U H s (before @ block # rest) (T, n)" "absChain L (before @ block # rest) (T, n) = Some st"
    "sorted_wrt apart (before @ block # rest)" "\<forall>b \<in> set (before @ block # rest). Number (Header b) \<noteq> 0"
  shows "\<exists>T' n'. absChain L (before @ [block]) (T, n) = Some (T', n') \<and>
    blockRep L U (snd (CommitChain L s \<lparr>ccBlocks = before @ block # rest\<rparr>)) (Number (Header block)) T'"
  using commitBlocks_recorded[OF assms(1-9) refl, of 0]
  by (auto simp: CommitChain_def recorded_def split: prod.splits)

theorem chain_readable_witness:
  "blockRep refLib exPairs (snd (CommitChain refLib exStore0 \<lparr>ccBlocks = [exBlock1, exBlock2]\<rparr>)) 1 Map.empty"
proof -
  have a: "sorted_wrt apart ([] @ exBlock1 # [exBlock2])" "\<forall>b \<in> set ([] @ exBlock1 # [exBlock2]). Number (Header b) \<noteq> 0"
    by (simp_all add: apart_def exBlock1_def exBlock2_def)
  have c: "chain_ok refLib exPairs exBlobs exStore0 ([] @ exBlock1 # [exBlock2]) (Map.empty, 0)"
    "absChain refLib ([] @ exBlock1 # [exBlock2]) (Map.empty, 0) = Some (exTable, 1)"
    using exChain_ok exChain_abs by simp_all
  have n: "Number (Header exBlock1) = 1" by (simp add: exBlock1_def)
  from chain_readable[OF lib_refLib io_refLib exHash_ok exPairs_all exStore0_inv c a] show ?thesis
    by (simp add: absChain_def exBlock1_ok(2) n)
qed

text \<open>At an earlier block a normal form of equalities and inclusions evaluates to exactly the numbers of the
  entities that satisfied it then.\<close>

theorem Evaluate_at_block:
  assumes "blockRep L U s m T" "astOk (pointTerm U) ast"
  shows "\<exists>b. Evaluate L (storeQuerier L s) m ast = Inr b \<and>
    bmSet L b = {i. \<exists>a e. T a = Some (i, e) \<and> satAST (allAnnotations L e) ast}"
  by (rule Evaluate_past[OF assms])

theorem Evaluate_at_block_witness:
  "\<exists>b. Evaluate refLib (storeQuerier refLib exStore2) 1 (Some [[exNameTerm]]) = Inr b \<and> bmSet refLib b = {}"
proof -
  have "blockRep refLib exPairs exStore2 1 Map.empty"
    using exStore2 processBlock_keeps_past[OF lib_refLib exHash_ok exStore1_inv(1) exBlock2_ok exBlock2_blobs _
      exBlock1_readable _ exBlock2_facts(1) exNotTaken] by auto
  from Evaluate_at_block[OF this exAst_ok(2)] show ?thesis by simp
qed

abbreviation leafExpr :: "EqualExpr \<Rightarrow> Expression" where
  "leafExpr x \<equiv> Expression (OrExpression (AndExpression x []) [])"

abbreviation notExpr :: "EqualExpr \<Rightarrow> Expression" where
  "notExpr x \<equiv> leafExpr (parenExpr (Paren True (leafExpr x)))"

abbreviation lessLeaf :: "string \<Rightarrow> uint64 \<Rightarrow> EqualExpr" where
  "lessLeaf k n \<equiv> EqualExpr None None None (Some \<lparr>cmpVar = k, cmpValue = \<lparr>valString = None, valNumber = Some n\<rparr>\<rparr>)
     None None None None"

text \<open>Negating a comparison is not complementing it: an entity without the attribute satisfies neither the
  comparison nor its negation, which is the opposite comparison.\<close>

theorem negated_comparison_not_complement:
  assumes "\<not> addressVar k" "\<forall>x. pair k x \<notin> set ps"
  shows "\<exists>t t'. normExpression uni (leafExpr (lessLeaf k n)) = Inr t \<and> normExpression uni (notExpr (lessLeaf k n)) = Inr t' \<and>
    \<not> satTerms (satTerm ps) t \<and> \<not> satTerms (satTerm ps) t'"
  using assms
  by (auto simp: normEqualExpr_def normVarValue_def satTerms_def satTerm_def satCmp_def hasValue_iff noTerm_def
      combineTerms_def invExpression_def invOrExpression_def invAndExpression_def invEqualExpr_def invLessThan_def)

theorem negated_comparison_not_complement_witness:
  "\<exists>t t'. normExpression id (leafExpr (lessLeaf ''age'' 5)) = Inr t \<and> normExpression id (notExpr (lessLeaf ''age'' 5)) = Inr t' \<and>
    \<not> satTerms (satTerm (allAnnotations refLib exEntity)) t \<and> \<not> satTerms (satTerm (allAnnotations refLib exEntity)) t'"
proof (rule negated_comparison_not_complement)
  show "\<not> addressVar ''age''" by (simp add: addressVar_def)
  show "\<forall>x. pair ''age'' x \<notin> set (allAnnotations refLib exEntity)" by (simp add: exEntity_pairs)
qed

text \<open>Comparisons and positive patterns ignore the block of a query: they scan the index of the head, so they
  give the same result at every block, even at one that was never processed.\<close>

theorem scans_ignore_block:
  assumes "scanTerm t" "\<forall>e. tmGlob t = Some e \<longrightarrow> \<not> glIsNot e"
  shows "evalTerm L q m t = evalTerm L q m' t"
  using assms by (auto simp: scanTerm_def evalTerm_def evalGlob_def negateIf_def split: option.splits)

theorem scans_ignore_block_witness:
  "evalTerm refLib (storeQuerier refLib exStore2) 999 exSizeTerm = evalTerm refLib (storeQuerier refLib exStore2) 0 exSizeTerm"
  by (rule scans_ignore_block[OF exTerms_ok(2)]) (simp add: exSizeTerm_def noTerm_def)

text \<open>At a block that is not on record every read that opens its state is an error that says so: the lookup of an
  entity, the query for all entities and the equalities.\<close>

theorem unknown_block_error:
  assumes "m \<noteq> 0" "dbGet L (rawDB s) (blockNumberKey m) = Inl ErrNotFound"
  shows "GetEntity L s m a = wrapErr ''block %d not found'' (Inl ErrNotFound) \<and>
    Evaluate L (storeQuerier L s) m None = wrapErr ''block %d not found'' (Inl ErrNotFound) \<and>
    (\<exists>e. GetEntityByAddress W L (storeBackend L s) a (Some (opt\<lparr>optAtBlock := Some m\<rparr>)) = Inl e) \<and>
    (\<forall>v. annotVal (eqValue x) = Inr v \<longrightarrow>
       evalEquality L (storeQuerier L s) m x = wrapErr ''block %d not found'' (Inl ErrNotFound))"
proof -
  have o: "openStateAt L s m = wrapErr ''block %d not found'' (Inl ErrNotFound)"
    using assms by (simp add: openStateAt_def)
  then show ?thesis
    by (simp add: GetEntity_def Evaluate_def storeQuerier_def AllEntities_def ReadAnnotBitmap_def evalEquality_def
        GetEntityByAddress_def fetchEntityData_def storeBackend_def GetEntityBytes_def getAtBlock_def)
qed

theorem unknown_block_error_witness:
  "GetEntity refLib exStore0 7 exAddr = wrapErr ''block %d not found'' (Inl ErrNotFound)"
  using unknown_block_error[of 7 refLib exStore0] by (simp add: exStore0_eq)

text \<open>An entity's attributes are its own and the synthetic ones: asked for both, a response holds exactly those
  of a response with its own and of one with the synthetic ones, and always sorted by key.\<close>

theorem attributes_partition:
  assumes "web_ok W"
  shows "mset (sortedStringAttrs W L e anyAnnot) =
      mset (sortedStringAttrs W L e userAnnot) + mset (sortedStringAttrs W L e syntheticAnnot) \<and>
    mset (sortedNumericAttrs W e anyAnnot) =
      mset (sortedNumericAttrs W e userAnnot) + mset (sortedNumericAttrs W e syntheticAnnot) \<and>
    sorted (map attrKey (sortedStringAttrs W L e keep)) \<and> sorted (map attrKey (sortedNumericAttrs W e keep))"
proof -
  have split: "mset (map f (filter P xs)) + mset (map f (filter (\<lambda>x. \<not> P x) xs)) = mset (map f xs)"
    for f :: "'x \<Rightarrow> 'y" and P xs by (induction xs) auto
  have s: "mset (SortStringAttrs W as) = mset as \<and> sorted (map attrKey (SortStringAttrs W as))"
    "mset (SortNumericAttrs W bs) = mset bs \<and> sorted (map attrKey (SortNumericAttrs W bs))" for as bs
    using assms unfolding web_ok_def by blast+
  note defs = sortedStringAttrs_def sortedNumericAttrs_def s stringAttrs_def numericAttrs_def anyAnnot_def
    userAnnot_def syntheticAnnot_def
  have "mset (sortedStringAttrs W L e anyAnnot) =
      mset (sortedStringAttrs W L e userAnnot) + mset (sortedStringAttrs W L e syntheticAnnot)"
    using split[of _ "\<lambda>a. prefix ''$'' (saKey a)", symmetric]
    by (simp add: defs ac_simps del: mset_map mset_filter)
  moreover have "mset (sortedNumericAttrs W e anyAnnot) =
      mset (sortedNumericAttrs W e userAnnot) + mset (sortedNumericAttrs W e syntheticAnnot)"
    using split[of _ "\<lambda>a. prefix ''$'' (naKey a)", symmetric]
    by (simp add: defs ac_simps del: mset_map mset_filter)
  ultimately show ?thesis by (simp add: sortedStringAttrs_def sortedNumericAttrs_def s)
qed

theorem attributes_partition_witness:
  "mset (sortedStringAttrs refWeb refLib exEntity anyAnnot) =
    mset (sortedStringAttrs refWeb refLib exEntity userAnnot) + mset (sortedStringAttrs refWeb refLib exEntity syntheticAnnot)"
  using attributes_partition[OF web_refWeb] by blast

end
