(* ===== verification/Twin_Runs.thy ===== *)
theory Twin_Runs
  imports Store_Correct
begin

text \<open>
  Two runs of a block: on two write buffers over different databases, and with Go maps ranged over in different
  orders. As far as the state root can depend on them the buffers agree (\<open>twin\<close>), and every operation keeps that.
\<close>

section \<open>Another order of ranging over maps\<close>

definition reorder ::
    "(annotPair list \<Rightarrow> annotPair list) \<Rightarrow> (address list \<Rightarrow> address list) \<Rightarrow> ('db, 'bm, 'sdb) lib \<Rightarrow> ('db, 'bm, 'sdb) lib" where
  "reorder rp ra L = L\<lparr>rangePairs := rp, rangeAddrs := ra\<rparr>"

text \<open>Everything but the two functions is the same.\<close>

lemma reorder_sel [simp]:
  "rangePairs (reorder rp ra L) = rp" "rangeAddrs (reorder rp ra L) = ra"
  "Keccak256Hash (reorder rp ra L) = Keccak256Hash L" "AddressHex (reorder rp ra L) = AddressHex L"
  "HashHex (reorder rp ra L) = HashHex L" "unicodeToLower (reorder rp ra L) = unicodeToLower L"
  "rlpEncode (reorder rp ra L) = rlpEncode L" "rlpDecode (reorder rp ra L) = rlpDecode L"
  "memNew (reorder rp ra L) = memNew L" "dbGet (reorder rp ra L) = dbGet L" "dbHas (reorder rp ra L) = dbHas L"
  "dbPut (reorder rp ra L) = dbPut L" "dbDelete (reorder rp ra L) = dbDelete L" "dbIter (reorder rp ra L) = dbIter L"
  "dbIterError (reorder rp ra L) = dbIterError L" "dbWrite (reorder rp ra L) = dbWrite L"
  "bmNew (reorder rp ra L) = bmNew L" "bmAdd (reorder rp ra L) = bmAdd L" "bmRemove (reorder rp ra L) = bmRemove L"
  "bmAddRange (reorder rp ra L) = bmAddRange L" "bmOr (reorder rp ra L) = bmOr L" "bmAnd (reorder rp ra L) = bmAnd L"
  "bmAndNot (reorder rp ra L) = bmAndNot L" "bmToArray (reorder rp ra L) = bmToArray L"
  "bmMarshal (reorder rp ra L) = bmMarshal L" "bmUnmarshal (reorder rp ra L) = bmUnmarshal L"
  "EmptyRootHash (reorder rp ra L) = EmptyRootHash L" "stateNew (reorder rp ra L) = stateNew L"
  "sdExist (reorder rp ra L) = sdExist L" "sdCreateAccount (reorder rp ra L) = sdCreateAccount L"
  "sdGetNonce (reorder rp ra L) = sdGetNonce L" "sdSetNonce (reorder rp ra L) = sdSetNonce L"
  "sdGetState (reorder rp ra L) = sdGetState L" "sdSetState (reorder rp ra L) = sdSetState L"
  "sdGetCode (reorder rp ra L) = sdGetCode L" "sdSetCode (reorder rp ra L) = sdSetCode L"
  "sdCommit (reorder rp ra L) = sdCommit L" "trieCommit (reorder rp ra L) = trieCommit L"
  by (simp_all add: reorder_def)

lemma reorder_db [simp]:
  "rd (reorder rp ra L) = rd L" "bmSet (reorder rp ra L) = bmSet L" "stGet (reorder rp ra L) = stGet L"
  "stHas (reorder rp ra L) = stHas L" "stPut (reorder rp ra L) = stPut L" "rdS (reorder rp ra L) = rdS L"
  "newStagingDB (reorder rp ra L) = newStagingDB L" "stBatchWrite (reorder rp ra L) = stBatchWrite L"
  "stCommit (reorder rp ra L) = stCommit L" "putAll (reorder rp ra L) = putAll L"
  by (unfold rd_def bmSet_def stGet_def stHas_def stPut_def rdS_def newStagingDB_def stBatchWrite_def
      stCommit_def putAll_def reorder_sel, (rule refl)+)

lemma reorder_system [simp]:
  "systemAddress (reorder rp ra L) = systemAddress L" "annotSlotKey (reorder rp ra L) = annotSlotKey L"
  "idSlotKey (reorder rp ra L) = idSlotKey L" "entityCountSlot (reorder rp ra L) = entityCountSlot L"
  "readEntityCount (reorder rp ra L) = readEntityCount L" "incrementEntityCount (reorder rp ra L) = incrementEntityCount L"
  "initSystemAccount (reorder rp ra L) = initSystemAccount L" "setAnnotSlot (reorder rp ra L) = setAnnotSlot L"
  "setIDSlot (reorder rp ra L) = setIDSlot L" "clearIDSlot (reorder rp ra L) = clearIDSlot L"
  by (unfold systemAddress_def annotSlotKey_def idSlotKey_def entityCountSlot_def readEntityCount_def
      incrementEntityCount_def initSystemAccount_def setAnnotSlot_def setIDSlot_def clearIDSlot_def reorder_sel, (rule refl)+)

lemma reorder_entities [simp]:
  "encodeEntity (reorder rp ra L) = encodeEntity L" "decodeEntity (reorder rp ra L) = decodeEntity L"
  "allAnnotations (reorder rp ra L) = allAnnotations L" "ToLower (reorder rp ra L) = ToLower L"
  "newEntity (reorder rp ra L) = newEntity L" "updatedEntity (reorder rp ra L) = updatedEntity L"
  "getEntity (reorder rp ra L) = getEntity L" "lookupID (reorder rp ra L) = lookupID L"
  by (unfold encodeEntity_def decodeEntity_def allAnnotations_def builtinAnnotations_def ToLower_def newEntity_def
      updatedEntity_def applyAttributes_def applyAttribute_def getEntity_def lookupID_def reorder_sel reorder_db, (rule refl)+)

lemma reorder_ops [simp]:
  "mutateBitmap (reorder rp ra L) = mutateBitmap L" "bitmapAdd (reorder rp ra L) = bitmapAdd L"
  "bitmapRemove (reorder rp ra L) = bitmapRemove L" "addPairs (reorder rp ra L) = addPairs L"
  "removePairs (reorder rp ra L) = removePairs L" "deleteEntity (reorder rp ra L) = deleteEntity L"
  "processCreate (reorder rp ra L) = processCreate L" "processDelete (reorder rp ra L) = processDelete L"
  "processExtend (reorder rp ra L) = processExtend L" "processExpire (reorder rp ra L) = processExpire L"
  "processTransfer (reorder rp ra L) = processTransfer L" "flushEntity (reorder rp ra L) = flushEntity L"
  "flushBitmap (reorder rp ra L) = flushBitmap L" "newCacheStore (reorder rp ra L) = newCacheStore L"
  by (unfold mutateBitmap_def bitmapAdd_def bitmapRemove_def addPairs_def removePairs_def deleteEntity_def
      processCreate_def processDelete_def processExtend_def processExpire_def processTransfer_def flushEntity_def
      flushBitmap_def newCacheStore_def reorder_sel reorder_db reorder_system reorder_entities, (rule refl)+)

section \<open>Two results\<close>

definition both :: "('a \<Rightarrow> 'b \<Rightarrow> bool) \<Rightarrow> 'a res \<Rightarrow> 'b res \<Rightarrow> bool" where
  "both R x y \<longleftrightarrow> (\<forall>a b. x = Inr a \<longrightarrow> y = Inr b \<longrightarrow> R a b)"

named_theorems both_intros \<open>rules for two runs of one computation\<close>

lemma both_basic [both_intros]:
  "R a b \<Longrightarrow> both R (Inr a) (Inr b)" "both R x y \<Longrightarrow> both R (wrapErr m x) (wrapErr m' y)" "both R (Inl e) y"
  by (simp_all add: both_def)

lemma both_then: "both R x y \<Longrightarrow> (\<And>a b. R a b \<Longrightarrow> both Q (f a) (g b)) \<Longrightarrow> both Q (andThen x f) (andThen y g)"
  by (fastforce simp: both_def andThen_eq_Inr)

lemma both_fold:
  "(\<And>x a b. x \<in> set xs \<Longrightarrow> R a b \<Longrightarrow> both R (f x a) (g x b)) \<Longrightarrow> R a b \<Longrightarrow> both R (foldRes f xs a) (foldRes g xs b)"
proof (induction xs arbitrary: a b)
  case (Cons x xs)
  have "both R (f x a) (g x b)" using Cons.prems by simp
  then show ?case unfolding foldRes.simps by (rule both_then) (use Cons in simp)
qed (simp add: both_intros)

section \<open>Twins\<close>

text \<open>The bitmap an operation finds for a pair, in the cache or behind the pointer.\<close>

definition loaded :: "('db, 'bm, 'sdb) lib \<Rightarrow> (bytes \<rightharpoonup> bytes) \<Rightarrow> annotPair \<Rightarrow> 'bm option" where
  "loaded L g p =
     (case g (annotKeyP p) of None \<Rightarrow> Some (bmNew L)
      | Some b \<Rightarrow> if length b = 32 then Option.bind (g (bitmapKey (BytesToHash b))) (\<lambda>bs. okOption (bmUnmarshal L bs))
          else Some (bmNew L))"

definition curBm :: "('db, 'bm, 'sdb) lib \<Rightarrow> ('db, 'bm, 'sdb) CacheStore \<Rightarrow> annotPair \<Rightarrow> 'bm option" where
  "curBm L cs p = (case map_of (dirtyBitmaps cs) p of Some bm \<Rightarrow> Some bm | None \<Rightarrow> loaded L (rdS L (stagingDB cs)) p)"

definition live :: "('db, 'bm, 'sdb) lib \<Rightarrow> ('db, 'bm, 'sdb) CacheStore \<Rightarrow> address \<Rightarrow> bool" where
  "live L cs a \<longleftrightarrow> map_of (dirtyEntities cs) a \<noteq> None \<or> sdGetCode L (stateDB cs) a \<noteq> []"

text \<open>A Go map has one entry for a key.\<close>

definition tidy :: "('db, 'bm, 'sdb) CacheStore \<Rightarrow> bool" where
  "tidy cs \<longleftrightarrow> distinct (map fst (dirtyEntities cs)) \<and> distinct (map fst (dirtyBitmaps cs))"

lemma tidy_simps [simp]:
  "tidy cs \<Longrightarrow> tidy (cs\<lparr>dirtyEntities := AList.update x e (dirtyEntities cs)\<rparr>)"
  "tidy cs \<Longrightarrow> tidy (cs\<lparr>dirtyBitmaps := AList.update p b (dirtyBitmaps cs)\<rparr>)"
  "tidy cs \<Longrightarrow> tidy (cs\<lparr>dirtyEntities := AList.delete x (dirtyEntities cs), stateDB := s\<rparr>)"
  "tidy cs \<Longrightarrow> tidy (cs\<lparr>stagingDB := st, stateDB := s, dirtyEntities := AList.update x e (dirtyEntities cs)\<rparr>)"
  by (simp_all add: tidy_def distinct_update distinct_delete)

definition twin ::
    "('db, 'bm, 'sdb) lib \<Rightarrow> ('db, 'bm, 'sdb) CacheStore \<Rightarrow> ('db, 'bm, 'sdb) CacheStore \<Rightarrow> bool" where
  "twin L a b \<longleftrightarrow> tidy a \<and> tidy b \<and>
     stateDB b = stateDB a \<and> blockNumber b = blockNumber a \<and> map_of (dirtyEntities b) = map_of (dirtyEntities a) \<and>
     (\<forall>p. (map_of (dirtyBitmaps b) p = None) = (map_of (dirtyBitmaps a) p = None)) \<and> curBm L b = curBm L a \<and>
     (\<forall>x. live L a x \<longrightarrow> rdS L (stagingDB b) (addrKey x) = rdS L (stagingDB a) (addrKey x))"

lemma twin_live: "twin L a b \<Longrightarrow> live L b = live L a"
  by (simp add: fun_eq_iff live_def twin_def)

lemma mutateBitmap_curBm:
  "mutateBitmap L cs (apKey p) (apVal p) f = Inr cs' \<longleftrightarrow>
    (\<exists>bm. curBm L cs p = Some bm \<and> cs' = cs\<lparr>dirtyBitmaps := AList.update p (f bm) (dirtyBitmaps cs)\<rparr>)"
proof (cases "map_of (dirtyBitmaps cs) p")
  case None
  have g: "stGet L (stagingDB cs) k = Inr v \<longleftrightarrow> rdS L (stagingDB cs) k = Some v" for k v
    by (metis okOption_eq_Some okOption_stGet)
  have p: "annotKeyP p = annotKey (apKey p) (apVal p)" by (simp add: annotKeyP_def)
  show ?thesis
  proof (cases "rdS L (stagingDB cs) (annotKeyP p)")
    case b: None
    then obtain e where "stGet L (stagingDB cs) (annotKeyP p) = Inl e" using stGet_rdS_None by blast
    with None b show ?thesis unfolding p by (auto simp: mutateBitmap_def Let_def curBm_def loaded_def p)
  next
    case (Some b)
    then have "stGet L (stagingDB cs) (annotKeyP p) = Inr b" by (simp add: g)
    with None Some show ?thesis unfolding p
      by (auto simp: mutateBitmap_def Let_def curBm_def loaded_def p andThen_eq_Inr g[of "bitmapKey (BytesToHash b)"] bind_eq_Some_conv)
  qed
qed (auto simp: mutateBitmap_def curBm_def)

lemma curBm_update [simp]:
  "curBm L (cs\<lparr>dirtyBitmaps := AList.update p bm (dirtyBitmaps cs)\<rparr>) = (curBm L cs)(p \<mapsto> bm)"
  by (simp add: fun_eq_iff curBm_def split: option.split)

lemma curBm_frame [simp]:
  "curBm L (cs\<lparr>dirtyEntities := x\<rparr>) = curBm L cs" "curBm L (cs\<lparr>stateDB := y\<rparr>) = curBm L cs"
  by (simp_all add: fun_eq_iff curBm_def split: option.split)

subsection \<open>Bitmaps\<close>

text \<open>They leave the live addresses as they are.\<close>

definition twinAs ::
    "('db, 'bm, 'sdb) lib \<Rightarrow> (address \<Rightarrow> bool) \<Rightarrow> ('db, 'bm, 'sdb) CacheStore \<Rightarrow> ('db, 'bm, 'sdb) CacheStore \<Rightarrow> bool" where
  "twinAs L lv a b \<longleftrightarrow> twin L a b \<and> live L a = lv"

lemma live_frame [simp]: "live L (cs\<lparr>dirtyBitmaps := x\<rparr>) = live L cs"
  by (simp add: fun_eq_iff live_def)

lemma twinAs_twin: "twinAs L lv a b \<Longrightarrow> twin L a b"
  by (simp add: twinAs_def)

lemma twin_mutate:
  fixes p :: annotPair
  shows "twinAs L lv a b \<Longrightarrow> both (twinAs L lv) (mutateBitmap L a (apKey p) (apVal p) f) (mutateBitmap L b (apKey p) (apVal p) f)"
  by (auto simp: both_def mutateBitmap_curBm twinAs_def twin_def)

lemma twin_bitmap [both_intros]:
  assumes "twinAs L lv a b"
  shows "both (twinAs L lv) (bitmapAdd L a k v i) (bitmapAdd L b k v i)"
    and "both (twinAs L lv) (bitmapRemove L a k v i) (bitmapRemove L b k v i)"
  using twin_mutate[OF assms, of "pair k v"] by (simp_all add: bitmapAdd_def bitmapRemove_def)

text \<open>Changing the bitmaps of distinct pairs in any order.\<close>

lemma mutate_all:
  assumes "distinct ps" "tidy cs" "foldRes (\<lambda>p cs. wrapErr m (mutateBitmap L cs (apKey p) (apVal p) f)) ps cs = Inr cs'"
  shows "\<exists>al. cs' = cs\<lparr>dirtyBitmaps := al\<rparr> \<and> tidy cs' \<and> (\<forall>p. (map_of al p = None) = (p \<notin> set ps \<and> map_of (dirtyBitmaps cs) p = None)) \<and>
    curBm L cs' = (\<lambda>p. if p \<in> set ps then map_option f (curBm L cs p) else curBm L cs p)"
  using assms
proof (induction ps arbitrary: cs)
  case Nil
  then show ?case by (intro exI[of _ "dirtyBitmaps cs"]) simp
next
  case (Cons p ps)
  let ?cs = "\<lambda>bm. cs\<lparr>dirtyBitmaps := AList.update p (f bm) (dirtyBitmaps cs)\<rparr>"
  obtain bm where bm: "curBm L cs p = Some bm"
    "foldRes (\<lambda>p cs. wrapErr m (mutateBitmap L cs (apKey p) (apVal p) f)) ps (?cs bm) = Inr cs'"
    using Cons.prems(3) unfolding foldRes.simps andThen_eq_Inr wrapErr_eq_Inr mutateBitmap_curBm by blast
  have d: "distinct ps" "p \<notin> set ps" "tidy (?cs bm)" using Cons.prems(1,2) by simp_all
  obtain al where al: "cs' = ?cs bm\<lparr>dirtyBitmaps := al\<rparr>" "tidy cs'"
    "\<forall>q. (map_of al q = None) = (q \<notin> set ps \<and> map_of (dirtyBitmaps (?cs bm)) q = None)"
    "curBm L cs' = (\<lambda>q. if q \<in> set ps then map_option f (curBm L (?cs bm) q) else curBm L (?cs bm) q)"
    using Cons.IH[OF d(1,3) bm(2)] by blast
  show ?case
  proof (intro exI conjI)
    show "cs' = cs\<lparr>dirtyBitmaps := al\<rparr>" using al(1) by simp
    show "tidy cs'" by (rule al(2))
    show "\<forall>q. (map_of al q = None) = (q \<notin> set (p # ps) \<and> map_of (dirtyBitmaps cs) q = None)" using al(3) by auto
    show "curBm L cs' = (\<lambda>q. if q \<in> set (p # ps) then map_option f (curBm L cs q) else curBm L cs q)"
      unfolding al(4) using bm(1) d(2) by (auto simp: fun_eq_iff)
  qed
qed

lemma twin_mutate_all:
  fixes ps :: "annotPair list"
  assumes "twinAs L lv a b" "distinct ps" "distinct qs" "set ps = set qs"
  shows "both (twinAs L lv) (foldRes (\<lambda>p cs. wrapErr m (mutateBitmap L cs (apKey p) (apVal p) f)) ps a)
    (foldRes (\<lambda>p cs. wrapErr m (mutateBitmap L cs (apKey p) (apVal p) f)) qs b)"
  unfolding both_def
proof (intro allI impI)
  fix a' b' assume r: "foldRes (\<lambda>p cs. wrapErr m (mutateBitmap L cs (apKey p) (apVal p) f)) ps a = Inr a'"
    "foldRes (\<lambda>p cs. wrapErr m (mutateBitmap L cs (apKey p) (apVal p) f)) qs b = Inr b'"
  from mutate_all[OF assms(2) _ r(1)] mutate_all[OF assms(3) _ r(2)] assms(1,4) show "twinAs L lv a' b'"
    by (auto simp: twinAs_def twin_def)
qed

lemma twin_pairs:
  assumes "twinAs L lv a b" "distinct ps" "distinct qs" "set ps = set qs"
  shows "both (twinAs L lv) (addPairs L i ps a) (addPairs L i qs b)" "both (twinAs L lv) (removePairs L i ps a) (removePairs L i qs b)"
  unfolding addPairs_def removePairs_def bitmapAdd_def bitmapRemove_def by (rule twin_mutate_all[OF assms])+

lemma twin_same_pairs [both_intros]:
  assumes "twinAs L lv a b"
  shows "both (twinAs L lv) (addPairs L i ps a) (addPairs L i ps b)" "both (twinAs L lv) (removePairs L i ps a) (removePairs L i ps b)"
  unfolding addPairs_def removePairs_def by (intro both_fold both_intros assms; assumption)+

subsection \<open>Entities\<close>

lemma twin_setEntity:
  assumes "twin L a b" "rdS L (stagingDB b) (addrKey x) = rdS L (stagingDB a) (addrKey x)"
  shows "twin L (a\<lparr>dirtyEntities := AList.update x e (dirtyEntities a)\<rparr>) (b\<lparr>dirtyEntities := AList.update x e (dirtyEntities b)\<rparr>)"
  using assms by (auto simp: twin_def live_def fun_eq_iff split: if_splits)

lemma twin_getEntity:
  assumes "twin L a b"
  shows "both (\<lambda>(e, a') (e', b'). e' = e \<and> twin L a' b' \<and> live L a' x) (getEntity L a x) (getEntity L b x)"
proof (cases "map_of (dirtyEntities a) x")
  case None
  have "twin L (a\<lparr>dirtyEntities := AList.update x e (dirtyEntities a)\<rparr>) (b\<lparr>dirtyEntities := AList.update x e (dirtyEntities b)\<rparr>)"
    if "sdGetCode L (stateDB a) x \<noteq> []" for e
    using that assms by (intro twin_setEntity) (simp_all add: twin_def live_def)
  with None assms show ?thesis by (auto simp: both_def getEntity_def twin_def Let_def andThen_eq_Inr live_def)
next
  case (Some e)
  with assms show ?thesis by (auto simp: both_def getEntity_def twin_def live_def)
qed

lemma twin_lookupID:
  assumes "twin L a b" "live L a x"
  shows "both (\<lambda>i j. j = i) (lookupID L a x) (lookupID L b x)"
proof -
  have "rdS L (stagingDB b) (addrKey x) = rdS L (stagingDB a) (addrKey x)" using assms by (simp add: twin_def)
  then show ?thesis by (auto simp: both_def lookupID_def andThen_eq_Inr) (metis okOption_eq_Some okOption_stGet option.inject sum.inject(2))
qed

text \<open>Looking up an entity and its number, and going on with them.\<close>

lemma twin_entity:
  assumes "twin L a b"
    and "\<And>e a b i. twin L a b \<Longrightarrow> live L a x \<Longrightarrow> both (twin L) (f e a i) (g e b i)"
  shows "both (twin L) (andThen (getEntity L a x) (\<lambda>(e, cs). andThen (lookupID L cs x) (f e cs)))
    (andThen (getEntity L b x) (\<lambda>(e, cs). andThen (lookupID L cs x) (g e cs)))"
  by (rule both_then[OF twin_getEntity[OF assms(1)]])
    (auto intro!: both_then[OF twin_lookupID] assms(2))

lemma twin_live_key: "twin L a b \<Longrightarrow> live L a x \<Longrightarrow> rdS L (stagingDB b) (addrKey x) = rdS L (stagingDB a) (addrKey x)"
  by (simp add: twin_def)


section \<open>Operations\<close>

lemma both_twinAs: "both (twinAs L lv) x y \<Longrightarrow> both (twin L) x y"
  by (simp add: both_def twinAs_def)

lemma twin_replace:
  assumes "twinAs L (live L a) a' b'" "live L a x"
  shows "twin L (a'\<lparr>dirtyEntities := AList.update x e (dirtyEntities a')\<rparr>) (b'\<lparr>dirtyEntities := AList.update x e (dirtyEntities b')\<rparr>)"
  using assms by (intro twin_setEntity) (simp_all add: twinAs_def twin_def)

lemma twin_drop:
  assumes "account_ok L" "twin L a b"
  shows "twin L (a\<lparr>dirtyEntities := AList.delete x (dirtyEntities a), stateDB := sdSetCode L (clearIDSlot L (stateDB a) i) x []\<rparr>)
    (b\<lparr>dirtyEntities := AList.delete x (dirtyEntities b), stateDB := sdSetCode L (clearIDSlot L (stateDB b) i) x []\<rparr>)"
  using assms by (auto simp: twin_def live_def clearIDSlot_def lib_simps delete_conv' fun_eq_iff curBm_def split: if_splits)

lemma twin_deleteEntity:
  assumes a: "account_ok L" and t: "twin L a b"
  shows "both (twin L) (deleteEntity L a x) (deleteEntity L b x)"
  unfolding deleteEntity_def
proof (rule twin_entity[OF t])
  fix e a b i assume t: "twin L a b"
  have "both (twinAs L (live L a)) (removePairs L i (allAnnotations L e) a) (removePairs L i (allAnnotations L e) b)"
    by (rule twin_same_pairs(2)) (simp add: twinAs_def t)
  then show "both (twin L)
     (andThen (removePairs L i (allAnnotations L e) a) (\<lambda>cs. let sdb = clearIDSlot L (stateDB cs) i
        in Inr (cs\<lparr>dirtyEntities := AList.delete x (dirtyEntities cs), stateDB := sdSetCode L sdb x []\<rparr>)))
     (andThen (removePairs L i (allAnnotations L e) b) (\<lambda>cs. let sdb = clearIDSlot L (stateDB cs) i
        in Inr (cs\<lparr>dirtyEntities := AList.delete x (dirtyEntities cs), stateDB := sdSetCode L sdb x []\<rparr>)))"
    unfolding Let_def by (rule both_then) (intro both_intros twin_drop[OF a] twinAs_twin)
qed

lemma twin_reindex:
  assumes t: "twin L a b" and x: "live L a x"
  shows "both (twin L)
     (andThen (bitmapRemove L a k v i) (\<lambda>cs. bitmapAdd L (cs\<lparr>dirtyEntities := AList.update x e (dirtyEntities cs)\<rparr>) k w i))
     (andThen (bitmapRemove L b k v i) (\<lambda>cs. bitmapAdd L (cs\<lparr>dirtyEntities := AList.update x e (dirtyEntities cs)\<rparr>) k w i))"
proof (rule both_then)
  show "both (twinAs L (live L a)) (bitmapRemove L a k v i) (bitmapRemove L b k v i)"
    by (rule twin_bitmap(2)) (simp add: twinAs_def t)
  fix a' b' assume "twinAs L (live L a) a' b'"
  from twin_replace[OF this x] show "both (twin L)
     (bitmapAdd L (a'\<lparr>dirtyEntities := AList.update x e (dirtyEntities a')\<rparr>) k w i)
     (bitmapAdd L (b'\<lparr>dirtyEntities := AList.update x e (dirtyEntities b')\<rparr>) k w i)"
    by (intro both_twinAs[OF twin_bitmap(1)]) (simp add: twinAs_def)
qed

lemma twin_processExtend: "twin L a b \<Longrightarrow> both (twin L) (processExtend L a op) (processExtend L b op)"
  unfolding processExtend_def Let_def by (rule twin_entity) (auto intro: twin_reindex)

lemma twin_processTransfer: "twin L a b \<Longrightarrow> both (twin L) (processTransfer L a op) (processTransfer L b op)"
  unfolding processTransfer_def Let_def by (rule twin_entity) (auto intro: twin_reindex)

lemma twin_processUpdate:
  assumes r: "range_ok L" "range_ok (reorder rp ra L)" and t: "twin L a b"
  shows "both (twin L) (processUpdate L a op) (processUpdate (reorder rp ra L) b op)"
  unfolding processUpdate_def Let_def reorder_ops reorder_entities reorder_sel
proof (rule twin_entity[OF t])
  fix e a b i assume t: "twin L a b" and x: "live L a (addrOfKey (uoEntityKey op))"
  let ?n = "updatedEntity L (blockNumber a) e op"
  let ?old = "annotPairSet (allAnnotations L e)" and ?new = "annotPairSet (allAnnotations L ?n)"
  let ?x = "addrOfKey (uoEntityKey op)"
  have p: "distinct (filter P (rangePairs L ps))" "distinct (filter P (rp ps))"
    "set (filter P (rangePairs L ps)) = set (filter P (rp ps))" if "distinct ps" for P ps
    using range_simps(1,2)[OF r(1) that] range_simps(1,2)[OF r(2) that] by simp_all
  have bn: "blockNumber b = blockNumber a" using t by (simp add: twin_def)
  note d = p[OF distinct_annotPairSet]
  show "both (twin L)
     (andThen (removePairs L i (filter (\<lambda>p. p \<notin> set ?new) (rangePairs L ?old)) a)
       (\<lambda>cs. andThen (addPairs L i (filter (\<lambda>p. p \<notin> set ?old) (rangePairs L ?new)) cs)
         (\<lambda>cs. Inr (cs\<lparr>dirtyEntities := AList.update ?x ?n (dirtyEntities cs)\<rparr>))))
     (andThen (removePairs L i (filter (\<lambda>p. p \<notin> set (annotPairSet (allAnnotations L (updatedEntity L (blockNumber b) e op)))) (rp ?old)) b)
       (\<lambda>cs. andThen (addPairs L i (filter (\<lambda>p. p \<notin> set ?old) (rp (annotPairSet (allAnnotations L (updatedEntity L (blockNumber b) e op))))) cs)
         (\<lambda>cs. Inr (cs\<lparr>dirtyEntities := AList.update ?x (updatedEntity L (blockNumber b) e op) (dirtyEntities cs)\<rparr>))))"
    unfolding bn
  proof (rule both_then)
    show "both (twinAs L (live L a)) (removePairs L i (filter (\<lambda>p. p \<notin> set ?new) (rangePairs L ?old)) a)
        (removePairs L i (filter (\<lambda>p. p \<notin> set ?new) (rp ?old)) b)"
      by (rule twin_pairs(2)[OF _ d]) (simp add: twinAs_def t)
    fix a' b' assume t': "twinAs L (live L a) a' b'"
    show "both (twin L)
       (andThen (addPairs L i (filter (\<lambda>p. p \<notin> set ?old) (rangePairs L ?new)) a')
         (\<lambda>cs. Inr (cs\<lparr>dirtyEntities := AList.update ?x ?n (dirtyEntities cs)\<rparr>)))
       (andThen (addPairs L i (filter (\<lambda>p. p \<notin> set ?old) (rp ?new)) b')
         (\<lambda>cs. Inr (cs\<lparr>dirtyEntities := AList.update ?x ?n (dirtyEntities cs)\<rparr>)))"
      by (rule both_then[OF twin_pairs(1)[OF t' d]]) (intro both_intros twin_replace[OF _ x])
  qed
qed

lemma twin_processCreate:
  assumes kv: "kv_ok L" and ac: "account_ok L" and t: "twin L a b"
  shows "both (twin L) (processCreate L a op) (processCreate L b op)"
proof -
  let ?x = "addrOfKey (coEntityKey op)"
  obtain i sdb where c: "incrementEntityCount L (stateDB a) = (i, sdb)" by fastforce
  have e: "stateDB b = stateDB a" "blockNumber b = blockNumber a" using t by (simp_all add: twin_def)
  let ?s = "setIDSlot L (sdCreateAccount L sdb ?x) i ?x"
  have code: "sdGetCode L ?s y \<noteq> [] \<Longrightarrow> sdGetCode L (stateDB a) y \<noteq> []" for y
    using ac c by (auto simp: setIDSlot_def incrementEntityCount_def Let_def lib_simps split: if_splits)
  have st: "twin L (a\<lparr>stagingDB := st, stateDB := ?s, dirtyEntities := AList.update ?x f (dirtyEntities a)\<rparr>)
      (b\<lparr>stagingDB := st', stateDB := ?s, dirtyEntities := AList.update ?x f (dirtyEntities b)\<rparr>)"
    if "rdS L st = (rdS L (stagingDB a))(idKey i \<mapsto> v, addrKey ?x \<mapsto> w)"
      "rdS L st' = (rdS L (stagingDB b))(idKey i \<mapsto> v, addrKey ?x \<mapsto> w)" for st st' f v w
  proof -
    have cur: "curBm L (cs\<lparr>stagingDB := st, stateDB := ?s, dirtyEntities := x\<rparr>) = curBm L cs"
      if "rdS L st = (rdS L (stagingDB cs))(idKey i \<mapsto> v, addrKey ?x \<mapsto> w)" for cs st x
      using that by (simp add: fun_eq_iff curBm_def loaded_def annotKeyP_def split: option.split)
    have "sdGetCode L ?s y \<noteq> [] \<Longrightarrow> live L a y" for y using code[of y] by (simp add: live_def)
    with t show ?thesis unfolding twin_def cur[OF that(1)] cur[OF that(2)]
      by (auto simp: that live_def split: if_splits)
  qed
  show ?thesis
    unfolding processCreate_def e c Let_def prod.case
  proof (rule both_then[where R = "\<lambda>st st'. rdS L st = (rdS L (stagingDB a))(idKey i \<mapsto> addrBytes ?x) \<and>
      rdS L st' = (rdS L (stagingDB b))(idKey i \<mapsto> addrBytes ?x)"], goal_cases)
    case 1
    show ?case using stPut_rdS[OF kv] by (auto simp: both_def)
  next
    case (2 st st')
    show ?case
    proof (rule both_then[where R = "\<lambda>u u'. rdS L u = (rdS L st)(addrKey ?x \<mapsto> encodeUint64 i) \<and>
        rdS L u' = (rdS L st')(addrKey ?x \<mapsto> encodeUint64 i)"], goal_cases)
      case 1
      show ?case using stPut_rdS[OF kv] by (auto simp: both_def)
    next
      case (2 u u')
      with \<open>rdS L st = _ \<and> rdS L st' = _\<close> show ?case
        by (intro both_twinAs[OF twin_same_pairs(1)]) (simp add: twinAs_def st)
    qed
  qed
qed

text \<open>Every operation.\<close>

lemma twin_applyOp:
  assumes "lib_ok L" "range_ok (reorder rp ra L)" and t: "twin L a b"
  shows "both (twin L) (applyOp L a op) (applyOp (reorder rp ra L) b op)"
proof -
  have "kv_ok L" "account_ok L" "range_ok L" using assms(1) by blast+
  then show ?thesis
    using t twin_processCreate twin_processUpdate[OF _ assms(2)] twin_deleteEntity twin_processExtend twin_processTransfer
    by (auto simp: applyOp_def processDelete_def processExpire_def both_basic split: option.split)
qed

end
