(* ===== verification/Daemon.thy ===== *)
theory Daemon
  imports Chain_History
begin

text \<open>
  The service as a state machine: the daemon of \<open>cmd/arkiv-storaged/main.go\<close> opens the store, answers the requests
  of the chain ingest API and of the query API, and stops or crashes at any point. What survives is the
  database. Its specification is the canonical chain: a stack of blocks with the table after each, on which
  a commit pushes and a revert pops.
\<close>

section \<open>The daemon\<close>

text \<open>Up with the store that \<open>main\<close> opened, or down with what is on disk.\<close>

datatype 'db daemon = Up "'db Store" | Down 'db

text \<open>
  The requests of the two servers with their responses, and what can happen to the process. A crash during a
  request that writes blocks is \<open>CrashCommit\<close> or \<open>CrashReorg\<close> with the number of blocks that were committed
  before it; a block is one atomic batch, so there are no other points.
\<close>

datatype event = CommitReq "ArkivBlock list" "StateRootResponse res" | RevertReq "ArkivBlockRef list" "StateRootResponse res"
  | ReorgReq "ArkivBlockRef list" "ArkivBlock list" "StateRootResponse res"
  | QueryReq string "Options option" "QueryResponse res" | EntityReq address "Options option" "EntityData res"
  | CountReq "uint64 res"
  | CrashCommit "ArkivBlock list" nat | CrashReorg "ArkivBlockRef list" "ArkivBlock list" nat | Stop | Start

inductive daemon_step ::
    "webLib \<Rightarrow> (string \<Rightarrow> TopLevel res) \<Rightarrow> ('db, 'bm, 'sdb) lib \<Rightarrow> 'db daemon \<Rightarrow> event \<Rightarrow> 'db daemon \<Rightarrow> bool"
  for W P L where
  commit: "CommitChain L s \<lparr>ccBlocks = blocks\<rparr> = (r, s') \<Longrightarrow> daemon_step W P L (Up s) (CommitReq blocks r) (Up s')"
| revert: "Revert L s \<lparr>rvBlocks = refs\<rparr> = (r, s') \<Longrightarrow> daemon_step W P L (Up s) (RevertReq refs r) (Up s')"
| reorg: "ReorgChain L s \<lparr>rgRevertedBlocks = refs, rgNewBlocks = blocks\<rparr> = (r, s') \<Longrightarrow>
    daemon_step W P L (Up s) (ReorgReq refs blocks r) (Up s')"
| query: "daemon_step W P L (Up s) (QueryReq q opts (Query W P L (storeBackend L s) q opts)) (Up s)"
| entity: "daemon_step W P L (Up s) (EntityReq a opts (GetEntityByAddress W L (storeBackend L s) a opts)) (Up s)"
| count: "daemon_step W P L (Up s) (CountReq (GetEntityCount L (storeBackend L s))) (Up s)"
| crash_commit: "CommitChain L s \<lparr>ccBlocks = take k blocks\<rparr> = (Inr r, s') \<Longrightarrow>
    daemon_step W P L (Up s) (CrashCommit blocks k) (Down (rawDB s'))"
| crash_reorg: "ReorgChain L s \<lparr>rgRevertedBlocks = refs, rgNewBlocks = take k blocks\<rparr> = (Inr r, s') \<Longrightarrow>
    daemon_step W P L (Up s) (CrashReorg refs blocks k) (Down (rawDB s'))"
| stop: "daemon_step W P L (Up s) Stop (Down (rawDB s))"
| start: "daemon_step W P L (Down db) Start (Up (New L db))"

inductive_cases daemon_stepE:
  "daemon_step W P L d (QueryReq q opts r) d'" "daemon_step W P L d (EntityReq a opts r) d'"
  "daemon_step W P L d (CountReq r) d'" "daemon_step W P L d Start d'"
  "daemon_step W P L d (CrashCommit blocks k) d'" "daemon_step W P L d (CrashReorg refs blocks k) d'"

section \<open>The canonical chain\<close>

text \<open>A frame has the block, the table after it and the counter; the genesis block is not sent to the service.\<close>

record frame =
  frHash :: hash
  frNumber :: uint64
  frBlock :: "ArkivBlock option"
  frTable :: table
  frCount :: uint64

text \<open>Below the first block is the genesis block of the client, which the service is never told of but as a parent.\<close>

definition genesis :: "hash \<Rightarrow> frame" where
  "genesis h = \<lparr>frHash = h, frNumber = 0, frBlock = None, frTable = Map.empty, frCount = 0\<rparr>"

definition pushFrame :: "ArkivBlock \<Rightarrow> astate \<Rightarrow> frame" where
  "pushFrame block st =
     \<lparr>frHash = Hash (Header block), frNumber = Number (Header block), frBlock = Some block, frTable = fst st, frCount = snd st\<rparr>"

definition headState :: "frame list \<Rightarrow> astate" where
  "headState fs = (frTable (hd fs), frCount (hd fs))"

text \<open>Blocks are pushed up to the first that the specification rejects.\<close>

fun pushBlocks :: "('db, 'bm, 'sdb) lib \<Rightarrow> frame list \<Rightarrow> ArkivBlock list \<Rightarrow> frame list" where
  "pushBlocks L fs [] = fs"
| "pushBlocks L fs (block # blocks) =
     (case absBlock L block (headState fs) of
        Some st \<Rightarrow> pushBlocks L (pushFrame block st # fs) blocks | None \<Rightarrow> fs)"

fun absStep :: "('db, 'bm, 'sdb) lib \<Rightarrow> frame list \<Rightarrow> event \<Rightarrow> frame list" where
  "absStep L fs (CommitReq blocks r) = pushBlocks L fs blocks"
| "absStep L fs (RevertReq refs r) = drop (length refs) fs"
| "absStep L fs (ReorgReq refs blocks r) = pushBlocks L (drop (length refs) fs) blocks"
| "absStep L fs (CrashCommit blocks k) = pushBlocks L fs (take k blocks)"
| "absStep L fs (CrashReorg refs blocks k) = pushBlocks L (drop (length refs) fs) (take k blocks)"
| "absStep L fs _ = fs"

section \<open>The client\<close>

text \<open>
  The execution client extends the head with blocks of fresh hashes and the next number, and reverts blocks from
  the head down. \<open>ids_current\<close> asks of the ancestor that none of its entities was lost from the number index.
\<close>

definition child_ok :: "frame list \<Rightarrow> ArkivBlock \<Rightarrow> bool" where
  "child_ok fs block \<longleftrightarrow> ParentHash (Header block) = frHash (hd fs) \<and> Hash (Header block) \<notin> frHash ` set fs \<and>
     Number (Header block) = frNumber (hd fs) + 1 \<and> Number (Header block) \<noteq> 0"

fun feed_ok :: "('db, 'bm, 'sdb) lib \<Rightarrow> annotPair set \<Rightarrow> bytes set \<Rightarrow> 'db Store \<Rightarrow> frame list \<Rightarrow> ArkivBlock list \<Rightarrow> bool" where
  "feed_ok L U H s fs [] = True"
| "feed_ok L U H s fs (block # blocks) \<longleftrightarrow>
     child_ok fs block \<and> block_ok L U block (headState fs) \<and> blobs_in L H s block \<and>
     (case absBlock L block (headState fs) of None \<Rightarrow> True
      | Some st \<Rightarrow> (case processBlock L s block of Inl _ \<Rightarrow> True
        | Inr (root, s') \<Rightarrow> feed_ok L U H s' (pushFrame block st # fs) blocks))"

definition frameRef :: "frame \<Rightarrow> ArkivBlockRef" where
  "frameRef f = \<lparr>refNumber = frNumber f, refHash = frHash f\<rparr>"

definition refs_ok :: "('db, 'bm, 'sdb) lib \<Rightarrow> 'db Store \<Rightarrow> frame list \<Rightarrow> ArkivBlockRef list \<Rightarrow> bool" where
  "refs_ok L s fs refs \<longleftrightarrow> length refs < length fs \<and> refs = map frameRef (take (length refs) fs) \<and>
     ids_current (rd L (rawDB s)) (frTable (fs ! length refs))"

definition afterRevert :: "('db, 'bm, 'sdb) lib \<Rightarrow> 'db Store \<Rightarrow> ArkivBlockRef list \<Rightarrow> 'db Store" where
  "afterRevert L s refs = snd (RevertBlocks L s refs)"

fun client_ok ::
    "('db, 'bm, 'sdb) lib \<Rightarrow> annotPair set \<Rightarrow> bytes set \<Rightarrow> 'db daemon \<Rightarrow> frame list \<Rightarrow> event \<Rightarrow> bool" where
  "client_ok L U H (Up s) fs (CommitReq blocks r) \<longleftrightarrow> feed_ok L U H s fs blocks"
| "client_ok L U H (Up s) fs (RevertReq refs r) \<longleftrightarrow> refs_ok L s fs refs"
| "client_ok L U H (Up s) fs (ReorgReq refs blocks r) \<longleftrightarrow>
     refs_ok L s fs refs \<and> feed_ok L U H (afterRevert L s refs) (drop (length refs) fs) blocks"
| "client_ok L U H (Up s) fs (CrashCommit blocks k) \<longleftrightarrow> feed_ok L U H s fs blocks"
| "client_ok L U H (Up s) fs (CrashReorg refs blocks k) \<longleftrightarrow>
     refs_ok L s fs refs \<and> feed_ok L U H (afterRevert L s refs) (drop (length refs) fs) blocks"
| "client_ok L U H d fs ev \<longleftrightarrow> True"

section \<open>The representation of a chain\<close>

definition frame_ok :: "('db, 'bm, 'sdb) lib \<Rightarrow> annotPair set \<Rightarrow> (bytes \<rightharpoonup> bytes) \<Rightarrow> frame \<Rightarrow> bool" where
  "frame_ok L U g f \<longleftrightarrow> root_ok L U g (ancestorRootOf L g (frHash f)) (frTable f) (frCount f)"

definition linked :: "(bytes \<rightharpoonup> bytes) \<Rightarrow> frame \<Rightarrow> frame \<Rightarrow> bool" where
  "linked g f p \<longleftrightarrow> g (parentKey (frHash f)) = Some (hashBytes (frHash p)) \<and>
     g (blockNumberKey (frNumber f)) = Some (hashBytes (frHash f)) \<and> g (rootKey (frHash f)) \<noteq> None \<and>
     frNumber f = frNumber p + 1 \<and> frNumber f \<noteq> 0"

fun chained :: "(bytes \<rightharpoonup> bytes) \<Rightarrow> frame list \<Rightarrow> bool" where
  "chained g [] \<longleftrightarrow> False"
| "chained g [f] \<longleftrightarrow> True"
| "chained g (f # p # fs) \<longleftrightarrow> linked g f p \<and> chained g (p # fs)"

text \<open>
  A state root of a chain: that of the empty state for the genesis block, and for a block what processing it gives
  on any store that represents the rest of the chain with a root of it.
\<close>

inductive chain_root ::
    "('db, 'bm, 'sdb) lib \<Rightarrow> annotPair set \<Rightarrow> bytes set \<Rightarrow> frame list \<Rightarrow> hash \<Rightarrow> bool" for L U H where
  genesis_root: "frBlock f = None \<Longrightarrow> chain_root L U H [f] (EmptyRootHash L)"
| block_root: "chain_root L U H fs (headRoot s) \<Longrightarrow> store_inv L U H s (frTable (hd fs)) (frCount (hd fs)) \<Longrightarrow>
    frBlock f = Some block \<Longrightarrow> block_ok L U block (headState fs) \<Longrightarrow> processBlock L s block = Inr (root, s') \<Longrightarrow>
    chain_root L U H (f # fs) root"

text \<open>The roots on record are roots of their chains.\<close>

fun rooted ::
    "('db, 'bm, 'sdb) lib \<Rightarrow> annotPair set \<Rightarrow> bytes set \<Rightarrow> (bytes \<rightharpoonup> bytes) \<Rightarrow> frame list \<Rightarrow> bool" where
  "rooted L U H g [] \<longleftrightarrow> True"
| "rooted L U H g (f # fs) \<longleftrightarrow> chain_root L U H (f # fs) (ancestorRootOf L g (frHash f)) \<and> rooted L U H g fs"

lemma rooted_cong:
  "(\<And>f. f \<in> set fs \<Longrightarrow> ancestorRootOf L g' (frHash f) = ancestorRootOf L g (frHash f)) \<Longrightarrow>
    rooted L U H g' fs = rooted L U H g fs"
  by (induction fs) auto

lemma rooted_drop: "rooted L U H g fs \<Longrightarrow> rooted L U H g (drop k fs)"
proof (induction fs arbitrary: k)
  case (Cons f fs)
  then show ?case by (cases k) auto
qed simp

definition chain_inv ::
    "('db, 'bm, 'sdb) lib \<Rightarrow> annotPair set \<Rightarrow> bytes set \<Rightarrow> 'db Store \<Rightarrow> frame list \<Rightarrow> bool" where
  "chain_inv L U H s fs \<longleftrightarrow> chained (rd L (rawDB s)) fs \<and> distinct (map frHash fs) \<and>
     (\<forall>f \<in> set fs. frame_ok L U (rd L (rawDB s)) f) \<and>
     store_inv L U H s (frTable (hd fs)) (frCount (hd fs)) \<and> New L (rawDB s) = s \<and>
     (tl fs \<noteq> [] \<longrightarrow> HeadHash s = frHash (hd fs)) \<and> HeadNumber s = frNumber (hd fs) \<and> head_indexed L s \<and> frNumber (last fs) = 0 \<and>
     rooted L U H (rd L (rawDB s)) fs \<and> headRoot s = ancestorRootOf L (rd L (rawDB s)) (frHash (hd fs))"

text \<open>The numbers decrease from the head down.\<close>

lemma chained_numbers:
  "chained g (f # fs) \<Longrightarrow> p \<in> set fs \<Longrightarrow> frNumber p < frNumber f"
proof (induction fs arbitrary: f)
  case (Cons q fs)
  have "frNumber q < frNumber f"
    using Cons.prems(1) word_less_plus_1[of "frNumber q"] by (auto simp: linked_def)
  moreover have "frNumber p < frNumber q" if "p \<in> set fs" using Cons that by simp
  ultimately show ?case using Cons.prems(2) by (auto intro: less_trans)
qed simp

lemma chained_sorted: "chained g fs \<Longrightarrow> sorted_wrt (\<lambda>f p. frNumber p < frNumber f) fs"
proof (induction fs)
  case (Cons f fs)
  then have "chained g fs \<or> fs = []" by (cases fs) auto
  with Cons chained_numbers[of g f fs] show ?case by auto
qed simp

lemma chained_cong:
  assumes "\<And>f. f \<in> set fs \<Longrightarrow> g' (parentKey (frHash f)) = g (parentKey (frHash f)) \<and>
    g' (rootKey (frHash f)) = g (rootKey (frHash f)) \<and> g' (blockNumberKey (frNumber f)) = g (blockNumberKey (frNumber f))"
  shows "chained g' fs = chained g fs"
  using assms by (induction g fs rule: chained.induct) (auto simp: linked_def)

lemma chained_linked: "chained g fs \<Longrightarrow> f \<in> set fs \<Longrightarrow> f = last fs \<or> (\<exists>p. linked g f p)"
  by (induction g fs rule: chained.induct) auto

lemma chained_drop: "chained g fs \<Longrightarrow> k < length fs \<Longrightarrow> chained g (drop k fs)"
proof (induction k arbitrary: fs)
  case (Suc k)
  then obtain f p fs' where "fs = f # p # fs'" by (metis chained.simps(2) drop_Suc length_Suc_conv list.exhaust Suc_less_eq less_nat_zero_code list.size(3))
  with Suc show ?case by simp
qed simp

section \<open>Committing\<close>

lemma processBlock_chain:
  assumes ok: "lib_ok L" and h: "hash_ok L U H" and inv: "chain_inv L U H s fs" and c: "child_ok fs block"
    and b: "block_ok L U block (headState fs)" and bl: "blobs_in L H s block"
    and a: "absBlock L block (headState fs) = Some st" and r: "processBlock L s block = Inr (root, s')"
  shows "chain_inv L U H s' (pushFrame block st # fs)"
proof -
  let ?g = "rd L (rawDB s)" and ?g' = "rd L (rawDB s')" and ?f = "pushFrame block st"
  have I: "chained ?g fs" "distinct (map frHash fs)" "\<forall>f \<in> set fs. frame_ok L U ?g f"
    "store_inv L U H s (frTable (hd fs)) (frCount (hd fs))"
    using inv by (auto simp: chain_inv_def)
  obtain p ps where fs: "fs = p # ps" using I(1) by (cases fs) auto
  obtain T' n' where st: "st = (T', n')" by (cases st)
  note pre = ok h I(4) b[unfolded headState_def] a[unfolded headState_def st] bl r
  note C = processBlock_commits[OF pre]
  have w: "?g' (parentKey x) = blockWrites (Number (Header block)) (Hash (Header block)) (ParentHash (Header block)) root ?g (parentKey x)"
    "?g' (rootKey x) = blockWrites (Number (Header block)) (Hash (Header block)) (ParentHash (Header block)) root ?g (rootKey x)"
    "?g' (blockNumberKey m) = blockWrites (Number (Header block)) (Hash (Header block)) (ParentHash (Header block)) root ?g (blockNumberKey m)"
    for x m by (rule C(7); simp)+
  have num: "frNumber f < Number (Header block)" if "f \<in> set fs" for f
  proof -
    have "frNumber p < Number (Header block)"
      using c word_less_plus_1[of "frNumber p"] by (auto simp: child_ok_def fs)
    then show ?thesis using chained_numbers[of ?g p ps f] I(1) that by (auto simp: fs)
  qed
  have old: "?g' (parentKey (frHash f)) = ?g (parentKey (frHash f)) \<and> ?g' (rootKey (frHash f)) = ?g (rootKey (frHash f)) \<and>
      ?g' (blockNumberKey (frNumber f)) = ?g (blockNumberKey (frNumber f))" if "f \<in> set fs" for f
  proof -
    have "frHash f \<noteq> Hash (Header block)" using c that by (force simp: child_ok_def)
    moreover have "frNumber f \<noteq> Number (Header block)" using num[OF that] by simp
    ultimately show ?thesis by (simp add: w blockWrites_def)
  qed
  have "frame_ok L U ?g' f" if "f \<in> set fs" for f
  proof -
    have "frame_ok L U ?g f" using I(3) that by blast
    from root_ok_mono[OF ok this[unfolded frame_ok_def] processBlock_histLe[OF pre]] old[OF that]
    show ?thesis by (simp add: frame_ok_def ancestorRootOf_def)
  qed
  moreover have "frame_ok L U ?g' ?f"
    using store_inv_root_ok[OF C(1)] by (simp add: frame_ok_def pushFrame_def ancestorRootOf_def w blockWrites_def C(3) st)
  moreover have "linked ?g' ?f p"
    using c by (auto simp: linked_def pushFrame_def w blockWrites_def child_ok_def fs)
  moreover have "chained ?g' fs" using chained_cong[of fs ?g' ?g] old I(1) by blast
  moreover have "frHash ?f \<notin> frHash ` set fs" using c by (simp add: child_ok_def pushFrame_def)
  moreover have "New L (rawDB s') = s'" by (rule New_restores[OF C(2)])
  moreover have "head_indexed L s'" by (rule processBlock_indexed[OF pre])
  moreover have root: "ancestorRootOf L ?g' (frHash ?f) = root" "headRoot s' = root"
    using C(3) by (simp_all add: pushFrame_def ancestorRootOf_def w blockWrites_def)
  moreover have "rooted L U H ?g' fs"
    using rooted_cong[of fs L ?g' ?g U H] old inv by (simp add: ancestorRootOf_def chain_inv_def)
  moreover have "chain_root L U H (?f # fs) root"
  proof (rule chain_root.block_root[OF _ I(4) _ b r])
    show "chain_root L U H fs (headRoot s)" using inv by (simp add: chain_inv_def fs)
  qed (simp add: pushFrame_def)
  ultimately show ?thesis
    using C(1,4,5) I(2) inv by (auto simp: chain_inv_def fs pushFrame_def st HeadHash_def HeadNumber_def)
qed

lemma feed_chain:
  assumes ok: "lib_ok L" and io: "io_ok L" and h: "hash_ok L U H"
  shows "chain_inv L U H s fs \<Longrightarrow> feed_ok L U H s fs blocks \<Longrightarrow>
    chain_inv L U H (snd (commitBlocks L s root blocks)) (pushBlocks L fs blocks)"
proof (induction blocks arbitrary: s fs root)
  case (Cons block blocks)
  have f: "child_ok fs block" "block_ok L U block (headState fs)" "blobs_in L H s block" using Cons.prems(2) by simp_all
  have inv: "store_inv L U H s (frTable (hd fs)) (frCount (hd fs))" using Cons.prems(1) by (simp add: chain_inv_def)
  show ?case
  proof (cases "absBlock L block (headState fs)")
    case None
    obtain e where "processBlock L s block = Inl e"
      using processBlock_error[OF ok h inv] f(2) None by (auto simp: headState_def)
    then show ?thesis using None Cons.prems(1) by (simp add: ProcessBlock_def)
  next
    case (Some st)
    obtain root' s1 where p: "processBlock L s block = Inr (root', s1)"
      using processBlock_returns[OF ok io h inv f(2)[unfolded headState_def] _ f(3)] Some
      by (cases st) (auto simp: headState_def)
    have "chain_inv L U H s1 (pushFrame block st # fs)"
      by (rule processBlock_chain[OF ok h Cons.prems(1) f(1,2,3) Some p])
    from Cons.IH[OF this, of root'] Cons.prems(2) show ?thesis by (simp add: Some p ProcessBlock_def)
  qed
qed simp

lemma feed_ok_take: "feed_ok L U H s fs blocks \<Longrightarrow> feed_ok L U H s fs (take k blocks)"
proof (induction k arbitrary: s fs blocks)
  case (Suc k)
  then show ?case by (cases blocks) (auto split: option.splits sum.splits)
qed simp

lemma reorgApply_store: "snd (reorgApply L s blocks) = snd (commitBlocks L s root blocks)"
  by (induction blocks arbitrary: s root) (auto simp: ProcessBlock_def split: sum.splits)

section \<open>Reverting\<close>

lemma revert_chain:
  assumes ok: "lib_ok L" and io: "io_ok L" and h: "hash_ok L U H" and inv: "chain_inv L U H s fs"
    and refs: "refs_ok L s fs refs"
  shows "\<exists>r. RevertBlocks L s refs = (Inr r, afterRevert L s refs)"
    "chain_inv L U H (afterRevert L s refs) (drop (length refs) fs)"
proof -
  let ?g = "rd L (rawDB s)" and ?k = "length refs" and ?s = "afterRevert L s refs"
  let ?f = "fs ! ?k" and ?fs = "drop ?k fs" and ?g' = "rd L (rawDB (afterRevert L s refs))"
  have I: "chained ?g fs" "distinct (map frHash fs)" "\<forall>f \<in> set fs. frame_ok L U ?g f"
    "store_inv L U H s (frTable (hd fs)) (frCount (hd fs))" "head_indexed L s"
    using inv by (auto simp: chain_inv_def)
  have R: "?k < length fs" "refs = map frameRef (take ?k fs)" "ids_current ?g (frTable ?f)"
    using refs by (auto simp: refs_ok_def)
  have "(\<exists>r. RevertBlocks L s refs = (Inr r, ?s)) \<and> chain_inv L U H ?s ?fs"
  proof (cases "refs = []")
    case True
    then show ?thesis using inv by (simp add: afterRevert_def RevertBlocks_def)
  next
    case False
    then have k0: "0 < ?k" "?k - 1 < length fs" using R(1) by (simp_all add: length_greater_0_conv)
    obtain c where c: "c = fs ! (?k - 1)" by blast
    have split: "drop (?k - 1) fs = c # ?f # drop (Suc ?k) fs"
      using Cons_nth_drop_Suc[OF k0(2)] Cons_nth_drop_Suc[OF R(1)] k0(1) by (simp add: c)
    have link: "linked ?g c ?f" using chained_drop[OF I(1) k0(2)] split by simp
    have last: "last refs = frameRef c"
    proof -
      have "last refs = map frameRef (take ?k fs) ! (?k - 1)"
        using False by (subst R(2)[symmetric]) (simp add: last_conv_nth)
      also have "\<dots> = frameRef c" using R(1) k0 by (simp add: c)
      finally show ?thesis .
    qed
    have anc: "root_ok L U ?g (ancestorRootOf L ?g (frHash ?f)) (frTable ?f) (frCount ?f)"
      using I(3) R(1) by (simp add: frame_ok_def)
    have par: "?g (parentKey (refHash (last refs))) = Some (hashBytes (frHash ?f))"
      using link by (simp add: last frameRef_def linked_def)
    obtain s' where s': "revertToAncestor L s refs = Inr s'"
      using revert_returns[OF ok io par False] anc by (simp only: BytesToHash_hashBytes) blast
    have s: "?s = s'" using False s' by (simp add: afterRevert_def RevertBlocks_def)
    note hd = revert_head[OF ok h I(4) s'] note keep = revert_keeps_chain[OF ok h I(4) s']
    have "headRoot s' = ancestorRootOf L ?g (frHash ?f) \<and> headHash s' = frHash ?f"
    proof (cases rule: revertToAncestor_view[OF lib_okD(1)[OF ok] s'])
      case (1 pb sdb ops)
      have "pb = hashBytes (frHash ?f)" using 1(2) par by simp
      then show ?thesis using 1(5,6) by (simp only: BytesToHash_hashBytes)
    qed
    then have root: "headRoot s' = ancestorRootOf L ?g (frHash ?f)" and hash: "headHash s' = frHash ?f" by blast+
    have fs: "fs = take ?k fs @ ?fs" by simp
    have below: "frHash f \<notin> frHash ` set (take ?k fs) \<and> frNumber f \<notin> frNumber ` set (take ?k fs)" if "f \<in> set ?fs" for f
    proof -
      have "distinct (map frHash (take ?k fs @ ?fs))" "sorted_wrt (\<lambda>f p. frNumber p < frNumber f) (take ?k fs @ ?fs)"
        using I(2) chained_sorted[OF I(1)] by simp_all
      then show ?thesis using that unfolding map_append distinct_append sorted_wrt_append by force
    qed
    have refs_in: "ref \<in> frameRef ` set (take ?k fs)" if "ref \<in> set refs" for ref
      using that R(2) by (metis set_map)
    have old: "?g' (parentKey (frHash f)) = ?g (parentKey (frHash f)) \<and> ?g' (rootKey (frHash f)) = ?g (rootKey (frHash f)) \<and>
      ?g' (blockNumberKey (frNumber f)) = ?g (blockNumberKey (frNumber f))" if f: "f \<in> set ?fs" for f
    proof -
      have "parentKey (frHash f) \<notin> opKey ` set (deleteRef ref) \<and> rootKey (frHash f) \<notin> opKey ` set (deleteRef ref) \<and>
          blockNumberKey (frNumber f) \<notin> opKey ` set (deleteRef ref)" if "ref \<in> set refs" for ref
        using below[OF f] refs_in[OF that] by (auto simp: deleteRef_def frameRef_def)
      then show ?thesis unfolding s by (intro conjI keep) auto
    qed
    have anc': "ancestorRootOf L ?g' (frHash f) = ancestorRootOf L ?g (frHash f)" if "f \<in> set ?fs" for f
      using old[OF that] by (simp add: ancestorRootOf_def)
    have hdf: "List.hd ?fs = ?f" using R(1) by (simp add: hd_drop_conv_nth)
    then have inf: "?f \<in> set ?fs" using R(1) by (metis drop_eq_Nil2 hd_in_set leD)
    have "frame_ok L U ?g' f" if "f \<in> set ?fs" for f
    proof -
      have "frame_ok L U ?g f" using I(3) that by (meson in_set_dropD)
      from root_ok_mono[OF ok this[unfolded frame_ok_def] hd(5)] show ?thesis
        by (simp add: frame_ok_def anc'[OF that, unfolded s] s)
    qed
    moreover have "chained ?g' ?fs" using chained_cong[of ?fs ?g' ?g] old chained_drop[OF I(1) R(1)] by blast
    moreover have "store_inv L U H s' (frTable ?f) (frCount ?f)"
      by (rule revert_restores[OF ok h I(4) s' _ R(3)]) (simp only: root anc)
    moreover have "New L (rawDB s') = s'" by (rule New_restores[OF hd(1)])
    moreover have "headNumber s' = frNumber ?f"
      using hd(2) link by (auto simp: last frameRef_def parentNumber_def linked_def word_gt_0)
    moreover have "head_indexed L s'"
      using root anc'[OF inf] by (simp add: head_indexed_def hash s)
    moreover have "distinct (map frHash ?fs)" using I(2) by (metis distinct_drop drop_map)
    moreover have "rooted L U H ?g ?fs" by (rule rooted_drop) (use inv in \<open>simp add: chain_inv_def\<close>)
    then have "rooted L U H ?g' ?fs" using rooted_cong[of ?fs L ?g' ?g U H] anc' by blast
    moreover have "headRoot s' = ancestorRootOf L ?g' (frHash ?f)" using root anc'[OF inf] by simp
    ultimately have "chain_inv L U H s' ?fs"
      using inv R(1) unfolding chain_inv_def HeadHash_def HeadNumber_def hdf by (simp add: hash s)
    moreover have "\<exists>r. RevertBlocks L s refs = (Inr r, s')" using False s' by (simp add: RevertBlocks_def)
    ultimately show ?thesis by (simp add: s)
  qed
  then show "\<exists>r. RevertBlocks L s refs = (Inr r, ?s)" "chain_inv L U H ?s ?fs" by blast+
qed

section \<open>Every reachable state represents the canonical chain\<close>

text \<open>A daemon that is down represents what it would represent when it is started.\<close>

fun daemon_inv ::
    "('db, 'bm, 'sdb) lib \<Rightarrow> annotPair set \<Rightarrow> bytes set \<Rightarrow> 'db daemon \<Rightarrow> frame list \<Rightarrow> bool" where
  "daemon_inv L U H (Up s) fs \<longleftrightarrow> chain_inv L U H s fs"
| "daemon_inv L U H (Down db) fs \<longleftrightarrow> chain_inv L U H (New L db) fs"

lemma reorg_store:
  assumes "refs_ok L s fs refs" "\<exists>r. RevertBlocks L s refs = (Inr r, afterRevert L s refs)"
  shows "snd (ReorgChain L s \<lparr>rgRevertedBlocks = refs, rgNewBlocks = blocks\<rparr>) =
    snd (commitBlocks L (afterRevert L s refs) 0 blocks)"
  using assms
  by (auto simp: ReorgChain_def Reorg_def afterRevert_def RevertBlocks_def reorgApply_store[of L _ _ 0] case_prod_beta
      split: if_splits sum.splits)

lemma daemon_step_inv:
  assumes ok: "lib_ok L" and io: "io_ok L" and h: "hash_ok L U H"
  shows "daemon_step W P L d ev d' \<Longrightarrow> daemon_inv L U H d fs \<Longrightarrow> client_ok L U H d fs ev \<Longrightarrow>
    daemon_inv L U H d' (absStep L fs ev)"
proof (induction rule: daemon_step.induct)
  case (commit s blocks r s')
  then show ?case
    using feed_chain[OF ok io h, of s fs blocks 0] by (auto simp: CommitChain_def split: prod.splits)
next
  case (revert s refs r s')
  then have "s' = afterRevert L s refs" by (auto simp: Revert_def afterRevert_def split: prod.splits)
  with revert show ?case using revert_chain(2)[OF ok io h, of s fs refs] by simp
next
  case (reorg s refs blocks r s')
  then have c: "chain_inv L U H s fs" "refs_ok L s fs refs"
    "feed_ok L U H (afterRevert L s refs) (drop (length refs) fs) blocks" by simp_all
  note rv = revert_chain[OF ok io h c(1,2)]
  have "s' = snd (commitBlocks L (afterRevert L s refs) 0 blocks)"
    using reorg_store[OF c(2) rv(1), of blocks] reorg(1) by simp
  then show ?case using feed_chain[OF ok io h rv(2) c(3)] by simp
next
  case (crash_commit s k blocks r s')
  then have "chain_inv L U H s' (pushBlocks L fs (take k blocks))"
    using feed_chain[OF ok io h, of s fs "take k blocks" 0] feed_ok_take[of L U H s fs blocks k]
    by (auto simp: CommitChain_def split: prod.splits)
  then show ?case by (simp add: chain_inv_def)
next
  case (crash_reorg s refs k blocks r s')
  then have c: "chain_inv L U H s fs" "refs_ok L s fs refs"
    "feed_ok L U H (afterRevert L s refs) (drop (length refs) fs) (take k blocks)" by (simp_all add: feed_ok_take)
  note rv = revert_chain[OF ok io h c(1,2)]
  have "s' = snd (commitBlocks L (afterRevert L s refs) 0 (take k blocks))"
    using reorg_store[OF c(2) rv(1), of "take k blocks"] crash_reorg(1) by simp
  then have "chain_inv L U H s' (pushBlocks L (drop (length refs) fs) (take k blocks))"
    using feed_chain[OF ok io h rv(2) c(3)] by simp
  then show ?case by (simp add: chain_inv_def)
next
  case (stop s)
  then show ?case by (simp add: chain_inv_def)
qed simp_all

inductive reachable ::
    "webLib \<Rightarrow> (string \<Rightarrow> TopLevel res) \<Rightarrow> ('db, 'bm, 'sdb) lib \<Rightarrow> annotPair set \<Rightarrow> bytes set \<Rightarrow>
      'db daemon \<Rightarrow> frame list \<Rightarrow> bool" for W P L U H where
  empty: "rd L db = Map.empty \<Longrightarrow> reachable W P L U H (Down db) [genesis h]"
| step: "reachable W P L U H d fs \<Longrightarrow> daemon_step W P L d ev d' \<Longrightarrow> client_ok L U H d fs ev \<Longrightarrow>
    reachable W P L U H d' (absStep L fs ev)"

lemma New_empty_chain:
  assumes ok: "lib_ok L" and db: "rd L db = Map.empty"
  shows "chain_inv L U H (New L db) [genesis h]"
proof -
  obtain er where "dbGet L db headKey = Inl er"
    using fun_cong[OF db, of headKey] by (auto simp: rd_def okOption_eq_None)
  then have n: "New L db = \<lparr>rawDB = db, headRoot = EmptyRootHash L, headHash = 0, headNumber = 0\<rparr>"
    by (simp add: New_def)
  have inv: "store_inv L U H (New L db) Map.empty 0" by (rule New_empty[OF ok db])
  have ix: "head_indexed L (New L db)" by (rule head_indexed_New[OF db])
  have "frame_ok L U (rd L db) (genesis h)"
    using store_inv_root_ok[OF inv] by (simp add: frame_ok_def genesis_def ancestorRootOf_def n db)
  moreover have "chain_root L U H [genesis h] (EmptyRootHash L)" by (rule chain_root.genesis_root) (simp add: genesis_def)
  ultimately show ?thesis
    using inv ix by (simp add: chain_inv_def genesis_def n HeadHash_def HeadNumber_def ancestorRootOf_def db)
qed

lemma reachable_inv:
  assumes "lib_ok L" "io_ok L" "hash_ok L U H"
  shows "reachable W P L U H d fs \<Longrightarrow> daemon_inv L U H d fs"
proof (induction rule: reachable.induct)
  case (empty db)
  then show ?case using New_empty_chain[OF assms(1)] by simp
next
  case (step d fs ev d')
  then show ?case using daemon_step_inv[OF assms] by blast
qed

section \<open>Crashes\<close>

lemma commitBlocks_append:
  "commitBlocks L s root xs = (Inr r, s') \<Longrightarrow> commitBlocks L s root (xs @ ys) = commitBlocks L s' r ys"
proof (induction xs arbitrary: s root)
  case (Cons x xs)
  then show ?case by (cases "ProcessBlock L s x") (auto split: sum.splits)
qed simp

lemma commitBlocks_store: "snd (commitBlocks L s root blocks) = snd (commitBlocks L s root' blocks)"
  by (cases blocks) simp_all

lemma CommitChain_store: "snd (CommitChain L s \<lparr>ccBlocks = blocks\<rparr>) = snd (commitBlocks L s root blocks)"
  using commitBlocks_store[of L s 0 blocks root] by (simp add: CommitChain_def case_prod_beta)

text \<open>After a crash the blocks that are left, sent again, lead to the store of the request that was cut short.\<close>

lemma resume_commit:
  assumes "CommitChain L s \<lparr>ccBlocks = take k blocks\<rparr> = (Inr r, s')"
  shows "snd (CommitChain L s' \<lparr>ccBlocks = drop k blocks\<rparr>) = snd (CommitChain L s \<lparr>ccBlocks = blocks\<rparr>)"
proof -
  obtain root where "commitBlocks L s 0 (take k blocks) = (Inr root, s')"
    using assms by (auto simp: CommitChain_def response_def andThen_eq_Inr split: prod.splits)
  from commitBlocks_append[OF this, of "drop k blocks"] show ?thesis
    by (simp add: CommitChain_store[of L s' _ root] CommitChain_store[of L s _ 0])
qed

lemma reorgApply_append:
  "reorgApply L s xs = (Inr r, s') \<Longrightarrow> snd (reorgApply L s (xs @ ys)) = snd (reorgApply L s' ys)"
  by (induction xs arbitrary: s) (auto split: sum.splits)

lemma resume_reorg:
  assumes "ReorgChain L s \<lparr>rgRevertedBlocks = refs, rgNewBlocks = take k blocks\<rparr> = (Inr r, s')"
  shows "snd (CommitChain L s' \<lparr>ccBlocks = drop k blocks\<rparr>) =
    snd (ReorgChain L s \<lparr>rgRevertedBlocks = refs, rgNewBlocks = blocks\<rparr>)"
proof -
  have "\<exists>root. Reorg L s refs (take k blocks) = (Inr root, s')"
    using assms by (auto simp: ReorgChain_def response_def andThen_eq_Inr split: prod.splits)
  then obtain root s0 where s0: "refs = [] \<and> s0 = s \<or> refs \<noteq> [] \<and> revertToAncestor L s refs = Inr s0"
    "reorgApply L s0 (take k blocks) = (Inr root, s')"
    by (auto simp: Reorg_def split: if_splits sum.splits)
  have "snd (ReorgChain L s \<lparr>rgRevertedBlocks = refs, rgNewBlocks = blocks\<rparr>) = snd (reorgApply L s0 blocks)"
    using s0(1) by (auto simp: ReorgChain_def Reorg_def case_prod_beta)
  then show ?thesis
    using reorgApply_append[OF s0(2), of "drop k blocks"]
    by (simp add: CommitChain_store[of L s' _ 0] reorgApply_store[of L _ _ 0])
qed

text \<open>Every block of the canonical chain can be read under its number.\<close>

lemma chain_inv_readable:
  assumes ok: "lib_ok L" and all: "pair ''$all'' ''true'' \<in> U" and inv: "chain_inv L U H s fs"
    and f: "f \<in> set fs" "frNumber f \<noteq> 0"
  shows "blockRep L U s (frNumber f) (frTable f)"
proof -
  let ?g = "rd L (rawDB s)"
  have "f \<noteq> last fs" using inv f(2) by (auto simp: chain_inv_def)
  then obtain p where "linked ?g f p" using inv f(1) chained_linked[of ?g fs f] by (auto simp: chain_inv_def)
  then obtain rb where r: "?g (blockNumberKey (frNumber f)) = Some (hashBytes (frHash f))" "?g (rootKey (frHash f)) = Some rb"
    by (auto simp: linked_def)
  then have "rootAt L s (frNumber f) (ancestorRootOf L ?g (frHash f))"
    using f(2) by (simp add: rootAt_def ancestorRootOf_def)
  moreover have "root_ok L U ?g (ancestorRootOf L ?g (frHash f)) (frTable f) (frCount f)"
    using inv f(1) by (simp add: chain_inv_def frame_ok_def)
  ultimately show ?thesis using ok all by (auto simp: blockRep_def)
qed

end
