(* ===== verification/State_Root.thy ===== *)
theory State_Root
  imports Twin_Runs Daemon
begin

text \<open>
  What the state root depends on: the state of the parent's root and the block, and neither the rest of the
  database nor the order in which Go ranges over a map.
\<close>

section \<open>Laws of the state\<close>

text \<open>
  Writes to different slots, and of the code of different accounts, commute. What a root opens in a
  content-addressed database is determined by the root.
\<close>

definition writes_commute :: "('db, 'bm, 'sdb) lib \<Rightarrow> bool" where
  "writes_commute L \<longleftrightarrow>
     (\<forall>s a k v b l w. (a, k) \<noteq> (b, l) \<longrightarrow> sdSetState L (sdSetState L s a k v) b l w = sdSetState L (sdSetState L s b l w) a k v) \<and>
     (\<forall>s a c b d. a \<noteq> b \<longrightarrow> sdSetCode L (sdSetCode L s a c) b d = sdSetCode L (sdSetCode L s b d) a c)"

definition opens_unique :: "('db, 'bm, 'sdb) lib \<Rightarrow> bytes set \<Rightarrow> bool" where
  "opens_unique L H \<longleftrightarrow> (\<forall>g g' r s s'. nodes_ok L H g \<longrightarrow> nodes_ok L H g' \<longrightarrow>
     stateNew L g r = Inr s \<longrightarrow> stateNew L g' r = Inr s' \<longrightarrow> s' = s)"

section \<open>The state that is committed\<close>

definition entStep :: "('db, 'bm, 'sdb) lib \<Rightarrow> (address \<rightharpoonup> Entity) \<Rightarrow> address \<Rightarrow> 'sdb \<Rightarrow> 'sdb" where
  "entStep L m a s = (case m a of None \<Rightarrow> s
     | Some e \<Rightarrow> (case rlpEncode L e of Inl _ \<Rightarrow> s | Inr data \<Rightarrow> sdSetCode L s a data))"

definition bmStep :: "('db, 'bm, 'sdb) lib \<Rightarrow> (annotPair \<rightharpoonup> 'bm) \<Rightarrow> annotPair \<Rightarrow> 'sdb \<Rightarrow> 'sdb" where
  "bmStep L m p s = (case m p of None \<Rightarrow> s
     | Some bm \<Rightarrow> (case bmMarshal L bm of Inl _ \<Rightarrow> s
        | Inr bs \<Rightarrow> setAnnotSlot L s (apKey p) (apVal p) (Keccak256Hash L bs)))"

definition flushed :: "('db, 'bm, 'sdb) lib \<Rightarrow> ('db, 'bm, 'sdb) CacheStore \<Rightarrow> 'sdb" where
  "flushed L cs =
     fold (bmStep L (map_of (dirtyBitmaps cs))) (rangePairs L (map fst (dirtyBitmaps cs)))
       (fold (entStep L (map_of (dirtyEntities cs))) (rangeAddrs L (map fst (dirtyEntities cs))) (stateDB cs))"

lemma flushEntities_state:
  "foldRes (flushEntity L) as c = Inr c' \<Longrightarrow> c' = c\<lparr>stateDB := fold (entStep L (map_of (dirtyEntities c))) as (stateDB c)\<rparr>"
proof (induction as arbitrary: c)
  case (Cons a as)
  then obtain c1 where c1: "flushEntity L a c = Inr c1" "foldRes (flushEntity L) as c1 = Inr c'"
    by (auto simp: andThen_eq_Inr)
  have "c1 = c\<lparr>stateDB := entStep L (map_of (dirtyEntities c)) a (stateDB c)\<rparr>"
    using c1(1) by (auto simp: flushEntity_def entStep_def encodeEntity_def andThen_eq_Inr split: option.splits sum.splits)
  with Cons.IH[OF c1(2)] show ?case by simp
qed simp

lemma flushBitmaps_state:
  "foldRes (flushBitmap L) ps c = Inr c' \<Longrightarrow>
    stateDB c' = fold (bmStep L (map_of (dirtyBitmaps c))) ps (stateDB c) \<and> blockNumber c' = blockNumber c"
proof (induction ps arbitrary: c)
  case (Cons p ps)
  then obtain c1 where c1: "flushBitmap L p c = Inr c1" "foldRes (flushBitmap L) ps c1 = Inr c'"
    by (auto simp: andThen_eq_Inr)
  have "stateDB c1 = bmStep L (map_of (dirtyBitmaps c)) p (stateDB c) \<and> dirtyBitmaps c1 = dirtyBitmaps c \<and>
      blockNumber c1 = blockNumber c"
  proof (cases "map_of (dirtyBitmaps c) p")
    case None
    then show ?thesis using c1(1) by (simp add: flushBitmap_def bmStep_def)
  next
    case (Some bm)
    then obtain bs st where "bmMarshal L bm = Inr bs"
      "c1 = c\<lparr>stagingDB := st, stateDB := setAnnotSlot L (stateDB c) (apKey p) (apVal p) (Keccak256Hash L bs)\<rparr>"
      using c1(1) by (auto simp: flushBitmap_def Let_def andThen_eq_Inr)
    with Some show ?thesis by (simp add: bmStep_def)
  qed
  with Cons.IH[OF c1(2)] show ?case by simp
qed simp

lemma flush_state:
  assumes "andThen (flushEntities L cs) (flushBitmaps L) = Inr c"
  shows "stateDB c = flushed L cs" "blockNumber c = blockNumber cs"
proof -
  obtain c1 where c: "flushEntities L cs = Inr c1" "flushBitmaps L c1 = Inr c" using assms by (auto simp: andThen_eq_Inr)
  note e = flushEntities_state[OF c(1)[unfolded flushEntities_def]]
  from flushBitmaps_state[OF c(2)[unfolded flushBitmaps_def]]
  show "stateDB c = flushed L cs" "blockNumber c = blockNumber cs" by (simp_all add: e flushed_def)
qed

lemma Commit_root:
  assumes "Commit L c = Inr (root, db)"
  shows "\<exists>codes dirty. sdCommit L (flushed L c) (blockNumber c) = Inr (root, codes, dirty)"
proof -
  obtain c1 c2 codes dirty where c: "flushEntities L c = Inr c1" "flushBitmaps L c1 = Inr c2"
    "sdCommit L (stateDB c2) (blockNumber c2) = Inr (root, codes, dirty)"
    using assms by (auto simp: Commit_def andThen_eq_Inr)
  with flush_state[of L c c2] show ?thesis by simp
qed

section \<open>The order of a map does not matter\<close>

lemma fold_any_order:
  assumes "distinct xs" "distinct ys" "set xs = set ys"
    and "\<And>x y. x \<in> set xs \<Longrightarrow> y \<in> set xs \<Longrightarrow> x \<noteq> y \<Longrightarrow> f x \<circ> f y = f y \<circ> f x"
  shows "fold f xs = fold f ys"
proof (rule fold_multiset_equiv)
  show "mset xs = mset ys" using assms(1-3) by (simp add: set_eq_iff_mset_eq_distinct)
  show "f x \<circ> f y = f y \<circ> f x" if "x \<in> set xs" "y \<in> set xs" for x y using assms(4) that by (cases "x = y") auto
qed

lemma entStep_commute: "writes_commute L \<Longrightarrow> a \<noteq> b \<Longrightarrow> entStep L m a \<circ> entStep L m b = entStep L m b \<circ> entStep L m a"
  by (auto simp: fun_eq_iff entStep_def writes_commute_def split: option.split sum.split)

lemma bmStep_commute:
  assumes "writes_commute L" "slots_ok L U" "p \<in> U" "q \<in> U" "p \<noteq> q"
  shows "bmStep L m p \<circ> bmStep L m q = bmStep L m q \<circ> bmStep L m p"
proof -
  have "annotSlotKey L (apKey p) (apVal p) \<noteq> annotSlotKey L (apKey q) (apVal q)"
    using annotSlotKey_inject[OF assms(2-4)] assms(5) by blast
  then show ?thesis using assms(1)
    by (auto simp: fun_eq_iff bmStep_def setAnnotSlot_def writes_commute_def split: option.split sum.split)
qed

lemma twin_bitmaps:
  assumes "twin L a b"
  shows "map_of (dirtyBitmaps b) = map_of (dirtyBitmaps a)"
proof
  fix p
  have "curBm L b p = curBm L a p" "(map_of (dirtyBitmaps b) p = None) = (map_of (dirtyBitmaps a) p = None)"
    using assms by (simp_all add: twin_def)
  then show "map_of (dirtyBitmaps b) p = map_of (dirtyBitmaps a) p" by (auto simp: curBm_def split: option.splits)
qed

lemma flushed_twin:
  assumes t: "twin L a b" and r: "range_ok L" "range_ok (reorder rp ra L)" and w: "writes_commute L" "slots_ok L U"
    and U: "fst ` set (dirtyBitmaps a) \<subseteq> U"
  shows "flushed (reorder rp ra L) b = flushed L a"
proof -
  have d: "distinct (map fst (dirtyEntities a))" "distinct (map fst (dirtyEntities b))"
    "distinct (map fst (dirtyBitmaps a))" "distinct (map fst (dirtyBitmaps b))"
    using t by (simp_all add: twin_def tidy_def)
  have e: "map_of (dirtyEntities b) = map_of (dirtyEntities a)" "stateDB b = stateDB a" using t by (simp_all add: twin_def)
  note m = twin_bitmaps[OF t]
  have keys: "fst ` set (dirtyEntities b) = fst ` set (dirtyEntities a)" "fst ` set (dirtyBitmaps b) = fst ` set (dirtyBitmaps a)"
    using e(1) m by (simp_all flip: dom_map_of_conv_image_fst)
  note ra = range_simps(3,4)[OF r(1) d(1)] range_simps(3,4)[OF r(2) d(2), unfolded reorder_sel]
  note rp = range_simps(1,2)[OF r(1) d(3)] range_simps(1,2)[OF r(2) d(4), unfolded reorder_sel]
  have "fold (entStep L (map_of (dirtyEntities a))) (rangeAddrs L (map fst (dirtyEntities a))) =
      fold (entStep L (map_of (dirtyEntities a))) (ra (map fst (dirtyEntities b)))"
    by (rule fold_any_order) (use ra keys(1) in \<open>auto intro: entStep_commute[OF w(1)]\<close>)
  moreover have "fold (bmStep L (map_of (dirtyBitmaps a))) (rangePairs L (map fst (dirtyBitmaps a))) =
      fold (bmStep L (map_of (dirtyBitmaps a))) (rp (map fst (dirtyBitmaps b)))"
  proof (rule fold_any_order)
    fix x y assume "x \<in> set (rangePairs L (map fst (dirtyBitmaps a)))" "y \<in> set (rangePairs L (map fst (dirtyBitmaps a)))" "x \<noteq> y"
    then show "bmStep L (map_of (dirtyBitmaps a)) x \<circ> bmStep L (map_of (dirtyBitmaps a)) y =
        bmStep L (map_of (dirtyBitmaps a)) y \<circ> bmStep L (map_of (dirtyBitmaps a)) x"
      using rp(2) U by (intro bmStep_commute[OF w]) auto
  qed (use rp keys(2) in auto)
  moreover have "entStep (reorder rp ra L) = entStep L" "bmStep (reorder rp ra L) = bmStep L"
    by (unfold entStep_def bmStep_def reorder_sel reorder_system, (rule refl)+)
  ultimately show ?thesis by (simp add: flushed_def e m)
qed

section \<open>A block on two databases\<close>

lemma same_pointers:
  assumes h: "hash_ok L U H" and c: "consistent L U H g s T n" "consistent L U H g' s T n"
  shows "loaded L g' p = loaded L g p"
proof (cases "\<exists>q \<in> U. annotKeyP p = annotKeyP q")
  case True
  then obtain q where q: "q \<in> U" "annotKeyP p = annotKeyP q" by blast
  have P: "ptr_ok L g s q (idsOf L T q)" "ptr_ok L g' s q (idsOf L T q)" using c q(1) by (simp_all add: consistent_def)
  show ?thesis
  proof (cases "slotOf L s q = 0")
    case True
    then show ?thesis using P by (auto simp: loaded_def q(2) ptr_ok_def)
  next
    case False
    let ?h = "slotOf L s q"
    from P False obtain bs bs' where
      k: "g (annotKeyP q) = Some (hashBytes ?h)" "g (bitmapKey ?h) = Some bs"
        "g' (annotKeyP q) = Some (hashBytes ?h)" "g' (bitmapKey ?h) = Some bs'" by (auto simp: ptr_ok_def)
    have "bs \<in> H \<and> bs' \<in> H \<and> Keccak256Hash L bs = Keccak256Hash L bs'"
      using c k(2,4) by (auto simp: consistent_def blobs_ok_def)
    then have "bs' = bs" using h by (auto simp: hash_ok_def inj_on_def)
    then show ?thesis using k by (simp add: loaded_def q(2) BytesToHash_hashBytes)
  qed
next
  case False
  have none: "f (annotKeyP p) = None" if "index_keys_ok U f" for f
  proof (rule ccontr)
    assume "f (annotKeyP p) \<noteq> None"
    then have "annotKeyP p \<in> annotKeyP ` U" using that annotKeyP_prefix(1)[of p] unfolding index_keys_ok_def by blast
    with False show False by blast
  qed
  have "index_keys_ok U g" "index_keys_ok U g'" using c by (simp_all add: consistent_def)
  from this[THEN none] show ?thesis by (simp add: loaded_def)
qed

lemma twin_opened:
  assumes ok: "lib_ok L" and h: "hash_ok L U H" and u: "opens_unique L H"
    and s: "store_inv L U H s T n" "store_inv L U H s' T n" and r: "headRoot s' = headRoot s"
  shows "both (twin L) (newCacheStore L (rawDB s) (headRoot s) m) (newCacheStore L (rawDB s') (headRoot s') m)"
proof -
  obtain sdb where o: "stateNew L (rd L (rawDB s)) (headRoot s) = Inr sdb" "consistent L U H (rd L (rawDB s)) sdb T n"
    using s(1) by (auto simp: store_inv_def)
  obtain sdb' where o': "stateNew L (rd L (rawDB s')) (headRoot s) = Inr sdb'" "consistent L U H (rd L (rawDB s')) sdb' T n"
    using s(2) r by (auto simp: store_inv_def)
  have e: "sdb' = sdb" using u o(1) o'(1) s by (auto simp: opens_unique_def store_inv_def)
  have kv: "kv_ok L" using ok by blast
  have rS: "rdS L (newStagingDB L d) = rd L d" for d using kv by simp
  have "rd L (rawDB s') (addrKey x) = rd L (rawDB s) (addrKey x)" if "sdGetCode L sdb x \<noteq> []" for x
  proof -
    have "code_ok L sdb x (T x)" using o(2) by (simp add: consistent_def)
    with that obtain i f where "T x = Some (i, f)" by (cases "T x") (auto simp: code_ok_def)
    then show ?thesis using o(2) o'(2) by (simp add: consistent_def ids_ok_def)
  qed
  moreover have "loaded L (rd L (rawDB s')) p = loaded L (rd L (rawDB s)) p" for p
    using same_pointers[OF h o(2)] o'(2) e by simp
  moreover have "newCacheStore L d r m = Inr \<lparr>stagingDB = newStagingDB L d, stateDB = x, blockNumber = m, blockHash = 0,
      parentHash = 0, dirtyEntities = [], dirtyBitmaps = []\<rparr>" if "stateNew L (rd L d) r = Inr x" for d r x
  proof -
    have "(\<lambda>k. okOption (stGet L (newStagingDB L d) k)) = rd L d" by (simp only: okOption_stGet rS)
    with that show ?thesis by (simp only: newCacheStore_def Let_def wrapErr_simps andThen_simps)
  qed
  note this[OF o(1)] this[OF o'(1), folded r]
  ultimately show ?thesis
    by (simp only: e) (simp add: both_def twin_def tidy_def curBm_def fun_eq_iff live_def rS)
qed

lemma twin_stage:
  assumes ok: "lib_ok L" and h: "hash_ok L U H" and u: "opens_unique L H" and ra: "range_ok (reorder rp ra L)"
    and s: "store_inv L U H s T n" "store_inv L U H s' T n" and r: "headRoot s' = headRoot s"
  shows "both (twin L) (stageBlock L s block) (stageBlock (reorder rp ra L) s' block)"
proof -
  have ac: "account_ok L" using ok by blast
  have init: "twin L (a\<lparr>blockHash := x, parentHash := y, stateDB := initSystemAccount L (stateDB a)\<rparr>)
      (b\<lparr>blockHash := x, parentHash := y, stateDB := initSystemAccount L (stateDB b)\<rparr>)" if "twin L a b" for a b x y
  proof -
    have "curBm L (c\<lparr>blockHash := x, parentHash := y, stateDB := z\<rparr>) = curBm L c" for c z by (simp add: fun_eq_iff curBm_def split: option.split)
    then show ?thesis using that ac
      by (auto simp: twin_def tidy_def live_def initSystemAccount_def lib_simps split: if_splits)
  qed
  show ?thesis
    unfolding stageBlock_def Let_def reorder_ops reorder_system
  proof (rule both_then[OF twin_opened[OF ok h u s r]])
    fix a b assume "twin L a b"
    from init[OF this] show "both (twin L)
        (foldRes (applyTx L) (Transactions block) (a\<lparr>blockHash := Hash (Header block), parentHash := ParentHash (Header block),
           stateDB := initSystemAccount L (stateDB a)\<rparr>))
        (foldRes (applyTx (reorder rp ra L)) (Transactions block) (b\<lparr>blockHash := Hash (Header block), parentHash := ParentHash (Header block),
           stateDB := initSystemAccount L (stateDB b)\<rparr>))"
      by (rule both_fold[rotated]) (auto simp: applyTx_def intro!: both_fold both_basic(2) twin_applyOp[OF ok ra])
  qed
qed

text \<open>What the two commits store of the state is the same.\<close>

lemma twin_flushed:
  assumes ok: "lib_ok L" and h: "hash_ok L U H" and u: "opens_unique L H" and w: "writes_commute L"
    and ra: "range_ok (reorder rp ra L)" and s: "store_inv L U H s T n" "store_inv L U H s' T n"
    and r: "headRoot s' = headRoot s" and b: "block_ok L U block (T, n)"
    and c: "stageBlock L s block = Inr cs" "stageBlock (reorder rp ra L) s' block = Inr cs'"
  shows "flushed (reorder rp ra L) cs' = flushed L cs" "blockNumber cs' = blockNumber cs"
    "map_of (dirtyBitmaps cs') = map_of (dirtyBitmaps cs)"
proof -
  have t: "twin L cs cs'" using twin_stage[OF ok h u ra s r, of block] c by (simp add: both_def)
  have "\<exists>T' n'. cs_inv L U H cs T' n'"
    using stageBlock_ok[OF ok h s(1) b] c(1) by (auto split: option.splits)
  then have U: "fst ` set (dirtyBitmaps cs) \<subseteq> U" by (auto simp: cs_inv_def bms_ok_def)
  show "flushed (reorder rp ra L) cs' = flushed L cs"
    using flushed_twin[OF t _ ra w _ U] ok h by (auto simp: hash_ok_def)
  show "blockNumber cs' = blockNumber cs" using t by (simp add: twin_def)
  show "map_of (dirtyBitmaps cs') = map_of (dirtyBitmaps cs)" by (rule twin_bitmaps[OF t])
qed

lemma processBlock_root:
  assumes "lib_ok L" "hash_ok L U H" "opens_unique L H" "writes_commute L" "range_ok (reorder rp ra L)"
    "store_inv L U H s T n" "store_inv L U H s' T n" "headRoot s' = headRoot s" "block_ok L U block (T, n)"
    and p: "processBlock L s block = Inr (root, s1)" "processBlock (reorder rp ra L) s' block = Inr (root', s1')"
  shows "root' = root"
proof -
  let ?M = "reorder rp ra L"
  obtain cs db where c: "stageBlock L s block = Inr cs" "Commit L cs = Inr (root, db)"
    using p(1) by (auto simp: processBlock_def andThen_eq_Inr)
  obtain cs' db' where c': "stageBlock ?M s' block = Inr cs'" "Commit ?M cs' = Inr (root', db')"
    using p(2) by (auto simp: processBlock_def andThen_eq_Inr)
  from Commit_root[OF c(2)] Commit_root[OF c'(2)] twin_flushed[OF assms(1-9) c(1) c'(1)] show ?thesis by auto
qed

lemma twin_blobs:
  assumes ok: "lib_ok L" and h: "hash_ok L U H" and rest: "opens_unique L H" "writes_commute L" "range_ok (reorder rp ra L)"
    and s: "store_inv L U H s T n" "store_inv L U H s' T n" "headRoot s' = headRoot s" and b: "block_ok L U block (T, n)"
    and a: "absBlock L block (T, n) = Some (T', n')" and bl: "blobs_in L H s block"
  shows "blobs_in (reorder rp ra L) H s' block"
  unfolding blobs_in_def
proof (intro allI impI)
  let ?M = "reorder rp ra L"
  fix cs' assume c': "stageBlock ?M s' block = Inr cs'"
  obtain cs where c: "stageBlock L s block = Inr cs" "cs_inv L U H cs T' n'"
    using stageBlock_ok[OF ok h s(1) b] a by auto
  note t = twin_flushed[OF ok h rest s b c(1) c']
  have sub: "commitBlobs L cs \<subseteq> H" using bl c(1) by (simp add: blobs_in_def)
  obtain c0 where f: "andThen (flushEntities L cs) (flushBitmaps L) = Inr c0" using flush_ok[OF ok h c(2) sub] by blast
  have "commitBlobs ?M cs' \<subseteq> commitBlobs L cs"
  proof
    fix v assume "v \<in> commitBlobs ?M cs'"
    then consider p b where "map_of (dirtyBitmaps cs) p = Some b" "bmMarshal L b = Inr v"
      | c1 root codes dirty nodes k where "andThen (flushEntities ?M cs') (flushBitmaps ?M) = Inr c1"
        "sdCommit L (stateDB c1) (blockNumber c1) = Inr (root, codes, dirty)"
        "trieCommit L dirty root = Inr nodes" "(k, v) \<in> set (codes @ nodes)"
      unfolding commitBlobs_def reorder_sel t(3) by blast
    then show "v \<in> commitBlobs L cs"
    proof cases
      case 1
      then show ?thesis by (auto simp: commitBlobs_def)
    next
      case 2
      have "stateDB c1 = stateDB c0" "blockNumber c1 = blockNumber c0"
        using flush_state[OF 2(1)] flush_state[OF f] t(1,2) by simp_all
      with 2 f show ?thesis unfolding commitBlobs_def by simp blast
    qed
  qed
  with sub show "commitBlobs ?M cs' \<subseteq> H" by blast
qed

end
