(* ===== verification/Root_Determined.thy ===== *)
theory Root_Determined
  imports State_Root
begin

text \<open>
  The state root of a chain: nodes that follow the same chain have the same root for each of its blocks, whatever
  blocks they took in and took back before, and in whatever order their maps are ranged over.
\<close>

section \<open>What does not see the order of a map\<close>

lemma reorder_inv [simp]:
  "store_inv (reorder rp ra L) = store_inv L" "hash_ok (reorder rp ra L) = hash_ok L"
  "ancestorRootOf (reorder rp ra L) = ancestorRootOf L" "block_ok (reorder rp ra L) = block_ok L"
  "absBlock (reorder rp ra L) = absBlock L"
  by (unfold store_inv_def hash_ok_def slots_ok_def consistent_def table_ok_def idsOf_def ids_ok_def idSlotOf_def code_ok_def
      ptr_ok_def slotOf_def blobs_ok_def nodes_ok_def nodeEntry_def ancestorRootOf_def
      block_ok_def absBlock_def op_ok_def absOp_def absCreate_def entity_ok_def reorder_sel reorder_db reorder_system
      reorder_entities, (rule refl)+)

lemma reorder_derived: "derived (reorder rp ra L) g s \<Longrightarrow> derived L g s"
  by (induction rule: derived.induct) (auto intro: derived.intros)

lemma reorder_lib_ok: "lib_ok L \<Longrightarrow> range_ok (reorder rp ra L) \<Longrightarrow> lib_ok (reorder rp ra L)"
proof -
  have "kv_ok (reorder rp ra L) = kv_ok L" "roaring_ok (reorder rp ra L) = roaring_ok L" "codec_ok (reorder rp ra L) = codec_ok L"
    "account_ok (reorder rp ra L) = account_ok L"
    by (unfold kv_ok_def roaring_ok_def codec_ok_def account_ok_def reorder_sel reorder_db, (rule refl)+)
  moreover have "trie_ok (reorder rp ra L)" if "trie_ok L"
    using that unfolding trie_ok_def nodeEntry_def sameState_def reorder_sel by (meson reorder_derived)
  ultimately show "lib_ok L \<Longrightarrow> range_ok (reorder rp ra L) \<Longrightarrow> lib_ok (reorder rp ra L)" by (simp add: lib_ok_def)
qed

lemma reorder_io_ok: "io_ok L \<Longrightarrow> io_ok (reorder rp ra L)"
  unfolding io_ok_def reorder_sel .

section \<open>One block on two stores\<close>

lemma processBlock_twin:
  assumes ok: "lib_ok L" and io: "io_ok L" and h: "hash_ok L U H" and rest: "opens_unique L H" "writes_commute L"
    and ra: "range_ok (reorder rp ra L)"
    and s: "store_inv L U H s T n" "store_inv L U H s' T n" "headRoot s' = headRoot s" and b: "block_ok L U block (T, n)"
    and a: "absBlock L block (T, n) = Some (T', n')" and bl: "blobs_in L H s block"
  shows "\<exists>root s1 s1'. processBlock L s block = Inr (root, s1) \<and> processBlock (reorder rp ra L) s' block = Inr (root, s1') \<and>
    headRoot s1' = headRoot s1 \<and> store_inv L U H s1 T' n' \<and> store_inv L U H s1' T' n'"
proof -
  let ?M = "reorder rp ra L"
  note M = reorder_lib_ok[OF ok ra] reorder_io_ok[OF io, of rp ra]
  have inv': "store_inv ?M U H s' T n" "hash_ok ?M U H" "block_ok ?M U block (T, n)" "absBlock ?M block (T, n) = Some (T', n')"
    using s(2) h b a by simp_all
  note bl' = twin_blobs[OF ok h rest ra s b a bl]
  obtain root s1 where p: "processBlock L s block = Inr (root, s1)" using processBlock_returns[OF ok io h s(1) b a bl] by blast
  obtain root' s1' where p': "processBlock ?M s' block = Inr (root', s1')"
    using processBlock_returns[OF M inv'(2,1,3,4) bl'] by blast
  have "root' = root" by (rule processBlock_root[OF ok h rest ra s b p p'])
  moreover note processBlock_commits(1,3)[OF ok h s(1) b a bl p]
    processBlock_commits(1,3)[OF M(1) inv'(2,1,3,4) bl' p', unfolded reorder_inv]
  ultimately show ?thesis using p p' by simp
qed

section \<open>One root for a chain\<close>

lemma chain_root_unique:
  assumes ok: "lib_ok L" and h: "hash_ok L U H" and u: "opens_unique L H" and w: "writes_commute L"
    and ra: "range_ok (reorder rp ra L)"
  shows "chain_root L U H fs r \<Longrightarrow> chain_root (reorder rp ra L) U H fs r' \<Longrightarrow> r' = r"
proof (induction arbitrary: r' rule: chain_root.induct)
  case (genesis_root f)
  from genesis_root(2) show ?case by (cases rule: chain_root.cases) (use genesis_root(1) in simp_all)
next
  case (block_root fs s f block root s1)
  from block_root.prems show ?case
  proof (cases rule: chain_root.cases)
    case (block_root s' block' s1')
    show ?thesis
    proof (rule processBlock_root[OF ok h u w ra])
      show "store_inv L U H s (frTable (hd fs)) (frCount (hd fs))" "store_inv L U H s' (frTable (hd fs)) (frCount (hd fs))"
        using \<open>store_inv L U H s _ _\<close> block_root by simp_all
    qed (use block_root \<open>frBlock f = Some block\<close> \<open>block_ok L U block _\<close> \<open>processBlock L s block = _\<close> block_root.IH in
        \<open>auto simp: headState_def\<close>)
  qed (use \<open>frBlock f = Some block\<close> in simp)
qed

lemma chain_inv_roots:
  assumes "lib_ok L" "hash_ok L U H" "opens_unique L H" "writes_commute L" "range_ok (reorder rp ra L)"
    and "chain_inv L U H s fs" "chain_inv (reorder rp ra L) U H s' fs"
  shows "headRoot s' = headRoot s \<and>
    (\<forall>f \<in> set fs. ancestorRootOf L (rd L (rawDB s')) (frHash f) = ancestorRootOf L (rd L (rawDB s)) (frHash f))"
proof -
  note eq = chain_root_unique[OF assms(1-5)]
  have "\<forall>f \<in> set xs. ancestorRootOf L g' (frHash f) = ancestorRootOf L g (frHash f)"
    if "rooted L U H g xs" "rooted (reorder rp ra L) U H g' xs" for g g' xs
    using that by (induction xs) (auto dest: eq)
  moreover have "rooted L U H (rd L (rawDB s)) fs" "rooted (reorder rp ra L) U H (rd L (rawDB s')) fs"
    using assms(6,7) by (simp_all add: chain_inv_def)
  moreover have "hd fs \<in> set fs" using assms(6) by (cases fs) (auto simp: chain_inv_def)
  ultimately show ?thesis using assms(6,7) by (simp add: chain_inv_def)
qed

end
