(* ===== verification/Locking.thy ===== *)
theory Locking
  imports Daemon
begin

text \<open>
  The lock of the store. A reorganisation holds it from its revert to its last block (\<open>Reorg\<close> in
  \<open>store/store.go\<close>), but each of these writes the database at once. The head is read under the lock; the scans of
  the pointer index, the number index and the records of blocks are read without it (\<open>store/query.go\<close>).
\<close>

section \<open>The writer\<close>

text \<open>Free, or held by a reorganisation that has still to revert, or only to apply the blocks listed.\<close>

datatype writer = Free | ToRevert "ArkivBlockRef list" "ArkivBlock list" | ToApply "ArkivBlock list"

inductive writer_step :: "('db, 'bm, 'sdb) lib \<Rightarrow> 'db Store \<times> writer \<Rightarrow> 'db Store \<times> writer \<Rightarrow> bool" for L where
  nothing_to_revert: "writer_step L (s, ToRevert [] blocks) (s, ToApply blocks)"
| revert: "refs \<noteq> [] \<Longrightarrow> revertToAncestor L s refs = Inr s' \<Longrightarrow>
    writer_step L (s, ToRevert refs blocks) (s', ToApply blocks)"
| revert_fails: "refs \<noteq> [] \<Longrightarrow> revertToAncestor L s refs = Inl e \<Longrightarrow> writer_step L (s, ToRevert refs blocks) (s, Free)"
| apply_block: "processBlock L s block = Inr (root, s') \<Longrightarrow>
    writer_step L (s, ToApply (block # blocks)) (s', ToApply blocks)"
| apply_fails: "processBlock L s block = Inl e \<Longrightarrow> writer_step L (s, ToApply (block # blocks)) (s, Free)"
| release: "writer_step L (s, ToApply []) (s, Free)"

inductive_cases writer_stepE:
  "writer_step L (s, Free) m" "writer_step L (s, ToRevert refs blocks) m" "writer_step L (s, ToApply blocks) m"

abbreviation writer_steps :: "('db, 'bm, 'sdb) lib \<Rightarrow> 'db Store \<times> writer \<Rightarrow> 'db Store \<times> writer \<Rightarrow> bool" where
  "writer_steps L \<equiv> (writer_step L)\<^sup>*\<^sup>*"

lemma writer_step_deterministic: "writer_step L m m1 \<Longrightarrow> writer_step L m m2 \<Longrightarrow> m1 = m2"
  by (induction rule: writer_step.induct) (auto elim: writer_stepE)

lemma writer_free: "writer_steps L (s, Free) m \<Longrightarrow> m = (s, Free)"
  by (erule converse_rtranclpE) (auto elim: writer_stepE)

text \<open>The steps come to an end, in the store that the whole operation returns.\<close>

lemma apply_steps: "writer_steps L (s, ToApply blocks) (snd (reorgApply L s blocks), Free)"
proof (induction blocks arbitrary: s)
  case Nil
  then show ?case by (auto intro: r_into_rtranclp release)
next
  case (Cons block blocks)
  show ?case
  proof (cases "processBlock L s block")
    case (Inl e)
    then show ?thesis by (auto intro: r_into_rtranclp apply_fails)
  next
    case (Inr r)
    obtain root s' where r: "r = (root, s')" by (cases r)
    then show ?thesis
      using Inr converse_rtranclp_into_rtranclp[OF apply_block[of L s block root s' blocks] Cons.IH[of s']] by simp
  qed
qed

lemma reorg_steps: "writer_steps L (s, ToRevert refs blocks) (snd (Reorg L s refs blocks), Free)"
proof (cases "refs = []")
  case True
  then show ?thesis
    using converse_rtranclp_into_rtranclp[OF nothing_to_revert apply_steps] by (simp add: Reorg_def)
next
  case False
  show ?thesis
  proof (cases "revertToAncestor L s refs")
    case (Inl e)
    then show ?thesis using False by (auto simp: Reorg_def intro: r_into_rtranclp revert_fails)
  next
    case (Inr s')
    then show ?thesis
      using False converse_rtranclp_into_rtranclp[OF revert[OF False Inr] apply_steps] by (simp add: Reorg_def)
  qed
qed

lemma reorg_steps_only:
  assumes "writer_steps L (s, ToRevert refs blocks) (s', Free)"
  shows "s' = snd (Reorg L s refs blocks)"
proof -
  have conf: "writer_steps L m (a, Free) \<Longrightarrow> writer_steps L m (b, Free) \<Longrightarrow> b = a" for m a b
  proof (induction m rule: converse_rtranclp_induct)
    case base
    then show ?case using writer_free by blast
  next
    case (step m m1)
    from step.prems show ?case
    proof (cases rule: converse_rtranclpE)
      case base
      then show ?thesis using step.hyps(1) by (auto elim: writer_stepE)
    next
      case (step m2)
      then show ?thesis using step.hyps writer_step_deterministic[of L m m1 m2] step.IH by blast
    qed
  qed
  show ?thesis using conf[OF reorg_steps assms] .
qed

fun writerSize :: "writer \<Rightarrow> nat" where
  "writerSize Free = 0"
| "writerSize (ToApply blocks) = Suc (length blocks)"
| "writerSize (ToRevert refs blocks) = Suc (Suc (length blocks))"

lemma writer_terminates: "wf {(m', m). writer_step L m m'}"
proof (rule wf_subset[OF wf_measure[of "\<lambda>m. writerSize (snd m)"]])
  have "writerSize (snd m') < writerSize (snd m)" if "writer_step L m m'" for m m'
    using that by (induction rule: writer_step.induct) simp_all
  then show "{(m', m). writer_step L m m'} \<subseteq> measure (\<lambda>m. writerSize (snd m))" by auto
qed

section \<open>Readers\<close>

text \<open>What a reader can observe next to the writer: the head only when the lock is free, a scan at any time.\<close>

datatype 'bm observation = HeadNumberIs uint64 | HeadRootIs hash | NumericScanIs string uint64 uint64 'bm

inductive observes :: "('db, 'bm, 'sdb) lib \<Rightarrow> 'db Store \<times> writer \<Rightarrow> 'bm observation \<Rightarrow> bool" for L where
  head_number: "observes L (s, Free) (HeadNumberIs (HeadNumber s))"
| head_root: "observes L (s, Free) (HeadRootIs (headRoot s))"
| numeric_scan: "observes L (s, w) (NumericScanIs key lo hi (IterateNumericAnnotBitmaps L s key lo hi))"

inductive_simps observes_simps [simp]:
  "observes L (s, w) (HeadNumberIs n)" "observes L (s, w) (HeadRootIs r)" "observes L (s, w) (NumericScanIs key lo hi b)"

text \<open>
  A reorganisation passes through the chain of every prefix of its new blocks, with the lock held.
\<close>

lemma commit_prefix:
  "commitBlocks L s root before = (Inr r, s') \<Longrightarrow>
    writer_steps L (s, ToApply (before @ rest)) (s', ToApply rest)"
proof (induction before arbitrary: s root)
  case (Cons block before)
  obtain root' s1 where p: "processBlock L s block = Inr (root', s1)" "commitBlocks L s1 root' before = (Inr r, s')"
    using Cons.prems by (auto simp: ProcessBlock_def split: sum.splits prod.splits)
  show ?case
    using converse_rtranclp_into_rtranclp[OF apply_block[OF p(1)] Cons.IH[OF p(2)]] by simp
qed simp

lemma feed_ok_prefix: "feed_ok L U H s fs (before @ rest) \<Longrightarrow> feed_ok L U H s fs before"
  using feed_ok_take[of L U H s fs "before @ rest" "length before"] by simp

lemma reorg_passes:
  assumes ok: "lib_ok L" and io: "io_ok L" and h: "hash_ok L U H" and inv: "chain_inv L U H s fs"
    and refs: "refs_ok L s fs refs" and feed: "feed_ok L U H (afterRevert L s refs) (drop (length refs) fs) (before @ rest)"
    and ok_before: "\<exists>r. fst (commitBlocks L (afterRevert L s refs) 0 before) = Inr r"
  shows "\<exists>m. writer_steps L (s, ToRevert refs (before @ rest)) (m, ToApply rest) \<and>
    chain_inv L U H m (pushBlocks L (drop (length refs) fs) before)"
proof -
  let ?s = "afterRevert L s refs" and ?m = "snd (commitBlocks L (afterRevert L s refs) 0 before)"
  note rv = revert_chain[OF ok io h inv refs]
  have first: "writer_step L (s, ToRevert refs (before @ rest)) (?s, ToApply (before @ rest))"
  proof (cases "refs = []")
    case True
    then show ?thesis using nothing_to_revert[of L s] by (simp add: afterRevert_def RevertBlocks_def)
  next
    case False
    obtain r where "RevertBlocks L s refs = (Inr r, ?s)" using rv(1) by blast
    then have "revertToAncestor L s refs = Inr ?s" using False by (auto simp: RevertBlocks_def split: sum.splits)
    then show ?thesis by (rule writer_step.revert[OF False])
  qed
  obtain r where "commitBlocks L ?s 0 before = (Inr r, ?m)" using ok_before by (metis prod.collapse)
  from converse_rtranclp_into_rtranclp[OF first commit_prefix[OF this]]
    feed_chain[OF ok io h rv(2) feed_ok_prefix[OF feed], of 0]
  show ?thesis by blast
qed

end
