(* ===== verification/Concurrent_Page.thy ===== *)
theory Concurrent_Page
  imports Locking
begin

text \<open>
  The page loop of a query at the head, interleaved with the writers of the store. The loop takes its numbers from
  a bitmap evaluated before; it reads the address of a number without the lock and the entity under it, so
  blocks can be committed and reverted between any two reads.
\<close>

section \<open>The steps\<close>

text \<open>
  The reader is between two numbers of a batch, with the rest of the iterator, the last number and the data, or has
  read an address and waits for the entity, or the query has failed.
\<close>

datatype reader = NextId "uint64 list" "uint64 list" "uint64 option" "bytes list"
  | HaveAddr uint64 address "uint64 list" "uint64 list" "bytes list" | Failed err

text \<open>
  Next to the store, the lock and the reader the state records, for the proofs only, the chain that the store
  represents once the lock is free, and the tables of the heads so far.
\<close>

record 'db sysState =
  syStore :: "'db Store"
  syWriter :: writer
  syChain :: "frame list"
  syHeads :: "table set"
  syReader :: reader

inductive sys_step ::
    "webLib \<Rightarrow> ('db, 'bm, 'sdb) lib \<Rightarrow> annotPair set \<Rightarrow> bytes set \<Rightarrow> IncludeData \<Rightarrow> uint64 \<Rightarrow>
      'db sysState \<Rightarrow> 'db sysState \<Rightarrow> bool" for W L U H incl m where
  acquire: "syWriter y = Free \<Longrightarrow> refs_ok L (syStore y) (syChain y) refs \<Longrightarrow>
    feed_ok L U H (afterRevert L (syStore y) refs) (drop (length refs) (syChain y)) blocks \<Longrightarrow>
    sys_step W L U H incl m y (y\<lparr>syWriter := ToRevert refs blocks,
      syChain := pushBlocks L (drop (length refs) (syChain y)) blocks,
      syHeads := insert (frTable (hd (pushBlocks L (drop (length refs) (syChain y)) blocks))) (syHeads y)\<rparr>)"
| writes: "writer_step L (syStore y, syWriter y) (s', w') \<Longrightarrow>
    sys_step W L U H incl m y (y\<lparr>syStore := s', syWriter := w'\<rparr>)"
| batch: "syReader y = NextId [] it l data \<Longrightarrow> it \<noteq> [] \<Longrightarrow> word_of_nat (length data) < m \<Longrightarrow>
    n = unat (batchSize m data) \<Longrightarrow>
    sys_step W L U H incl m y (y\<lparr>syReader := NextId (take n it) (drop n it) l data\<rparr>)"
| no_address: "syReader y = NextId (i # ids) it l data \<Longrightarrow> IDToAddress L (syStore y) i = None \<Longrightarrow>
    sys_step W L U H incl m y (y\<lparr>syReader := NextId ids it (Some i) data\<rparr>)"
| an_address: "syReader y = NextId (i # ids) it l data \<Longrightarrow> IDToAddress L (syStore y) i = Some a \<Longrightarrow>
    sys_step W L U H incl m y (y\<lparr>syReader := HaveAddr i a ids it data\<rparr>)"
| no_entity: "syReader y = HaveAddr i a ids it data \<Longrightarrow> syWriter y = Free \<Longrightarrow>
    fetchEntityData W L (storeBackend L (syStore y)) 0 a incl = Inl e \<Longrightarrow> (\<forall>p. e \<noteq> Panic p) \<Longrightarrow>
    sys_step W L U H incl m y (y\<lparr>syReader := NextId ids it (Some i) data\<rparr>)"
| an_entity: "syReader y = HaveAddr i a ids it data \<Longrightarrow> syWriter y = Free \<Longrightarrow>
    fetchEntityData W L (storeBackend L (syStore y)) 0 a incl = Inr ed \<Longrightarrow> MarshalEntityData W ed = Inr d \<Longrightarrow>
    sys_step W L U H incl m y (y\<lparr>syReader := NextId ids it (Some i) (data @ [d])\<rparr>)"
| fetch_panics: "syReader y = HaveAddr i a ids it data \<Longrightarrow> syWriter y = Free \<Longrightarrow>
    fetchEntityData W L (storeBackend L (syStore y)) 0 a incl = Inl (Panic p) \<Longrightarrow>
    sys_step W L U H incl m y (y\<lparr>syReader := Failed (Panic p)\<rparr>)"
| marshal_fails: "syReader y = HaveAddr i a ids it data \<Longrightarrow> syWriter y = Free \<Longrightarrow>
    fetchEntityData W L (storeBackend L (syStore y)) 0 a incl = Inr ed \<Longrightarrow>
    wrapErr ''failed to marshal entity data'' (MarshalEntityData W ed) = Inl e \<Longrightarrow>
    sys_step W L U H incl m y (y\<lparr>syReader := Failed e\<rparr>)"

definition sys_steps ::
    "webLib \<Rightarrow> ('db, 'bm, 'sdb) lib \<Rightarrow> annotPair set \<Rightarrow> bytes set \<Rightarrow> IncludeData \<Rightarrow> uint64 \<Rightarrow>
      'db sysState \<Rightarrow> 'db sysState \<Rightarrow> bool" where
  "sys_steps W L U H incl m = (sys_step W L U H incl m)\<^sup>*\<^sup>*"

text \<open>Without a writer between them the reader's steps are the loop of the code.\<close>

lemma reader_batch:
  assumes free: "syWriter y = Free"
  shows "foldRes (fetchStep W L (storeBackend L (syStore y)) 0 incl) ids (l, data) = Inr (l', data') \<Longrightarrow>
    sys_steps W L U H incl m (y\<lparr>syReader := NextId ids it l data\<rparr>) (y\<lparr>syReader := NextId [] it l' data'\<rparr>)"
proof (induction ids arbitrary: l data)
  case Nil
  then show ?case by (simp add: sys_steps_def)
next
  case (Cons i ids)
  let ?y = "\<lambda>r. y\<lparr>syReader := r\<rparr>" and ?be = "storeBackend L (syStore y)"
  obtain l1 d1 where f: "fetchStep W L ?be 0 incl i (l, data) = Inr (l1, d1)"
    "foldRes (fetchStep W L ?be 0 incl) ids (l1, d1) = Inr (l', data')"
    using Cons.prems by (auto simp: andThen_eq_Inr)
  have "sys_steps W L U H incl m (?y (NextId (i # ids) it l data)) (?y (NextId ids it l1 d1))"
  proof (cases "IDToAddress L (syStore y) i")
    case None
    then have "l1 = Some i" "d1 = data" using f(1) by (simp_all add: fetchStep_def storeBackend_def)
    then show ?thesis
      using sys_step.no_address[of "?y (NextId (i # ids) it l data)" i ids it l data L] None
      by (auto simp: sys_steps_def intro!: r_into_rtranclp)
  next
    case (Some a)
    have s1: "sys_step W L U H incl m (?y (NextId (i # ids) it l data)) (?y (HaveAddr i a ids it data))"
      using sys_step.an_address[of "?y (NextId (i # ids) it l data)" i ids it l data L a] Some by simp
    have "sys_step W L U H incl m (?y (HaveAddr i a ids it data)) (?y (NextId ids it l1 d1))"
    proof (cases "fetchEntityData W L ?be 0 a incl")
      case (Inl e)
      with f(1) Some have "\<forall>p. e \<noteq> Panic p" "l1 = Some i" "d1 = data"
        by (auto simp: fetchStep_def storeBackend_def split: err.splits)
      then show ?thesis
        using sys_step.no_entity[of "?y (HaveAddr i a ids it data)" i a ids it data W L incl e] Inl free by simp
    next
      case (Inr ed)
      with f(1) Some obtain d where "MarshalEntityData W ed = Inr d" "l1 = Some i" "d1 = data @ [d]"
        by (auto simp: fetchStep_def storeBackend_def andThen_eq_Inr)
      then show ?thesis
        using sys_step.an_entity[of "?y (HaveAddr i a ids it data)" i a ids it data W L incl ed d] Inr free by simp
    qed
    with s1 show ?thesis by (simp add: sys_steps_def)
  qed
  with Cons.IH[OF f(2)] show ?case unfolding sys_steps_def by simp
qed

lemma reader_alone:
  assumes free: "syWriter y = Free"
  shows "queryLoop W L (storeBackend L (syStore y)) 0 incl m it (l, data) = Inr (it', l', data') \<Longrightarrow>
    sys_steps W L U H incl m (y\<lparr>syReader := NextId [] it l data\<rparr>) (y\<lparr>syReader := NextId [] it' l' data'\<rparr>)"
proof (induction "length it" arbitrary: it l data rule: less_induct)
  case less
  let ?y = "\<lambda>r. y\<lparr>syReader := r\<rparr>" and ?n = "unat (batchSize m data)"
  show ?case
  proof (cases "it \<noteq> [] \<and> word_of_nat (length data) < m")
    case True
    then have q: "queryLoop W L (storeBackend L (syStore y)) 0 incl m it (l, data) =
        andThen (foldRes (fetchStep W L (storeBackend L (syStore y)) 0 incl) (take ?n it) (l, data))
          (queryLoop W L (storeBackend L (syStore y)) 0 incl m (drop ?n it))"
      by (subst queryLoop.simps) (simp add: Let_def)
    obtain l1 d1 where b: "foldRes (fetchStep W L (storeBackend L (syStore y)) 0 incl) (take ?n it) (l, data) = Inr (l1, d1)"
      "queryLoop W L (storeBackend L (syStore y)) 0 incl m (drop ?n it) (l1, d1) = Inr (it', l', data')"
      using less.prems unfolding q by (auto simp: andThen_eq_Inr)
    have "length (drop ?n it) < length it" using True batchSize_pos[of data m] by simp
    from less.hyps[OF this b(2)] reader_batch[OF free b(1), of U H m "drop ?n it"]
    have "sys_steps W L U H incl m (?y (NextId (take ?n it) (drop ?n it) l data)) (?y (NextId [] it' l' data'))"
      by (simp add: sys_steps_def)
    moreover have "sys_step W L U H incl m (?y (NextId [] it l data)) (?y (NextId (take ?n it) (drop ?n it) l data))"
      using sys_step.batch[of "?y (NextId [] it l data)" it l data m ?n W L U H incl] True by simp
    ultimately show ?thesis by (simp add: sys_steps_def)
  next
    case False
    then show ?thesis using less.prems by (subst (asm) queryLoop.simps) (auto simp: sys_steps_def)
  qed
qed

section \<open>The invariant\<close>

text \<open>The store once the operation that holds the lock is done.\<close>

fun finish :: "('db, 'bm, 'sdb) lib \<Rightarrow> 'db Store \<times> writer \<Rightarrow> 'db Store" where
  "finish L (s, Free) = s"
| "finish L (s, ToRevert refs blocks) = snd (Reorg L s refs blocks)"
| "finish L (s, ToApply blocks) = snd (reorgApply L s blocks)"

lemma finish_step: "writer_step L m m' \<Longrightarrow> finish L m' = finish L m"
  by (induction rule: writer_step.induct) (simp_all add: Reorg_def)

text \<open>A datum is the encoding of an entity of the table.\<close>

definition liveDatum :: "webLib \<Rightarrow> ('db, 'bm, 'sdb) lib \<Rightarrow> IncludeData \<Rightarrow> table \<Rightarrow> bytes \<Rightarrow> bool" where
  "liveDatum W L incl T d \<longleftrightarrow> (\<exists>a i e. T a = Some (i, e) \<and> MarshalEntityData W (entityData W L incl e) = Inr d)"

text \<open>How much of the page is taken, by the data and by what the batch can still add.\<close>

fun pageUse :: "reader \<Rightarrow> nat" where
  "pageUse (NextId ids it l data) = length ids + length data"
| "pageUse (HaveAddr i a ids it data) = Suc (length ids + length data)"
| "pageUse (Failed e) = 0"

fun readerData :: "reader \<Rightarrow> bytes list" where
  "readerData (NextId ids it l data) = data"
| "readerData (HaveAddr i a ids it data) = data"
| "readerData (Failed e) = []"

definition sys_inv ::
    "webLib \<Rightarrow> ('db, 'bm, 'sdb) lib \<Rightarrow> annotPair set \<Rightarrow> bytes set \<Rightarrow> IncludeData \<Rightarrow> uint64 \<Rightarrow> 'db sysState \<Rightarrow> bool" where
  "sys_inv W L U H incl m y \<longleftrightarrow>
     chain_inv L U H (finish L (syStore y, syWriter y)) (syChain y) \<and> frTable (hd (syChain y)) \<in> syHeads y \<and>
     pageUse (syReader y) \<le> unat m \<and> (\<forall>d \<in> set (readerData (syReader y)). \<exists>T \<in> syHeads y. liveDatum W L incl T d)"

lemma sys_step_inv:
  assumes ok: "lib_ok L" and io: "io_ok L" and h: "hash_ok L U H" and all: "pair ''$all'' ''true'' \<in> U"
  shows "sys_step W L U H incl m y y' \<Longrightarrow> sys_inv W L U H incl m y \<Longrightarrow> sys_inv W L U H incl m y'"
proof (induction rule: sys_step.induct)
  case (acquire y refs blocks)
  then have inv: "chain_inv L U H (syStore y) (syChain y)" by (simp add: sys_inv_def)
  note rv = revert_chain[OF ok io h inv acquire(2)]
  have "snd (Reorg L (syStore y) refs blocks) = snd (commitBlocks L (afterRevert L (syStore y) refs) 0 blocks)"
    using reorg_store[OF acquire(2) rv(1), of blocks] by (simp add: ReorgChain_def case_prod_beta)
  then have "chain_inv L U H (snd (Reorg L (syStore y) refs blocks)) (pushBlocks L (drop (length refs) (syChain y)) blocks)"
    using feed_chain[OF ok io h rv(2) acquire(3)] by simp
  with acquire show ?case by (auto simp: sys_inv_def)
next
  case (writes y s' w')
  then show ?case using finish_step[OF writes(1)] by (simp add: sys_inv_def)
next
  case (batch y it l data n)
  have d: "length data \<le> unat m" using batch by (auto simp: sys_inv_def)
  have len: "unat (word_of_nat (length data) :: uint64) = length data"
    using d unsigned_less[where ?'a = nat and w = m] by (simp add: unat_of_nat)
  have "batchSize m data \<le> m - word_of_nat (length data)" by (simp add: batchSize_def)
  moreover have "unat (m - word_of_nat (length data)) = unat m - length data"
    using batch(3) len by (subst unat_sub) (simp_all add: word_less_nat_alt less_imp_le)
  ultimately have "n \<le> unat m - length data" using batch(4) by (simp add: word_le_nat_alt)
  with d batch show ?case by (simp add: sys_inv_def)
next
  case (an_entity y i a ids it data ed d)
  let ?T = "frTable (hd (syChain y))"
  have "chain_inv L U H (syStore y) (syChain y)" using an_entity by (simp add: sys_inv_def)
  then have r: "blockRep L U (syStore y) 0 ?T" using blockRep_head[OF ok all] by (auto simp: chain_inv_def)
  obtain i' e' where T: "?T a = Some (i', e')"
    using fetch_store(2)[OF r, of a W incl] an_entity(3) by (cases "?T a") auto
  with fetch_store(1)[OF r T] an_entity(3,4) have "liveDatum W L incl ?T d" by (auto simp: liveDatum_def)
  with an_entity show ?case by (auto simp: sys_inv_def)
qed (auto simp: sys_inv_def)

lemma sys_steps_inv:
  assumes "lib_ok L" "io_ok L" "hash_ok L U H" "pair ''$all'' ''true'' \<in> U"
    and "sys_steps W L U H incl m y y'" "sys_inv W L U H incl m y"
  shows "sys_inv W L U H incl m y'"
  using assms(5,6) unfolding sys_steps_def
  by (induction rule: rtranclp_induct) (use sys_step_inv[OF assms(1-4)] in blast)+

end
