(* ===== verification/Interleaved_Eval.thy ===== *)
theory Interleaved_Eval
  imports Query_Correct
begin

text \<open>
  The evaluation of \<open>query/evaluate.go\<close> call by call. The methods of \<open>StoreQuerier\<close> take the store's lock one at
  a time, or not at all, so each may be answered by another state of the store. A computation here has the querier
  of every tick of a clock and the current tick; a call is answered by the querier of its tick and takes the clock
  to the next.
\<close>

section \<open>Computations that call a querier\<close>

type_synonym ('bm, 'a) calling = "(nat \<Rightarrow> 'bm StoreQuerier) \<Rightarrow> nat \<Rightarrow> 'a res \<times> nat"

definition localR :: "'a res \<Rightarrow> ('bm, 'a) calling" where
  "localR r = (\<lambda>qs k. (r, k))"

definition callR :: "('bm StoreQuerier \<Rightarrow> 'a res) \<Rightarrow> ('bm, 'a) calling" where
  "callR f = (\<lambda>qs k. (f (qs k), Suc k))"

definition thenR :: "('bm, 'a) calling \<Rightarrow> ('a \<Rightarrow> ('bm, 'b) calling) \<Rightarrow> ('bm, 'b) calling" where
  "thenR m f = (\<lambda>qs k. case m qs k of (Inl e, k') \<Rightarrow> (Inl e, k') | (Inr x, k') \<Rightarrow> f x qs k')"

fun foldR :: "('x \<Rightarrow> 'a \<Rightarrow> ('bm, 'a) calling) \<Rightarrow> 'x list \<Rightarrow> 'a \<Rightarrow> ('bm, 'a) calling" where
  "foldR f [] a = localR (Inr a)"
| "foldR f (x # xs) a = thenR (f x a) (foldR f xs)"

section \<open>Evaluation\<close>

text \<open>The four comparisons make at most one call.\<close>

definition negateIfR :: "('db, 'bm, 'sdb) lib \<Rightarrow> uint64 \<Rightarrow> bool \<Rightarrow> 'bm \<Rightarrow> ('bm, 'bm) calling" where
  "negateIfR L atBlockNumber isNot bm =
     (if isNot then thenR (callR (\<lambda>q. sqAllEntities q atBlockNumber)) (\<lambda>all. localR (Inr (bmAndNot L all bm)))
      else localR (Inr bm))"

definition evalEqualityR :: "('db, 'bm, 'sdb) lib \<Rightarrow> uint64 \<Rightarrow> Equality \<Rightarrow> ('bm, 'bm) calling" where
  "evalEqualityR L atBlockNumber e =
     thenR (localR (annotVal (eqValue e))) (\<lambda>v.
     thenR (callR (\<lambda>q. sqReadAnnotBitmap q atBlockNumber (eqVar e) v))
       (negateIfR L atBlockNumber (eqIsNot e)))"

definition evalGlobR :: "('db, 'bm, 'sdb) lib \<Rightarrow> uint64 \<Rightarrow> GlobExpr \<Rightarrow> ('bm, 'bm) calling" where
  "evalGlobR L atBlockNumber e =
     thenR (callR (\<lambda>q. case isPrefixGlob (glValue e) of
          Some p \<Rightarrow> Inr (sqIteratePrefixAnnotBitmaps q (glVar e) p)
        | None \<Rightarrow> Inr (sqIterateGlobAnnotBitmaps q (glVar e) (glValue e))))
       (negateIfR L atBlockNumber (glIsNot e))"

definition evalInclusionR :: "('db, 'bm, 'sdb) lib \<Rightarrow> uint64 \<Rightarrow> Inclusion \<Rightarrow> ('bm, 'bm) calling" where
  "evalInclusionR L atBlockNumber e =
     thenR (foldR (\<lambda>v union. thenR (callR (\<lambda>q. sqReadAnnotBitmap q atBlockNumber (inVar e) v))
          (\<lambda>bm. localR (Inr (bmOr L union bm)))) (inclusionValues (inValues e)) (bmNew L))
       (negateIfR L atBlockNumber (inIsNot e))"

definition evalTermR :: "('db, 'bm, 'sdb) lib \<Rightarrow> uint64 \<Rightarrow> ASTTerm \<Rightarrow> ('bm, 'bm) calling" where
  "evalTermR L atBlockNumber t =
     (case tmAssign t of Some e \<Rightarrow> evalEqualityR L atBlockNumber e | None \<Rightarrow>
     (case tmInclusion t of Some e \<Rightarrow> evalInclusionR L atBlockNumber e | None \<Rightarrow>
     (case tmLessThan t of Some e \<Rightarrow> callR (\<lambda>q. evalLessThan L q e) | None \<Rightarrow>
     (case tmLessOrEqualThan t of Some e \<Rightarrow> callR (\<lambda>q. evalLessOrEqualThan q e) | None \<Rightarrow>
     (case tmGreaterThan t of Some e \<Rightarrow> callR (\<lambda>q. evalGreaterThan L q e) | None \<Rightarrow>
     (case tmGreaterOrEqualThan t of Some e \<Rightarrow> callR (\<lambda>q. evalGreaterOrEqualThan q e) | None \<Rightarrow>
     (case tmGlob t of Some e \<Rightarrow> evalGlobR L atBlockNumber e | None \<Rightarrow>
       localR (Inl (Errorf ''unknown AST term: %v'')))))))))"

definition evalAndR :: "('db, 'bm, 'sdb) lib \<Rightarrow> uint64 \<Rightarrow> ASTAnd \<Rightarrow> ('bm, 'bm) calling" where
  "evalAndR L atBlockNumber terms =
     thenR (foldR (\<lambda>t result. thenR (evalTermR L atBlockNumber t) (\<lambda>bm.
          localR (Inr (case result of None \<Rightarrow> Some bm | Some r \<Rightarrow> Some (bmAnd L r bm))))) terms None)
       (\<lambda>result. localR (Inr (case result of None \<Rightarrow> bmNew L | Some r \<Rightarrow> r)))"

definition evalOrR :: "('db, 'bm, 'sdb) lib \<Rightarrow> uint64 \<Rightarrow> ASTOr \<Rightarrow> ('bm, 'bm) calling" where
  "evalOrR L atBlockNumber terms =
     foldR (\<lambda>c result. thenR (evalAndR L atBlockNumber c) (\<lambda>bm. localR (Inr (bmOr L result bm)))) terms (bmNew L)"

definition EvaluateR :: "('db, 'bm, 'sdb) lib \<Rightarrow> uint64 \<Rightarrow> AST \<Rightarrow> ('bm, 'bm) calling" where
  "EvaluateR L atBlockNumber ast =
     (case ast of None \<Rightarrow> callR (\<lambda>q. sqAllEntities q atBlockNumber) | Some e \<Rightarrow> evalOrR L atBlockNumber e)"

section \<open>On one state\<close>

text \<open>When every call is answered by the same querier, this is the evaluation of \<open>Query_Eval\<close>.\<close>

definition answersAs :: "('bm, 'a) calling \<Rightarrow> 'bm StoreQuerier \<Rightarrow> 'a res \<Rightarrow> bool" where
  "answersAs m q r \<longleftrightarrow> (\<forall>k. fst (m (\<lambda>_. q) k) = r)"

named_theorems as_intros \<open>answers of computations on one querier\<close>

lemma answersAs_basic [as_intros]:
  "answersAs (localR r) q r" "answersAs (callR f) q (f q)"
  by (simp_all add: answersAs_def localR_def callR_def)

lemma answersAs_then [as_intros]:
  assumes "answersAs m q r" "\<And>x. answersAs (f x) q (g x)"
  shows "answersAs (thenR m f) q (andThen r g)"
  unfolding answersAs_def
proof
  fix k
  obtain y k' where "m (\<lambda>_. q) k = (y, k')" by fastforce
  moreover from this have "y = r" using assms(1) by (metis answersAs_def fst_conv)
  ultimately show "fst (thenR m f (\<lambda>_. q) k) = andThen r g"
    using assms(2) by (cases r) (simp_all add: thenR_def answersAs_def)
qed

lemma answersAs_fold [as_intros]:
  "(\<And>x a. answersAs (f x a) q (g x a)) \<Longrightarrow> answersAs (foldR f xs a) q (foldRes g xs a)"
  by (induction xs arbitrary: a) (auto intro: as_intros)

lemma negateIfR_as [as_intros]: "answersAs (negateIfR L n isNot bm) q (negateIf L q n isNot bm)"
  by (auto simp: negateIfR_def negateIf_def intro: as_intros)

lemma evalGlobR_as [as_intros]: "answersAs (evalGlobR L n e) q (evalGlob L q n e)"
proof -
  let ?r = "case isPrefixGlob (glValue e) of Some p \<Rightarrow> Inr (sqIteratePrefixAnnotBitmaps q (glVar e) p)
    | None \<Rightarrow> Inr (sqIterateGlobAnnotBitmaps q (glVar e) (glValue e))"
  have "evalGlob L q n e = andThen ?r (negateIf L q n (glIsNot e))"
    by (simp add: evalGlob_def split: option.split)
  then show ?thesis unfolding evalGlobR_def by (auto intro!: as_intros)
qed

lemma evalTermR_as [as_intros]: "answersAs (evalTermR L n t) q (evalTerm L q n t)"
  by (auto simp: evalTermR_def evalTerm_def evalEqualityR_def evalEquality_def evalInclusionR_def evalInclusion_def
      split: option.split intro!: as_intros)

lemma evalAndR_as [as_intros]: "answersAs (evalAndR L n ts) q (evalAnd L q n ts)"
  unfolding evalAndR_def evalAnd_def by (intro as_intros)

lemma EvaluateR_as: "answersAs (EvaluateR L n ast) q (Evaluate L q n ast)"
  by (auto simp: EvaluateR_def Evaluate_def evalOrR_def evalOr_def split: option.split intro!: as_intros)

section \<open>On changing states\<close>

text \<open>Whenever it is started, the computation returns a result that satisfies \<open>Q\<close>.\<close>

definition yields :: "(nat \<Rightarrow> 'bm StoreQuerier) \<Rightarrow> ('bm, 'a) calling \<Rightarrow> ('a \<Rightarrow> bool) \<Rightarrow> bool" where
  "yields qs m Q \<longleftrightarrow> (\<forall>k. \<exists>x k'. m qs k = (Inr x, k') \<and> Q x)"

lemma yields_local: "Q x \<Longrightarrow> yields qs (localR (Inr x)) Q"
  by (simp add: yields_def localR_def)

lemma yields_call: "(\<And>k. \<exists>x. f (qs k) = Inr x \<and> Q x) \<Longrightarrow> yields qs (callR f) Q"
  by (fastforce simp: yields_def callR_def)

lemma yields_then: "yields qs m P \<Longrightarrow> (\<And>x. P x \<Longrightarrow> yields qs (f x) Q) \<Longrightarrow> yields qs (thenR m f) Q"
  unfolding yields_def thenR_def by (metis (no_types, lifting) case_prod_conv sum.simps(6))

lemma yields_fold:
  assumes "\<And>ys x a. x \<in> set xs \<Longrightarrow> I ys a \<Longrightarrow> yields qs (f x a) (I (ys @ [x]))"
  shows "I ys a \<Longrightarrow> yields qs (foldR f xs a) (I (ys @ xs))"
  using assms
proof (induction xs arbitrary: ys a)
  case (Cons x xs)
  have "yields qs (foldR f xs b) (I ((ys @ [x]) @ xs))" if "I (ys @ [x]) b" for b
    by (rule Cons.IH[OF that]) (use Cons.prems(2) in simp)
  then show ?case using Cons.prems yields_then[of qs "f x a" "I (ys @ [x])" "foldR f xs"] by simp
qed (simp add: yields_local)

text \<open>
  As long as every state represents the same pairs at the block, the numbers are those of that block, whatever
  else changes in between.
\<close>

context store_querier begin

lemma callR_set:
  assumes r: "\<And>k. pointRep L U (ss k) n A"
  shows "yields (\<lambda>k. querier L (ss k)) (callR (\<lambda>q. sqAllEntities q n)) (\<lambda>all. bmSet L all = Domain A)"
    and "pair key v \<in> U \<Longrightarrow> yields (\<lambda>k. querier L (ss k)) (callR (\<lambda>q. sqReadAnnotBitmap q n key v))
      (\<lambda>b. bmSet L b = collect A (\<lambda>ps. hasValue ps key (\<lambda>x. x = v)))"
  by (rule yields_call, rule all_entities[OF r]) (rule yields_call, rule read_bitmap[OF r])

lemma negateIfR_set:
  assumes r: "\<And>k. pointRep L U (ss k) n A" and b: "bmSet L b = collect A P"
  shows "yields (\<lambda>k. querier L (ss k)) (negateIfR L n isNot b) (\<lambda>b'. bmSet L b' = collect A (\<lambda>ps. P ps \<noteq> isNot))"
proof (cases isNot)
  case True
  have "yields (\<lambda>k. querier L (ss k)) (thenR (callR (\<lambda>q. sqAllEntities q n)) (\<lambda>all. localR (Inr (bmAndNot L all b))))
      (\<lambda>b'. bmSet L b' = Domain A - collect A P)"
    by (rule yields_then[OF callR_set(1)[OF r]])
      (simp add: yields_local bmSet_simps[OF roaring[OF r]] b)
  then show ?thesis using True by (simp add: negateIfR_def collect_ops(3)[OF functional[OF r]])
qed (simp add: negateIfR_def b yields_local)

lemma evalInclusionR_set:
  assumes r: "\<And>k. pointRep L U (ss k) n A" and v: "\<forall>v \<in> set (inclusionValues (inValues e)). pair (inVar e) v \<in> U"
  shows "yields (\<lambda>k. querier L (ss k)) (evalInclusionR L n e)
    (\<lambda>b. bmSet L b = collect A (\<lambda>ps. hasValue ps (inVar e) (\<lambda>x. x \<in> set (inclusionValues (inValues e))) \<noteq> inIsNot e))"
proof -
  let ?vs = "inclusionValues (inValues e)"
  let ?I = "\<lambda>vs b. bmSet L b = collect A (\<lambda>ps. hasValue ps (inVar e) (\<lambda>x. x \<in> set vs))"
  have "?I [] (bmNew L)" by (simp add: bmSet_simps[OF roaring[OF r]] collect_ops)
  moreover have "yields (\<lambda>k. querier L (ss k)) (thenR (callR (\<lambda>q. sqReadAnnotBitmap q n (inVar e) v))
      (\<lambda>bm. localR (Inr (bmOr L u bm)))) (?I (vs @ [v]))" if "v \<in> set ?vs" "?I vs u" for v vs u
  proof (rule yields_then[OF callR_set(2)[OF r]])
    show "pair (inVar e) v \<in> U" using \<open>v \<in> set ?vs\<close> assms(2) by simp
    show "yields (\<lambda>k. querier L (ss k)) (localR (Inr (bmOr L u b))) (?I (vs @ [v]))"
      if "bmSet L b = collect A (\<lambda>ps. hasValue ps (inVar e) (\<lambda>x. x = v))" for b
      using that \<open>?I vs u\<close>
      by (intro yields_local)
        (simp add: bmSet_simps[OF roaring[OF r]] collect_ops(1) hasValue_disj disj_commute)
  qed
  ultimately have "yields (\<lambda>k. querier L (ss k)) (foldR (\<lambda>v union. thenR (callR (\<lambda>q. sqReadAnnotBitmap q n (inVar e) v))
      (\<lambda>bm. localR (Inr (bmOr L union bm)))) ?vs (bmNew L)) (?I ([] @ ?vs))"
    by (intro yields_fold[where I = ?I]) auto
  then show ?thesis unfolding evalInclusionR_def append_Nil
    by (rule yields_then) (rule negateIfR_set[OF r])
qed

lemma evalPointR_set:
  assumes r: "\<And>k. pointRep L U (ss k) n A" and t: "pointTerm U t"
  shows "yields (\<lambda>k. querier L (ss k)) (evalTermR L n t) (\<lambda>b. bmSet L b = collect A (\<lambda>ps. satTerm ps t))"
proof (cases "tmAssign t")
  case (Some e)
  with t obtain v where v: "annotVal (eqValue e) = Inr v" "pair (eqVar e) v \<in> U"
    by (auto simp: pointTerm_def split: sum.splits)
  have "yields (\<lambda>k. querier L (ss k)) (thenR (callR (\<lambda>q. sqReadAnnotBitmap q n (eqVar e) v)) (negateIfR L n (eqIsNot e)))
      (\<lambda>b. bmSet L b = collect A (\<lambda>ps. hasValue ps (eqVar e) (\<lambda>x. x = v) \<noteq> eqIsNot e))"
    by (rule yields_then[OF callR_set(2)[OF r v(2)]]) (rule negateIfR_set[OF r])
  then have "yields (\<lambda>k. querier L (ss k)) (evalEqualityR L n e)
      (\<lambda>b. bmSet L b = collect A (\<lambda>ps. hasValue ps (eqVar e) (\<lambda>x. x = v) \<noteq> eqIsNot e))"
    unfolding evalEqualityR_def v(1) by (intro yields_then[OF yields_local[where Q = "\<lambda>x. x = v", OF refl]]) simp
  then show ?thesis by (simp add: evalTermR_def Some v(1) satTerm_def)
next
  case None
  with t obtain e where e: "tmInclusion t = Some e" "\<forall>v \<in> set (inclusionValues (inValues e)). pair (inVar e) v \<in> U"
    by (auto simp: pointTerm_def split: option.splits)
  from evalInclusionR_set[of L U ss n A e, OF r e(2)] None e(1) show ?thesis by (simp add: evalTermR_def satTerm_def)
qed

lemma evalAndR_set:
  assumes r: "\<And>k. pointRep L U (ss k) n A" and t: "\<forall>t \<in> set ts. pointTerm U t" and ne: "ts \<noteq> []"
  shows "yields (\<lambda>k. querier L (ss k)) (evalAndR L n ts) (\<lambda>b. bmSet L b = collect A (\<lambda>ps. \<forall>t \<in> set ts. satTerm ps t))"
proof -
  let ?I = "\<lambda>us result. case result of None \<Rightarrow> us = []
    | Some b \<Rightarrow> us \<noteq> [] \<and> bmSet L b = collect A (\<lambda>ps. \<forall>t \<in> set us. satTerm ps t)"
  let ?f = "\<lambda>t result. thenR (evalTermR L n t) (\<lambda>bm.
    localR (Inr (case result of None \<Rightarrow> Some bm | Some r \<Rightarrow> Some (bmAnd L r bm))))"
  have "yields (\<lambda>k. querier L (ss k)) (?f t result) (?I (us @ [t]))" if "t \<in> set ts" "?I us result" for t us result
  proof (rule yields_then[OF evalPointR_set[OF r]])
    show "pointTerm U t" using that(1) assms(2) by simp
    show "yields (\<lambda>k. querier L (ss k)) (localR (Inr (case result of None \<Rightarrow> Some b | Some r \<Rightarrow> Some (bmAnd L r b)))) (?I (us @ [t]))"
      if "bmSet L b = collect A (\<lambda>ps. satTerm ps t)" for b
      using that \<open>?I us result\<close>
      by (intro yields_local) (auto simp: bmSet_simps[OF roaring[OF r]] collect_ops(2)[OF functional[OF r]] conj_commute
        split: option.splits)
  qed
  then have "yields (\<lambda>k. querier L (ss k)) (foldR ?f ts None) (?I ([] @ ts))"
    by (intro yields_fold[where I = ?I]) auto
  then show ?thesis unfolding evalAndR_def append_Nil
    by (rule yields_then) (use ne in \<open>auto intro: yields_local split: option.splits\<close>)
qed

lemma EvaluateR_set:
  assumes r: "\<And>k. pointRep L U (ss k) n A" and ok: "astOk (pointTerm U) ast"
  shows "yields (\<lambda>k. querier L (ss k)) (EvaluateR L n ast) (\<lambda>b. bmSet L b = collect A (\<lambda>ps. satAST ps ast))"
proof (cases ast)
  case None
  then show ?thesis using callR_set(1)[OF r] by (simp add: EvaluateR_def satAST_def collect_ops)
next
  case (Some cs)
  let ?I = "\<lambda>ds b. bmSet L b = collect A (\<lambda>ps. satTerms (satTerm ps) ds)"
  let ?f = "\<lambda>c result. thenR (evalAndR L n c) (\<lambda>bm. localR (Inr (bmOr L result bm)))"
  have "?I [] (bmNew L)" by (simp add: bmSet_simps[OF roaring[OF r]] collect_ops satTerms_def)
  moreover have "yields (\<lambda>k. querier L (ss k)) (?f c u) (?I (ds @ [c]))" if "c \<in> set cs" "?I ds u" for c ds u
  proof (rule yields_then[OF evalAndR_set[OF r]])
    show "\<forall>t \<in> set c. pointTerm U t" "c \<noteq> []" using \<open>c \<in> set cs\<close> ok by (auto simp: astOk_def Some)
    show "yields (\<lambda>k. querier L (ss k)) (localR (Inr (bmOr L u b))) (?I (ds @ [c]))"
      if "bmSet L b = collect A (\<lambda>ps. \<forall>t \<in> set c. satTerm ps t)" for b
      using that \<open>?I ds u\<close>
      by (intro yields_local) (simp add: bmSet_simps[OF roaring[OF r]] collect_ops(1) satTerms_def disj_commute)
  qed
  ultimately have "yields (\<lambda>k. querier L (ss k)) (foldR ?f cs (bmNew L)) (?I ([] @ cs))"
    by (intro yields_fold[where I = ?I]) auto
  then show ?thesis by (simp add: Some EvaluateR_def evalOrR_def satAST_def)
qed

end

end
