(* ===== verification/Isolation.thy ===== *)
theory Isolation
  imports Locking Interleaved_Eval
begin

text \<open>
  The store while requests of the chain ingest API are under way: its writer, and the chain that it represents at
  every moment.
\<close>

section \<open>The store and its writer\<close>

text \<open>
  Next to the store and the lock, the chain that the store represents now, in the middle of a reorganisation also.
  A commit takes the lock for each block, a revert once, a reorganisation once for both.
\<close>

record 'db sharedState =
  shStore :: "'db Store"
  shWriter :: writer
  shChain :: "frame list"

fun chainAfter :: "('db, 'bm, 'sdb) lib \<Rightarrow> writer \<Rightarrow> writer \<Rightarrow> frame list \<Rightarrow> frame list" where
  "chainAfter L (ToRevert refs blocks) (ToApply blocks') fs = drop (length refs) fs"
| "chainAfter L (ToApply (block # blocks)) (ToApply blocks') fs =
    (case absBlock L block (headState fs) of None \<Rightarrow> fs | Some st \<Rightarrow> pushFrame block st # fs)"
| "chainAfter L w w' fs = fs"

inductive shared_step ::
    "('db, 'bm, 'sdb) lib \<Rightarrow> annotPair set \<Rightarrow> bytes set \<Rightarrow> 'db sharedState \<Rightarrow> 'db sharedState \<Rightarrow> bool"
  for L U H where
  acquire_commit: "shWriter y = Free \<Longrightarrow> feed_ok L U H (shStore y) (shChain y) [block] \<Longrightarrow>
    shared_step L U H y (y\<lparr>shWriter := ToApply [block]\<rparr>)"
| acquire_reorg: "shWriter y = Free \<Longrightarrow> refs_ok L (shStore y) (shChain y) refs \<Longrightarrow>
    feed_ok L U H (afterRevert L (shStore y) refs) (drop (length refs) (shChain y)) blocks \<Longrightarrow>
    shared_step L U H y (y\<lparr>shWriter := ToRevert refs blocks\<rparr>)"
| writes: "writer_step L (shStore y, shWriter y) (s', w') \<Longrightarrow>
    shared_step L U H y (y\<lparr>shStore := s', shWriter := w', shChain := chainAfter L (shWriter y) w' (shChain y)\<rparr>)"

abbreviation shared_steps ::
    "('db, 'bm, 'sdb) lib \<Rightarrow> annotPair set \<Rightarrow> bytes set \<Rightarrow> 'db sharedState \<Rightarrow> 'db sharedState \<Rightarrow> bool" where
  "shared_steps L U H \<equiv> (shared_step L U H)\<^sup>*\<^sup>*"

section \<open>Every state of it represents its chain\<close>

fun pending_ok ::
    "('db, 'bm, 'sdb) lib \<Rightarrow> annotPair set \<Rightarrow> bytes set \<Rightarrow> 'db Store \<Rightarrow> frame list \<Rightarrow> writer \<Rightarrow> bool" where
  "pending_ok L U H s fs Free \<longleftrightarrow> True"
| "pending_ok L U H s fs (ToApply blocks) \<longleftrightarrow> feed_ok L U H s fs blocks"
| "pending_ok L U H s fs (ToRevert refs blocks) \<longleftrightarrow>
    refs_ok L s fs refs \<and> feed_ok L U H (afterRevert L s refs) (drop (length refs) fs) blocks"

definition shared_inv ::
    "('db, 'bm, 'sdb) lib \<Rightarrow> annotPair set \<Rightarrow> bytes set \<Rightarrow> 'db sharedState \<Rightarrow> bool" where
  "shared_inv L U H y \<longleftrightarrow>
     chain_inv L U H (shStore y) (shChain y) \<and> pending_ok L U H (shStore y) (shChain y) (shWriter y)"

lemma apply_chain:
  assumes ok: "lib_ok L" and h: "hash_ok L U H" and inv: "chain_inv L U H s fs"
    and feed: "feed_ok L U H s fs (block # blocks)" and r: "processBlock L s block = Inr (root, s')"
  shows "\<exists>st. absBlock L block (headState fs) = Some st \<and> chain_inv L U H s' (pushFrame block st # fs) \<and>
    feed_ok L U H s' (pushFrame block st # fs) blocks"
proof -
  have f: "child_ok fs block" "block_ok L U block (headState fs)" "blobs_in L H s block" using feed by simp_all
  have I: "store_inv L U H s (frTable (hd fs)) (frCount (hd fs))" using inv by (simp add: chain_inv_def)
  obtain st where st: "absBlock L block (headState fs) = Some st"
    using processBlock_error[OF ok h I, of block] f(2) r by (cases "absBlock L block (headState fs)") (auto simp: headState_def)
  with processBlock_chain[OF ok h inv f st r] feed r show ?thesis by simp
qed

lemma writer_step_chain:
  assumes ok: "lib_ok L" and io: "io_ok L" and h: "hash_ok L U H"
    and step: "writer_step L (s, w) (s', w')" and inv: "chain_inv L U H s fs" and pend: "pending_ok L U H s fs w"
  shows "chain_inv L U H s' (chainAfter L w w' fs) \<and> pending_ok L U H s' (chainAfter L w w' fs) w'"
  using step
proof cases
  case (nothing_to_revert blocks)
  then show ?thesis using inv pend by (simp add: afterRevert_def RevertBlocks_def)
next
  case (revert refs blocks)
  then have "afterRevert L s refs = s'" by (simp add: afterRevert_def RevertBlocks_def)
  with revert pend revert_chain(2)[OF ok io h inv, of refs] show ?thesis by simp
next
  case (apply_block block root blocks)
  then show ?thesis using pend apply_chain[OF ok h inv, of block blocks root s'] by auto
qed (use inv in simp_all)

lemma shared_step_inv:
  assumes "lib_ok L" "io_ok L" "hash_ok L U H"
  shows "shared_step L U H y y' \<Longrightarrow> shared_inv L U H y \<Longrightarrow> shared_inv L U H y'"
  by (induction rule: shared_step.induct) (auto simp: shared_inv_def simp del: feed_ok.simps dest: writer_step_chain[OF assms])

lemma shared_steps_inv:
  assumes "lib_ok L" "io_ok L" "hash_ok L U H" "shared_steps L U H y y'" "shared_inv L U H y"
  shows "shared_inv L U H y'"
  using assms(4,5) by (induction rule: rtranclp_induct) (use shared_step_inv[OF assms(1-3)] in blast)+

lemma shared_run_inv:
  assumes "lib_ok L" "io_ok L" "hash_ok L U H" "shared_inv L U H (run 0)" "\<And>k. shared_steps L U H (run k) (run (Suc k))"
  shows "shared_inv L U H (run k)"
  by (induction k) (use assms shared_steps_inv[OF assms(1-3)] in blast)+

end
