(* ===== verification/Split_Reads.thy ===== *)
theory Split_Reads
  imports Isolation
begin

text \<open>
  The methods of \<open>store/query.go\<close> read by read. None of them holds the lock from its first read of the database to its
  last, so each read may find another state of the store: \<open>ss i\<close> is the store of the \<open>i\<close>-th read of a call. An
  iterator of the database is a snapshot of the moment it was made, as the database documents.
\<close>

section \<open>The methods\<close>

text \<open>The head is read under the lock; the other reads of \<open>openStateAt\<close> are of the record of the block and of the state.\<close>

definition openStateAtR :: "('db, 'bm, 'sdb) lib \<Rightarrow> (nat \<Rightarrow> 'db Store) \<Rightarrow> uint64 \<Rightarrow> 'sdb res" where
  "openStateAtR L ss atBlockNumber =
     (if atBlockNumber = 0 then stateNew L (rd L (rawDB (ss 2))) (headRoot (ss 0))
      else andThen (wrapErr ''block %d not found'' (dbGet L (rawDB (ss 0)) (blockNumberKey atBlockNumber)))
        (\<lambda>hb. andThen (wrapErr ''state root not found for block %d''
            (dbGet L (rawDB (ss 1)) (rootKey (BytesToHash hb))))
        (\<lambda>rootBytes. stateNew L (rd L (rawDB (ss 2))) (BytesToHash rootBytes))))"

definition ReadAnnotBitmapR ::
    "('db, 'bm, 'sdb) lib \<Rightarrow> (nat \<Rightarrow> 'db Store) \<Rightarrow> uint64 \<Rightarrow> string \<Rightarrow> string \<Rightarrow> 'bm res" where
  "ReadAnnotBitmapR L ss atBlockNumber key val =
     andThen (openStateAtR L ss atBlockNumber) (\<lambda>sdb.
     let h = sdGetState L sdb (systemAddress L) (annotSlotKey L key val)
     in if h = 0 then Inr (bmNew L)
        else case dbGet L (rawDB (ss 3)) (bitmapKey h) of
            Inl _ \<Rightarrow> Inr (bmNew L)
          | Inr bmBytes \<Rightarrow>
              if length bmBytes = 0 then Inr (bmNew L)
              else wrapErr ''unmarshal bitmap for (%s, %s)'' (bmUnmarshal L bmBytes))"

definition GetEntityBytesR ::
    "('db, 'bm, 'sdb) lib \<Rightarrow> (nat \<Rightarrow> 'db Store) \<Rightarrow> uint64 \<Rightarrow> address \<Rightarrow> bytes res" where
  "GetEntityBytesR L ss atBlockNumber addr =
     andThen (openStateAtR L ss atBlockNumber) (\<lambda>sdb.
     let code = sdGetCode L sdb addr
     in if length code = 0 then Inl (Errorf ''entity not found: %s'') else Inr code)"

text \<open>A scan makes its iterator with its first read; every pointer it follows is a read of its own.\<close>

fun scanNumericR ::
    "('db, 'bm, 'sdb) lib \<Rightarrow> (nat \<Rightarrow> 'db Store) \<Rightarrow> nat \<Rightarrow> nat \<Rightarrow> uint64 \<Rightarrow> (bytes \<times> bytes) list \<Rightarrow> 'bm \<Rightarrow> 'bm" where
  "scanNumericR L ss i plen hi [] result = result"
| "scanNumericR L ss i plen hi ((k, v) # it) result =
     (if length k \<noteq> plen + 8 then scanNumericR L ss i plen hi it result
      else if bytesUint64 (drop plen k) > hi then result
      else scanNumericR L ss (Suc i) plen hi it (orPointer L (ss i) result v))"

definition IterateNumericAnnotBitmapsR ::
    "('db, 'bm, 'sdb) lib \<Rightarrow> (nat \<Rightarrow> 'db Store) \<Rightarrow> string \<Rightarrow> uint64 \<Rightarrow> uint64 \<Rightarrow> 'bm" where
  "IterateNumericAnnotBitmapsR L ss key lo hi =
     (let p = annotKeyPrefix key;
          startSuffix = (if lo > 0 then uint64Bytes lo else [])
      in scanNumericR L ss 1 (length p) hi (dbIter L (rawDB (ss 0)) p startSuffix) (bmNew L))"

fun scanStringR ::
    "('db, 'bm, 'sdb) lib \<Rightarrow> (nat \<Rightarrow> 'db Store) \<Rightarrow> nat \<Rightarrow> nat \<Rightarrow> string option \<Rightarrow> bool \<Rightarrow> string option \<Rightarrow> bool
      \<Rightarrow> (bytes \<times> bytes) list \<Rightarrow> 'bm \<Rightarrow> 'bm" where
  "scanStringR L ss i plen lo loIncl hi hiIncl [] result = result"
| "scanStringR L ss i plen lo loIncl hi hiIncl ((k, v) # it) result =
     (if length k \<le> plen then scanStringR L ss i plen lo loIncl hi hiIncl it result
      else let suffix = drop plen k in
        if lo \<noteq> None \<and> \<not> loIncl \<and> Some suffix = lo then scanStringR L ss i plen lo loIncl hi hiIncl it result
        else if (case hi of None \<Rightarrow> False | Some h \<Rightarrow> suffix > h \<or> suffix = h \<and> \<not> hiIncl) then result
        else scanStringR L ss (Suc i) plen lo loIncl hi hiIncl it (orPointer L (ss i) result v))"

definition IterateStringAnnotBitmapsR ::
    "('db, 'bm, 'sdb) lib \<Rightarrow> (nat \<Rightarrow> 'db Store) \<Rightarrow> string \<Rightarrow> string option \<Rightarrow> bool \<Rightarrow> string option \<Rightarrow> bool \<Rightarrow> 'bm" where
  "IterateStringAnnotBitmapsR L ss key lo loIncl hi hiIncl =
     (let p = annotKeyPrefix key;
          startSuffix = (case lo of Some l \<Rightarrow> l | None \<Rightarrow> [])
      in scanStringR L ss 1 (length p) lo loIncl hi hiIncl (dbIter L (rawDB (ss 0)) p startSuffix) (bmNew L))"

fun scanGlobR ::
    "('db, 'bm, 'sdb) lib \<Rightarrow> (nat \<Rightarrow> 'db Store) \<Rightarrow> nat \<Rightarrow> nat \<Rightarrow> string \<Rightarrow> (bytes \<times> bytes) list \<Rightarrow> 'bm \<Rightarrow> 'bm" where
  "scanGlobR L ss i plen pattern [] result = result"
| "scanGlobR L ss i plen pattern ((k, v) # it) result =
     (if length k \<le> plen then scanGlobR L ss i plen pattern it result
      else if \<not> globMatch pattern (drop plen k) then scanGlobR L ss i plen pattern it result
      else scanGlobR L ss (Suc i) plen pattern it (orPointer L (ss i) result v))"

definition IterateGlobAnnotBitmapsR ::
    "('db, 'bm, 'sdb) lib \<Rightarrow> (nat \<Rightarrow> 'db Store) \<Rightarrow> string \<Rightarrow> string \<Rightarrow> 'bm" where
  "IterateGlobAnnotBitmapsR L ss key pattern =
     (let p = annotKeyPrefix key
      in scanGlobR L ss 1 (length p) pattern (dbIter L (rawDB (ss 0)) p []) (bmNew L))"

text \<open>The methods as those of a querier.\<close>

definition splitQuerier :: "('db, 'bm, 'sdb) lib \<Rightarrow> (nat \<Rightarrow> 'db Store) \<Rightarrow> 'bm StoreQuerier" where
  "splitQuerier L ss =
     \<lparr>sqReadAnnotBitmap = ReadAnnotBitmapR L ss,
      sqAllEntities = (\<lambda>n. ReadAnnotBitmapR L ss n ''$all'' ''true''),
      sqIterateNumericAnnotBitmaps = IterateNumericAnnotBitmapsR L ss,
      sqIterateStringAnnotBitmaps = IterateStringAnnotBitmapsR L ss,
      sqIteratePrefixAnnotBitmaps = (\<lambda>key p. IterateStringAnnotBitmapsR L ss key (Some p) True (prefixSuccessor p) False),
      sqIterateGlobAnnotBitmaps = IterateGlobAnnotBitmapsR L ss\<rparr>"

section \<open>On one state\<close>

lemma scans_const:
  "scanNumericR L (\<lambda>_. s) i plen hi it r = scanNumeric L s plen hi it r"
  "scanStringR L (\<lambda>_. s) i plen lo loIncl shi hiIncl it r = scanString L s plen lo loIncl shi hiIncl it r"
  "scanGlobR L (\<lambda>_. s) i plen pattern it r = scanGlob L s plen pattern it r"
  by (induction it arbitrary: i r) (auto simp: Let_def)

lemma splitQuerier_const: "splitQuerier L (\<lambda>_. s) = storeQuerier L s"
proof -
  have "ReadAnnotBitmapR L (\<lambda>_. s) n k v = ReadAnnotBitmap L s n k v" for n k v
    by (simp add: ReadAnnotBitmapR_def ReadAnnotBitmap_def openStateAtR_def openStateAt_def)
  then show ?thesis
    by (simp add: splitQuerier_def storeQuerier_def fun_eq_iff AllEntities_def IterateNumericAnnotBitmapsR_def
        IterateNumericAnnotBitmaps_def IterateStringAnnotBitmapsR_def IterateStringAnnotBitmaps_def
        IterateGlobAnnotBitmapsR_def IterateGlobAnnotBitmaps_def IteratePrefixAnnotBitmaps_def scans_const Let_def)
qed

section \<open>On a database that keeps its blobs\<close>

definition grows :: "('db, 'bm, 'sdb) lib \<Rightarrow> (nat \<Rightarrow> 'db Store) \<Rightarrow> bool" where
  "grows L ss \<longleftrightarrow> (\<forall>i j. i \<le> j \<longrightarrow> histLe (rd L (rawDB (ss i))) (rd L (rawDB (ss j))))"

text \<open>A pointer of the index leads to a blob, which stays where it is.\<close>

lemma pointer_stays:
  assumes r: "headRep L (ss 0) T" and g: "grows L ss" and e: "(k, v) \<in> set (dbIter L (rawDB (ss 0)) (annotKeyPrefix key) start)"
  shows "orPointer L (ss i) r v = orPointer L (ss 0) r v"
proof -
  let ?g = "rd L (rawDB (ss 0))"
  obtain U H m sdb where c: "consistent L U H ?g sdb T m" and ok: "lib_ok L"
    using r unfolding headRep_def store_inv_def by blast
  have k: "?g k = Some v" "prefix prefixAnnot k"
    using e ok unfolding lib_ok_def kv_ok_def by (auto simp: annotKeyPrefix_def prefix_def)
  then have "k \<in> annotKeyP ` U" using c by (auto simp: consistent_def index_keys_ok_def)
  then obtain p where p: "p \<in> U" "k = annotKeyP p" by blast
  then have "ptr_ok L ?g sdb p (idsOf L T p)" using c by (simp add: consistent_def)
  then obtain h bs where h: "v = hashBytes h" "?g (bitmapKey h) = Some bs" using k p(2) by (auto simp: ptr_ok_def)
  then have "rd L (rawDB (ss i)) (bitmapKey h) = Some bs" using g unfolding grows_def histLe_def by blast
  with h show ?thesis by (simp add: orPointer_def loadBitmapFromPointer_def dbGet_rd)
qed

lemma scans_stay:
  assumes "\<forall>v \<in> snd ` set it. \<forall>i r. orPointer L (ss i) r v = orPointer L s r v"
  shows "scanNumericR L ss i plen hi it r = scanNumeric L s plen hi it r"
    and "scanStringR L ss i plen lo loIncl shi hiIncl it r = scanString L s plen lo loIncl shi hiIncl it r"
    and "scanGlobR L ss i plen pattern it r = scanGlob L s plen pattern it r"
proof -
  have "scanNumericR L ss i plen hi it r = scanNumeric L s plen hi it r \<and>
    scanStringR L ss i plen lo loIncl shi hiIncl it r = scanString L s plen lo loIncl shi hiIncl it r \<and>
    scanGlobR L ss i plen pattern it r = scanGlob L s plen pattern it r" for i r
    using assms
  proof (induction it arbitrary: i r)
    case (Cons e it)
    obtain k v where e: "e = (k, v)" by (cases e)
    have o: "orPointer L (ss i) r v = orPointer L s r v" for i r using Cons.prems e by simp
    have IH: "scanNumericR L ss i plen hi it r = scanNumeric L s plen hi it r"
      "scanStringR L ss i plen lo loIncl shi hiIncl it r = scanString L s plen lo loIncl shi hiIncl it r"
      "scanGlobR L ss i plen pattern it r = scanGlob L s plen pattern it r" for i r
      using Cons.IH[of i r] Cons.prems by simp_all
    show ?case unfolding e scanNumericR.simps scanStringR.simps scanGlobR.simps scanNumeric.simps scanString.simps
      scanGlob.simps IH o by (intro conjI refl)
  qed simp
  then show "scanNumericR L ss i plen hi it r = scanNumeric L s plen hi it r"
    "scanStringR L ss i plen lo loIncl shi hiIncl it r = scanString L s plen lo loIncl shi hiIncl it r"
    "scanGlobR L ss i plen pattern it r = scanGlob L s plen pattern it r" by blast+
qed

text \<open>A scan gives what it would have given when it made its iterator.\<close>

lemma split_scans:
  assumes "headRep L (ss 0) T" "grows L ss"
  shows "IterateNumericAnnotBitmapsR L ss key lo hi = IterateNumericAnnotBitmaps L (ss 0) key lo hi"
    and "IterateStringAnnotBitmapsR L ss key slo loIncl shi hiIncl = IterateStringAnnotBitmaps L (ss 0) key slo loIncl shi hiIncl"
    and "IterateGlobAnnotBitmapsR L ss key pattern = IterateGlobAnnotBitmaps L (ss 0) key pattern"
proof -
  have p: "\<forall>v \<in> snd ` set (dbIter L (rawDB (ss 0)) (annotKeyPrefix key) st). \<forall>i r. orPointer L (ss i) r v = orPointer L (ss 0) r v" for st
  proof (intro ballI allI)
    fix v i r assume "v \<in> snd ` set (dbIter L (rawDB (ss 0)) (annotKeyPrefix key) st)"
    then obtain k where "(k, v) \<in> set (dbIter L (rawDB (ss 0)) (annotKeyPrefix key) st)" by force
    from pointer_stays[OF assms this] show "orPointer L (ss i) r v = orPointer L (ss 0) r v" .
  qed
  show "IterateNumericAnnotBitmapsR L ss key lo hi = IterateNumericAnnotBitmaps L (ss 0) key lo hi"
    "IterateStringAnnotBitmapsR L ss key slo loIncl shi hiIncl = IterateStringAnnotBitmaps L (ss 0) key slo loIncl shi hiIncl"
    "IterateGlobAnnotBitmapsR L ss key pattern = IterateGlobAnnotBitmaps L (ss 0) key pattern"
    unfolding IterateNumericAnnotBitmapsR_def IterateNumericAnnotBitmaps_def IterateStringAnnotBitmapsR_def
      IterateStringAnnotBitmaps_def IterateGlobAnnotBitmapsR_def IterateGlobAnnotBitmaps_def Let_def
    by (rule scans_stay[OF p])+
qed

text \<open>The root a read at a block opens: that of the head at the first read, or the one on record.\<close>

definition splitRoot :: "('db, 'bm, 'sdb) lib \<Rightarrow> (nat \<Rightarrow> 'db Store) \<Rightarrow> uint64 \<Rightarrow> hash \<Rightarrow> bool" where
  "splitRoot L ss n r \<longleftrightarrow>
     (if n = 0 then r = headRoot (ss 0)
      else \<exists>hb rb. rd L (rawDB (ss 0)) (blockNumberKey n) = Some hb \<and>
        rd L (rawDB (ss 1)) (rootKey (BytesToHash hb)) = Some rb \<and> r = BytesToHash rb)"

definition splitRep :: "('db, 'bm, 'sdb) lib \<Rightarrow> annotPair set \<Rightarrow> (nat \<Rightarrow> 'db Store) \<Rightarrow> uint64 \<Rightarrow> table \<Rightarrow> bool" where
  "splitRep L U ss n T \<longleftrightarrow> lib_ok L \<and> pair ''$all'' ''true'' \<in> U \<and> grows L ss \<and>
     (\<exists>r m. splitRoot L ss n r \<and> root_ok L U (rd L (rawDB (ss 1))) r T m)"

lemma openStateAtR_root: "splitRoot L ss n r \<Longrightarrow> openStateAtR L ss n = stateNew L (rd L (rawDB (ss 2))) r"
  by (auto simp: splitRoot_def openStateAtR_def dbGet_rd split: if_splits)

lemma splitRep_opens:
  assumes r: "splitRep L U ss n T"
  obtains sdb m where "openStateAtR L ss n = Inr sdb" "table_ok L U T" "\<And>a. code_ok L sdb a (T a)"
    "\<And>p. p \<in> U \<Longrightarrow> hist_ptr L (rd L (rawDB (ss 2))) sdb p (idsOf L T p)"
proof -
  obtain root m where o: "splitRoot L ss n root" "root_ok L U (rd L (rawDB (ss 1))) root T m" and ok: "lib_ok L"
    and g: "grows L ss" using r by (auto simp: splitRep_def)
  have "root_ok L U (rd L (rawDB (ss 2))) root T m" by (rule root_ok_mono[OF ok o(2)]) (use g in \<open>simp add: grows_def\<close>)
  then obtain sdb where "stateNew L (rd L (rawDB (ss 2))) root = Inr sdb" "table_ok L U T" "\<And>a. code_ok L sdb a (T a)"
    "\<And>p. p \<in> U \<Longrightarrow> hist_ptr L (rd L (rawDB (ss 2))) sdb p (idsOf L T p)"
    unfolding root_ok_def by blast
  then show thesis using openStateAtR_root[OF o(1)] that by simp
qed

lemma ReadAnnotBitmapR_set:
  assumes r: "splitRep L U ss n T" and p: "pair k v \<in> U"
  shows "\<exists>b. ReadAnnotBitmapR L ss n k v = Inr b \<and> bmSet L b = collect (tableRel L T) (\<lambda>ps. hasValue ps k (\<lambda>x. x = v))"
proof -
  have ok: "lib_ok L" and g: "grows L ss" using r by (simp_all add: splitRep_def)
  obtain sdb where s: "openStateAtR L ss n = Inr sdb" "hist_ptr L (rd L (rawDB (ss 2))) sdb (pair k v) (idsOf L T (pair k v))"
    using splitRep_opens[OF r] p by metis
  from s(2) consider "slotOf L sdb (pair k v) = 0" "idsOf L T (pair k v) = {}"
    | bs b where "slotOf L sdb (pair k v) \<noteq> 0" "rd L (rawDB (ss 2)) (bitmapKey (slotOf L sdb (pair k v))) = Some bs"
      "bs \<noteq> []" "bmUnmarshal L bs = Inr b" "bmSet L b = idsOf L T (pair k v)"
    unfolding hist_ptr_def by blast
  then show ?thesis
  proof cases
    case 1
    then show ?thesis unfolding idsOf_collect
      by (simp add: ReadAnnotBitmapR_def s(1) slotOf_def bmSet_simps[OF lib_okD(2)[OF ok]])
  next
    case 2
    have "histLe (rd L (rawDB (ss 2))) (rd L (rawDB (ss 3)))" using g by (simp add: grows_def)
    then have "dbGet L (rawDB (ss 3)) (bitmapKey (slotOf L sdb (pair k v))) = Inr bs"
      using 2(2) by (simp add: dbGet_rd[symmetric] histLe_def)
    with 2 show ?thesis unfolding idsOf_collect
      by (intro exI[of _ b]) (simp add: ReadAnnotBitmapR_def s(1) slotOf_def)
  qed
qed

lemma GetEntityBytesR_set:
  assumes r: "splitRep L U ss n T"
  shows "case T a of None \<Rightarrow> GetEntityBytesR L ss n a = Inl (Errorf ''entity not found: %s'')
    | Some (i, e) \<Rightarrow> \<exists>bs. GetEntityBytesR L ss n a = Inr bs \<and> rlpDecode L bs = Inr e"
proof -
  obtain sdb where s: "openStateAtR L ss n = Inr sdb" "code_ok L sdb a (T a)" using splitRep_opens[OF r] by metis
  then show ?thesis by (auto simp: GetEntityBytesR_def Let_def code_ok_def split: option.splits)
qed

section \<open>The contract\<close>

definition splitPoint ::
    "('db, 'bm, 'sdb) lib \<Rightarrow> annotPair set \<Rightarrow> (nat \<Rightarrow> 'db Store) \<Rightarrow> uint64 \<Rightarrow> (uint64 \<times> annotPair list) set \<Rightarrow> bool" where
  "splitPoint L U ss n A \<longleftrightarrow> (\<exists>T. splitRep L U ss n T \<and> A = tableRel L T)"

definition splitScan :: "('db, 'bm, 'sdb) lib \<Rightarrow> (nat \<Rightarrow> 'db Store) \<Rightarrow> (uint64 \<times> annotPair list) set \<Rightarrow> bool" where
  "splitScan L ss A \<longleftrightarrow> scanRep L (ss 0) A \<and> grows L ss"

lemma splitScan_eq:
  assumes "splitScan L ss A"
  shows "sqIterateNumericAnnotBitmaps (splitQuerier L ss) = sqIterateNumericAnnotBitmaps (storeQuerier L (ss 0))"
    "sqIterateStringAnnotBitmaps (splitQuerier L ss) = sqIterateStringAnnotBitmaps (storeQuerier L (ss 0))"
    "sqIteratePrefixAnnotBitmaps (splitQuerier L ss) = sqIteratePrefixAnnotBitmaps (storeQuerier L (ss 0))"
    "sqIterateGlobAnnotBitmaps (splitQuerier L ss) = sqIterateGlobAnnotBitmaps (storeQuerier L (ss 0))"
proof -
  obtain T where "headRep L (ss 0) T" "grows L ss" using assms by (auto simp: splitScan_def scanRep_def)
  note e = split_scans[OF this]
  show "sqIterateNumericAnnotBitmaps (splitQuerier L ss) = sqIterateNumericAnnotBitmaps (storeQuerier L (ss 0))"
    "sqIterateStringAnnotBitmaps (splitQuerier L ss) = sqIterateStringAnnotBitmaps (storeQuerier L (ss 0))"
    "sqIteratePrefixAnnotBitmaps (splitQuerier L ss) = sqIteratePrefixAnnotBitmaps (storeQuerier L (ss 0))"
    "sqIterateGlobAnnotBitmaps (splitQuerier L ss) = sqIterateGlobAnnotBitmaps (storeQuerier L (ss 0))"
    by (simp_all add: splitQuerier_def storeQuerier_def fun_eq_iff e IteratePrefixAnnotBitmaps_def)
qed

interpretation split: store_querier splitQuerier splitPoint splitScan
proof (unfold_locales, goal_cases)
  case (1 L U ss n A)
  then show ?case by (auto simp: splitPoint_def splitRep_def)
next
  case (2 L U ss n A)
  then obtain T where "splitRep L U ss n T" "A = tableRel L T" by (auto simp: splitPoint_def)
  then show ?case using splitRep_opens single_valued_tableRel by metis
next
  case (3 L U ss n A k v)
  then show ?case using ReadAnnotBitmapR_set by (auto simp: splitPoint_def splitQuerier_def)
next
  case (4 L U ss n A)
  then obtain T where T: "splitRep L U ss n T" "A = tableRel L T" by (auto simp: splitPoint_def)
  then have "pair ''$all'' ''true'' \<in> U" by (simp add: splitRep_def)
  from ReadAnnotBitmapR_set[OF T(1) this] show ?case by (simp add: splitQuerier_def collect_all T(2))
next
  case (5 L ss A k lo hi)
  then show ?case by (simp add: splitScan_eq[OF 5(1)] splitScan_def sq.numeric_scan)
next
  case (6 L ss A k slo loIncl shi hiIncl)
  then show ?case by (simp add: splitScan_eq[OF 6(1)] splitScan_def sq.string_scan)
next
  case (7 L ss A k p)
  then show ?case by (simp add: splitScan_eq[OF 7(1)] splitScan_def sq.prefix_scan)
next
  case (8 L ss A k pat)
  then show ?case by (simp add: splitScan_eq[OF 8(1)] splitScan_def sq.glob_scan)
qed

section \<open>Beside the writer\<close>

lemma apply_histLe:
  assumes ok: "lib_ok L" and h: "hash_ok L U H" and inv: "chain_inv L U H s fs"
    and feed: "feed_ok L U H s fs (block # blocks)" and r: "processBlock L s block = Inr (root, s')"
  shows "histLe (rd L (rawDB s)) (rd L (rawDB s'))"
proof -
  have f: "block_ok L U block (headState fs)" "blobs_in L H s block" using feed by simp_all
  have I: "store_inv L U H s (frTable (hd fs)) (frCount (hd fs))" using inv by (simp add: chain_inv_def)
  obtain T' n' where "absBlock L block (headState fs) = Some (T', n')"
    using apply_chain[OF ok h inv feed r] by force
  from processBlock_histLe[OF ok h I f(1)[unfolded headState_def] this[unfolded headState_def] f(2) r] show ?thesis .
qed

lemma writer_step_histLe:
  assumes ok: "lib_ok L" and io: "io_ok L" and h: "hash_ok L U H"
    and step: "writer_step L (s, w) (s', w')" and inv: "chain_inv L U H s fs" and pend: "pending_ok L U H s fs w"
  shows "histLe (rd L (rawDB s)) (rd L (rawDB s'))"
  using step
proof cases
  case (revert refs blocks)
  have "store_inv L U H s (frTable (hd fs)) (frCount (hd fs))" using inv by (simp add: chain_inv_def)
  from revert_head(5)[OF ok h this revert(4)] show ?thesis .
next
  case (apply_block block root blocks)
  then show ?thesis using pend apply_histLe[OF ok h inv, of block blocks root s'] by auto
qed simp_all

lemma shared_steps_histLe:
  assumes "lib_ok L" "io_ok L" "hash_ok L U H" "shared_steps L U H y y'" "shared_inv L U H y"
  shows "histLe (rd L (rawDB (shStore y))) (rd L (rawDB (shStore y')))"
  using assms(4)
proof (induction rule: rtranclp_induct)
  case (step y1 y2)
  have inv: "shared_inv L U H y1" by (rule shared_steps_inv[OF assms(1-3) step.hyps(1) assms(5)])
  have "histLe (rd L (rawDB (shStore y1))) (rd L (rawDB (shStore y2)))"
    using step.hyps(2)
  proof cases
    case (writes s' w')
    then show ?thesis using writer_step_histLe[OF assms(1-3) writes(2), of "shChain y1"] inv by (simp add: shared_inv_def)
  qed simp_all
  with step.IH show ?case by (rule histLe_trans)
qed simp

text \<open>The reads of a call fall on moments of a run, in their order.\<close>

lemma run_steps: "(\<And>k. shared_steps L U H (run k) (run (Suc k))) \<Longrightarrow> i \<le> j \<Longrightarrow> shared_steps L U H (run i) (run j)"
  by (induction j) (auto simp: le_Suc_eq intro: rtranclp_trans)

lemma run_grows:
  assumes "lib_ok L" "io_ok L" "hash_ok L U H" "shared_inv L U H (run 0)" "\<And>k. shared_steps L U H (run k) (run (Suc k))" "mono t"
  shows "grows L (\<lambda>i. shStore (run (t i)))"
  unfolding grows_def
proof (intro allI impI)
  fix i j :: nat assume "i \<le> j"
  then have "shared_steps L U H (run (t i)) (run (t j))" using run_steps[of L U H run, OF assms(5)] assms(6) by (simp add: mono_def)
  from shared_steps_histLe[OF assms(1-3) this shared_run_inv[OF assms(1-5)]]
  show "histLe (rd L (rawDB (shStore (run (t i))))) (rd L (rawDB (shStore (run (t j)))))" .
qed

lemma run_past:
  assumes ok: "lib_ok L" and io: "io_ok L" and h: "hash_ok L U H" and all: "pair ''$all'' ''true'' \<in> U"
    and inv: "shared_inv L U H (run 0)" and run: "\<And>k. shared_steps L U H (run k) (run (Suc k))"
    and f: "\<And>k. f \<in> set (shChain (run k))" "frNumber f \<noteq> 0" and t: "mono t"
  shows "splitPoint L U (\<lambda>i. shStore (run (t i))) (frNumber f) (tableRel L (frTable f))"
proof -
  let ?g = "\<lambda>i. rd L (rawDB (shStore (run (t i))))"
  have c: "chain_inv L U H (shStore (run (t i))) (shChain (run (t i)))" for i
    using shared_run_inv[of L U H run "t i", OF ok io h inv run] by (simp add: shared_inv_def)
  have "linked (?g i) f p \<Longrightarrow> ?g i (blockNumberKey (frNumber f)) = Some (hashBytes (frHash f)) \<and>
      (\<exists>rb. ?g i (rootKey (frHash f)) = Some rb)" for i p
    by (auto simp: linked_def)
  moreover have "\<exists>p. linked (?g i) f p" for i
  proof -
    have "f \<noteq> last (shChain (run (t i)))" using c[of i] f(2) by (auto simp: chain_inv_def)
    then show ?thesis using c[of i] f(1)[of "t i"] chained_linked[of "?g i" "shChain (run (t i))" f] by (auto simp: chain_inv_def)
  qed
  ultimately obtain rb where r: "?g 0 (blockNumberKey (frNumber f)) = Some (hashBytes (frHash f))" "?g 1 (rootKey (frHash f)) = Some rb"
    by meson
  then have "splitRoot L (\<lambda>i. shStore (run (t i))) (frNumber f) (ancestorRootOf L (?g 1) (frHash f))"
    using f(2) by (simp add: splitRoot_def ancestorRootOf_def)
  moreover have "root_ok L U (?g 1) (ancestorRootOf L (?g 1) (frHash f)) (frTable f) (frCount f)"
    using c[of 1] f(1)[of "t 1"] by (simp add: chain_inv_def frame_ok_def)
  ultimately show ?thesis
    using ok all run_grows[of L U H run t, OF ok io h inv run t] by (auto simp: splitPoint_def splitRep_def)
qed

lemma run_head:
  assumes ok: "lib_ok L" and io: "io_ok L" and h: "hash_ok L U H" and all: "pair ''$all'' ''true'' \<in> U"
    and inv: "shared_inv L U H (run 0)" and run: "\<And>k. shared_steps L U H (run k) (run (Suc k))" and t: "mono t"
    and T: "T = frTable (hd (shChain (run (t 0))))"
  shows "splitRep L U (\<lambda>i. shStore (run (t i))) 0 T" "headRep L (shStore (run (t 0))) T"
    "blockRep L U (shStore (run (t 0))) 0 T"
proof -
  let ?s = "shStore (run (t 0))" and ?n = "frCount (hd (shChain (run (t 0))))"
  have "chain_inv L U H ?s (shChain (run (t 0)))"
    using shared_run_inv[of L U H run "t 0", OF ok io h inv run] by (simp add: shared_inv_def)
  then have I: "store_inv L U H ?s T ?n" by (simp add: chain_inv_def T)
  note g = run_grows[of L U H run t, OF ok io h inv run t]
  have "root_ok L U (rd L (rawDB (shStore (run (t 1))))) (headRoot ?s) T ?n"
    by (rule root_ok_mono[OF ok store_inv_root_ok[OF I]]) (use g in \<open>simp add: grows_def\<close>)
  then show "splitRep L U (\<lambda>i. shStore (run (t i))) 0 T" using ok all g by (auto simp: splitRep_def splitRoot_def)
  show "headRep L ?s T" using ok h I by (auto simp: headRep_def)
  show "blockRep L U ?s 0 T" by (rule blockRep_head[OF ok all I])
qed

text \<open>A read at the head answers as the store did at its first moment.\<close>

lemma run_atomic:
  assumes ok: "lib_ok L" and io: "io_ok L" and h: "hash_ok L U H" and all: "pair ''$all'' ''true'' \<in> U"
    and inv: "shared_inv L U H (run 0)" and run: "\<And>k. shared_steps L U H (run k) (run (Suc k))" and t: "mono t"
  shows "pair key val \<in> U \<Longrightarrow> \<exists>b b'. ReadAnnotBitmapR L (\<lambda>i. shStore (run (t i))) 0 key val = Inr b \<and>
      ReadAnnotBitmap L (shStore (run (t 0))) 0 key val = Inr b' \<and> bmSet L b = bmSet L b'"
    and "andThen (GetEntityBytesR L (\<lambda>i. shStore (run (t i))) 0 a) (decodeEntity L) = GetEntity L (shStore (run (t 0))) 0 a"
    and "IterateNumericAnnotBitmapsR L (\<lambda>i. shStore (run (t i))) k lo hi =
      IterateNumericAnnotBitmaps L (shStore (run (t 0))) k lo hi"
    and "IterateStringAnnotBitmapsR L (\<lambda>i. shStore (run (t i))) k slo loIncl shi hiIncl =
      IterateStringAnnotBitmaps L (shStore (run (t 0))) k slo loIncl shi hiIncl"
    and "IterateGlobAnnotBitmapsR L (\<lambda>i. shStore (run (t i))) k pattern =
      IterateGlobAnnotBitmaps L (shStore (run (t 0))) k pattern"
proof -
  let ?ss = "\<lambda>i. shStore (run (t i))" and ?T = "frTable (hd (shChain (run (t 0))))"
  note r = run_head[of L U H run t ?T, OF ok io h all inv run t refl]
  show "\<exists>b b'. ReadAnnotBitmapR L ?ss 0 key val = Inr b \<and> ReadAnnotBitmap L (?ss 0) 0 key val = Inr b' \<and> bmSet L b = bmSet L b'"
    if "pair key val \<in> U"
    using ReadAnnotBitmapR_set[OF r(1) that] ReadAnnotBitmap_set[OF r(3) that] by auto
  show "andThen (GetEntityBytesR L ?ss 0 a) (decodeEntity L) = GetEntity L (?ss 0) 0 a"
    using GetEntityBytesR_set[OF r(1), of a] GetEntity_table[OF r(3), of a]
    by (cases "?T a") (auto simp: decodeEntity_def)
  note s = split_scans[of L ?ss ?T, OF r(2) run_grows[of L U H run t, OF ok io h inv run t]]
  show "IterateNumericAnnotBitmapsR L ?ss k lo hi = IterateNumericAnnotBitmaps L (?ss 0) k lo hi"
    "IterateStringAnnotBitmapsR L ?ss k slo loIncl shi hiIncl = IterateStringAnnotBitmaps L (?ss 0) k slo loIncl shi hiIncl"
    "IterateGlobAnnotBitmapsR L ?ss k pattern = IterateGlobAnnotBitmaps L (?ss 0) k pattern"
    by (rule s)+
qed

section \<open>Queries beside the writer\<close>

text \<open>At an earlier block all reads see the block, as long as it is not reverted.\<close>

lemma past_query_on_run:
  assumes ok: "lib_ok L" and io: "io_ok L" and h: "hash_ok L U H" and all: "pair ''$all'' ''true'' \<in> U"
    and inv: "shared_inv L U H (run 0)" and run: "\<And>k. shared_steps L U H (run k) (run (Suc k))"
    and f: "\<And>k. f \<in> set (shChain (run k))" "frNumber f \<noteq> 0" and t: "\<And>k. mono (t k)" and ast: "astOk (pointTerm U) ast"
  shows "yields (\<lambda>k. splitQuerier L (\<lambda>i. shStore (run (t k i)))) (EvaluateR L (frNumber f) ast)
    (\<lambda>b. bmSet L b = {i. \<exists>a e. frTable f a = Some (i, e) \<and> satAST (allAnnotations L e) ast})"
  using split.EvaluateR_set[of L U "\<lambda>k i. shStore (run (t k i))", OF run_past[OF ok io h all inv run f t] ast]
  unfolding collect_tableRel .

text \<open>
  At the head each call reads the head anew: a negated equality subtracts what it found at one head from all
  entities of the next.
\<close>

lemma negated_at_two_heads:
  assumes ok: "lib_ok L" and io: "io_ok L" and h: "hash_ok L U H" and all: "pair ''$all'' ''true'' \<in> U"
    and inv: "shared_inv L U H (run 0)" and run: "\<And>k. shared_steps L U H (run k) (run (Suc k))" and t: "\<And>k. mono (t k)"
    and v: "annotVal (eqValue e) = Inr v" "pair (eqVar e) v \<in> U" and e: "eqIsNot e"
  shows "\<exists>b. evalEqualityR L 0 e (\<lambda>k. splitQuerier L (\<lambda>i. shStore (run (t k i)))) 0 = (Inr b, 2) \<and>
    bmSet L b = {i. (\<exists>a ent. frTable (hd (shChain (run (t 1 0)))) a = Some (i, ent)) \<and>
      \<not> (\<exists>a ent. frTable (hd (shChain (run (t 0 0)))) a = Some (i, ent) \<and>
        hasValue (allAnnotations L ent) (eqVar e) (\<lambda>x. x = v))}"
proof -
  let ?A = "\<lambda>k. tableRel L (frTable (hd (shChain (run (t k 0)))))" and ?ss = "\<lambda>k i. shStore (run (t k i))"
  have p: "splitPoint L U (?ss k) 0 (?A k)" for k
    using run_head(1)[of L U H run "t k", OF ok io h all inv run t refl] by (auto simp: splitPoint_def)
  from split.read_bitmap[OF p[of 0] v(2)] split.all_entities[OF p[of 1]] obtain b all where
    "sqReadAnnotBitmap (splitQuerier L (?ss 0)) 0 (eqVar e) v = Inr b"
    "sqAllEntities (splitQuerier L (?ss 1)) 0 = Inr all"
    "bmSet L b = collect (?A 0) (\<lambda>ps. hasValue ps (eqVar e) (\<lambda>x. x = v))" "bmSet L all = Domain (?A 1)"
    by blast
  moreover have "Domain (?A 1) = {i. \<exists>a ent. frTable (hd (shChain (run (t 1 0)))) a = Some (i, ent)}"
    by (auto simp: tableRel_def)
  ultimately show ?thesis using v(1) e unfolding collect_tableRel
    by (auto simp: evalEqualityR_def negateIfR_def thenR_def callR_def localR_def bmSet_simps[OF split.roaring[OF p]]
        numeral_2_eq_2)
qed

end
