(* ===== verification/Startup.thy ===== *)
theory Startup
  imports Version_Info Daemon
begin

text \<open>
  What \<open>main\<close> of \<open>cmd/arkiv-storaged/main.go\<close> does before it serves: it prints the version, or reads the configuration,
  opens the database under the data directory and the store on it, and builds the two servers, each an HTTP server
  of a JSON-RPC server behind the handler of \<open>version/http.go\<close>. The calls of the operating system, of the YAML and
  JSON libraries, of the database and of the JSON-RPC library are fields of a record; an error of one of them is
  logged and ends the process with status 1.
\<close>

text \<open>The receivers of the methods of the two APIs: the handlers of \<open>chain/server.go\<close> and \<open>query/server.go\<close>.\<close>

datatype ('db, 'bm) rpcHandler = ChainHandler "'db Store" | QueryHandler "'bm Backend"

record ('f, 'db, 'bm, 'srv) osLib =
  UserHomeDir :: "string res"
  pathJoin :: "string \<Rightarrow> string \<Rightarrow> string"
  openFile :: "string \<Rightarrow> 'f res"
  decodeYaml :: "'f \<Rightarrow> config res"
  closeFile :: "'f \<Rightarrow> err option"
  encodeInfo :: "Info \<Rightarrow> err option"
  openPebble :: "string \<Rightarrow> 'db res"
  rpcNewServer :: 'srv
  RegisterName :: "'srv \<Rightarrow> string \<Rightarrow> ('db, 'bm) rpcHandler \<Rightarrow> 'srv res"

record daemonFlags = flags +
  flagDataDir :: "string option"
  flagVersion :: bool

record 'srv httpServer =
  httpAddr :: string
  httpNext :: 'srv

datatype ('db, 'srv) outcome = Printed Info | Exited nat string | Serving "'srv httpServer" "'srv httpServer" "'db Store"

text \<open>What a request to such a server reaches: the version handler answers it or passes it on.\<close>

definition serveHTTP :: "Info \<Rightarrow> 'srv httpServer \<Rightarrow> httpRequest \<Rightarrow> 'srv + reply" where
  "serveHTTP current h r = (case versionHandler current r of Delegated \<Rightarrow> Inl (httpNext h) | reply \<Rightarrow> Inr reply)"

definition newChainServer :: "('f, 'db, 'bm, 'srv) osLib \<Rightarrow> 'db Store \<Rightarrow> 'srv res" where
  "newChainServer os s = RegisterName os (rpcNewServer os) ''arkiv'' (ChainHandler s)"

definition newQueryServer :: "('f, 'db, 'bm, 'srv) osLib \<Rightarrow> 'bm Backend \<Rightarrow> 'srv res" where
  "newQueryServer os be = RegisterName os (rpcNewServer os) ''arkiv'' (QueryHandler be)"

definition dataDirOf :: "('f, 'db, 'bm, 'srv) osLib \<Rightarrow> daemonFlags \<Rightarrow> string" where
  "dataDirOf os fl =
     (case flagDataDir fl of Some d \<Rightarrow> d | None \<Rightarrow> defaultDataDir (pathJoin os) (UserHomeDir os))"

definition readConfig :: "('f, 'db, 'bm, 'srv) osLib \<Rightarrow> string \<Rightarrow> config res" where
  "readConfig os dataDir = loadConfig (openFile os (pathJoin os dataDir ''config.yaml'')) (decodeYaml os) (closeFile os)"

definition main ::
    "('f, 'db, 'bm, 'srv) osLib \<Rightarrow> ('db, 'bm, 'sdb) lib \<Rightarrow> Info \<Rightarrow> daemonFlags
      \<Rightarrow> ('db, 'srv) outcome" where
  "main os L current fl =
     (if flagVersion fl then
        (case encodeInfo os current of Some e \<Rightarrow> Exited 1 ''print version: %v'' | None \<Rightarrow> Printed current)
      else case readConfig os (dataDirOf os fl) of
        Inl e \<Rightarrow> Exited 1 ''failed to read config file''
      | Inr cfg \<Rightarrow>
          let chainAddr = chainAddrOf (flags.truncate fl) cfg; queryAddr = queryAddrOf (flags.truncate fl) cfg in
          case openPebble os (pathJoin os (dataDirOf os fl) ''db'') of
            Inl e \<Rightarrow> Exited 1 ''failed to open pebble database''
          | Inr db \<Rightarrow>
              let s = New L db in
              case newChainServer os s of
                Inl e \<Rightarrow> Exited 1 ''failed to create chain server''
              | Inr chainSrv \<Rightarrow>
                  (case newQueryServer os (storeBackend L s) of
                     Inl e \<Rightarrow> Exited 1 ''failed to create query server''
                   | Inr querySrv \<Rightarrow> Serving \<lparr>httpAddr = chainAddr, httpNext = chainSrv\<rparr>
                       \<lparr>httpAddr = queryAddr, httpNext = querySrv\<rparr> s))"

lemma main_Serving:
  "main os L current fl = Serving ch qu s \<longleftrightarrow>
     \<not> flagVersion fl \<and> newChainServer os s = Inr (httpNext ch) \<and> newQueryServer os (storeBackend L s) = Inr (httpNext qu) \<and>
     (\<exists>cfg db. readConfig os (dataDirOf os fl) = Inr cfg \<and> openPebble os (pathJoin os (dataDirOf os fl) ''db'') = Inr db \<and>
       httpAddr ch = chainAddrOf (flags.truncate fl) cfg \<and> httpAddr qu = queryAddrOf (flags.truncate fl) cfg \<and> s = New L db)"
  by (cases ch; cases qu) (auto simp: main_def Let_def split: option.splits sum.splits)

text \<open>A flag wins over the file, the file over the default.\<close>

lemma chainAddrOf_cases:
  "chainAddrOf fl cfg = (case flagChainAddr fl of Some a \<Rightarrow> a
     | None \<Rightarrow> if cfgChainAddr cfg = [] then ''127.0.0.1:2704'' else cfgChainAddr cfg)"
  "queryAddrOf fl cfg = (case flagQueryAddr fl of Some a \<Rightarrow> a
     | None \<Rightarrow> if cfgQueryAddr cfg = [] then ''127.0.0.1:2705'' else cfgQueryAddr cfg)"
  by (auto simp: chainAddrOf_def queryAddrOf_def Let_def split: option.split)

text \<open>The store that is served is the one the step \<open>Start\<close> of the daemon opens.\<close>

lemma main_starts:
  assumes "main os L current fl = Serving ch qu s" "openPebble os (pathJoin os (dataDirOf os fl) ''db'') = Inr db"
  shows "daemon_step W P L (Down db) Start (Up s)"
  using assms daemon_step.start[of W P L db] by (auto simp: main_Serving)

text \<open>
  The JSON-RPC library documents that a registered name leads to its receiver: both APIs then act on the one store.
\<close>

definition rpc_ok :: "('f, 'db, 'bm, 'srv) osLib \<Rightarrow> ('srv \<Rightarrow> string \<rightharpoonup> ('db, 'bm) rpcHandler) \<Rightarrow> bool" where
  "rpc_ok os receiver \<longleftrightarrow> (\<forall>srv name h srv'. RegisterName os srv name h = Inr srv' \<longrightarrow> receiver srv' name = Some h)"

lemma main_receivers:
  assumes "main os L current fl = Serving ch qu s" "rpc_ok os receiver" "reqPath r \<noteq> ''/version''"
  shows "\<exists>srv. serveHTTP current ch r = Inl srv \<and> receiver srv ''arkiv'' = Some (ChainHandler s)"
    and "\<exists>srv. serveHTTP current qu r = Inl srv \<and> receiver srv ''arkiv'' = Some (QueryHandler (storeBackend L s))"
  using assms by (auto simp: main_Serving newChainServer_def newQueryServer_def rpc_ok_def serveHTTP_def versionHandler_def)

end
