(* ===== verification/Example_Daemon.thy ===== *)
theory Example_Daemon
  imports Example_Revert Concurrent_Page Split_Reads Startup
begin

text \<open>
  The service started on an empty database and fed the blocks of \<open>Examples\<close> and \<open>Example_Revert\<close>: reachable states
  of the daemon and the chains they represent.
\<close>

section \<open>The chain\<close>

text \<open>The genesis block of the client has the hash 10, the parent of the first block.\<close>

definition exFrame1 :: frame where "exFrame1 = pushFrame exBlock1 (Map.empty, 0)"
definition exFrame2 :: frame where "exFrame2 = pushFrame exBlock2 (exTable, 1)"

definition exFrames :: "frame list" where
  "exFrames = [exFrame2, exFrame1, genesis 10]"

lemma exFrames_sel:
  "frTable exFrame1 = Map.empty" "frCount exFrame1 = 0" "frNumber exFrame1 = 1" "frHash exFrame1 = 11"
  "frTable exFrame2 = exTable" "frCount exFrame2 = 1" "frNumber exFrame2 = 2" "frHash exFrame2 = 12"
  "frTable (genesis h) = Map.empty" "frCount (genesis h) = 0" "frNumber (genesis h) = 0" "frHash (genesis h) = h"
  by (simp_all add: exFrame1_def exFrame2_def genesis_def pushFrame_def exBlock1_def exBlock2_def)

lemma exChild:
  "child_ok [genesis 10] exBlock1" "child_ok [exFrame1, genesis 10] exBlock2" "child_ok exFrames exBlock3"
  by (simp_all add: child_ok_def exFrames_def exFrames_sel exBlock1_def exBlock2_def exBlock3_def)

lemma blobs_in_mono: "blobs_in L H s block \<Longrightarrow> H \<subseteq> H' \<Longrightarrow> blobs_in L H' s block"
  by (auto simp: blobs_in_def)

lemma exHeadState:
  "headState [genesis 10] = (Map.empty, 0)" "headState [exFrame1, genesis 10] = (Map.empty, 0)" "headState exFrames = (exTable, 1)"
  by (simp_all add: headState_def exFrames_sel exFrames_def)

lemma exFeed: "feed_ok refLib exPairs exBlobs3 exStore0 [genesis 10] [exBlock1, exBlock2, exBlock3]"
proof -
  note bl = blobs_in_mono[OF exBlock1_blobs exBlobs3_mono] blobs_in_mono[OF exBlock2_blobs exBlobs3_mono] exBlock3_blobs
  obtain r1 where p1: "processBlock refLib exStore0 exBlock1 = Inr (r1, exStore1)" using exStore1 by blast
  obtain r2 where p2: "processBlock refLib exStore1 exBlock2 = Inr (r2, exStore2)" using exStore2 by blast
  obtain r3 where p3: "processBlock refLib exStore2 exBlock3 = Inr (r3, exStore3)" using exStore3 by blast
  have "feed_ok refLib exPairs exBlobs3 exStore2 exFrames [exBlock3]"
    using exChild(3) bl(3) p3 by (simp add: exHeadState exBlock3_ok)
  then have "feed_ok refLib exPairs exBlobs3 exStore1 [exFrame1, genesis 10] [exBlock2, exBlock3]"
    using exChild(2) bl(2) p2 by (simp add: exHeadState exBlock2_ok exFrame2_def[symmetric] exFrames_def[symmetric])
  then show ?thesis using exChild(1) bl(1) p1 by (simp add: exHeadState exBlock1_ok exFrame1_def[symmetric])
qed

lemma exFeed2: "feed_ok refLib exPairs exBlobs3 exStore0 [genesis 10] [exBlock1, exBlock2]"
  using feed_ok_take[OF exFeed, of 2] by (simp add: numeral_2_eq_2)

lemma exPush: "pushBlocks refLib [genesis 10] [exBlock1] = [exFrame1, genesis 10]"
  "pushBlocks refLib [genesis 10] [exBlock1, exBlock2] = exFrames"
  by (simp_all add: exHeadState exBlock1_ok exBlock2_ok exFrame1_def[symmetric] exFrame2_def[symmetric] exFrames_def)

lemma exCommit:
  "\<exists>r. commitBlocks refLib exStore0 0 [exBlock1, exBlock2] = (Inr r, exStore2)"
  "\<exists>r. CommitChain refLib exStore0 \<lparr>ccBlocks = [exBlock1]\<rparr> = (Inr r, exStore1)"
  "\<exists>r. CommitChain refLib exStore0 \<lparr>ccBlocks = [exBlock1, exBlock2]\<rparr> = (Inr r, exStore2)"
  using exStore1 exStore2 by (auto simp: CommitChain_def ProcessBlock_def response_def)

section \<open>Reachable states\<close>

lemma exReach0: "reachable W P refLib exPairs exBlobs3 (Up exStore0) [genesis 10]"
proof -
  have "reachable W P refLib exPairs exBlobs3 (Down []) [genesis 10]"
    by (rule reachable.empty) (simp add: fun_eq_iff)
  from reachable.step[OF this daemon_step.start] show ?thesis by (simp add: exStore0_def)
qed

lemma exReach2: "reachable W P refLib exPairs exBlobs3 (Up exStore2) exFrames"
proof -
  obtain r where r: "CommitChain refLib exStore0 \<lparr>ccBlocks = [exBlock1, exBlock2]\<rparr> = (Inr r, exStore2)"
    using exCommit by blast
  have "client_ok refLib exPairs exBlobs3 (Up exStore0) [genesis 10] (CommitReq [exBlock1, exBlock2] (Inr r))"
    using exFeed2 by (simp del: feed_ok.simps)
  from reachable.step[OF exReach0 daemon_step.commit[OF r] this] exPush(2)
  show ?thesis by (simp del: pushBlocks.simps)
qed

lemma exRefs: "refs_ok refLib exStore2 exFrames [exRef]"
  by (simp add: refs_ok_def exFrames_def exFrames_sel frameRef_def exRef_def ids_current_empty)

lemma exChain2: "chain_inv refLib exPairs exBlobs3 exStore2 exFrames"
  using reachable_inv[OF lib_refLib io_refLib exHash3_ok exReach2] by simp

section \<open>A query between two blocks\<close>

lemma exQuery_parsed:
  "\<forall>x. Some (Expression (OrExpression (AndExpression exName [AndRHS exSize]) [])) = Some x \<longrightarrow>
    \<not> list_ex nilLeaf (leavesExpression x)"
  "\<forall>ast. Parse refParseString uni exQuery = Inr ast \<longrightarrow> astPairs ast \<subseteq> exPairs"
  by (simp_all add: exParse_ok exAst_def astPairs_def termPairs_def exNameTerm_def exSizeTerm_def noTerm_def annotVal_def
      exPairs_eq exName_def exSize_def nilLeaf_def addressVar_def)

text \<open>The page loop reads the entity, and then the block that created it is about to be reverted.\<close>

definition exReading :: "reader \<Rightarrow> ((bytes \<times> bytes) list) sysState" where
  "exReading r = \<lparr>syStore = exStore2, syWriter = Free, syChain = exFrames, syHeads = {frTable (hd exFrames)}, syReader = r\<rparr>"

lemma exReading_run:
  "\<exists>d y. sys_steps refWeb refLib exPairs exBlobs3 defaultIncludeData 200 (exReading (NextId [] [1] None [])) y \<and>
    syReader y = NextId [] [] (Some 1) [d] \<and> syChain y = [exFrame1, genesis 10] \<and> syHeads y = {Map.empty, exTable}"
proof -
  let ?step = "sys_step refWeb refLib exPairs exBlobs3 defaultIncludeData 200"
  let ?fin = "\<lambda>d. (exReading (NextId [] [] (Some 1) [d]))\<lparr>syWriter := ToRevert [exRef] [],
    syChain := [exFrame1, genesis 10], syHeads := {Map.empty, exTable}\<rparr>"
  have T: "exTable exAddr = Some (1, exEntity)" by (simp add: exTable_def)
  have rep: "blockRep refLib exPairs exStore2 0 exTable" by (rule blockRep_head[OF lib_refLib exPairs_all exStore2_inv(1)])
  obtain d where d: "MarshalEntityData refWeb (entityData refWeb refLib defaultIncludeData exEntity) = Inr d" by simp
  have "foldRes (fetchStep refWeb refLib (storeBackend refLib exStore2) 0 defaultIncludeData) [1] (None, []) = Inr (Some 1, [d])"
    using d fetch_store(1)[OF rep T, of refWeb defaultIncludeData] IDToAddress_table[OF exStore2_inv(1) T]
    by (simp add: fetchStep_def storeBackend_def del: refWeb_sel)
  then have batch: "sys_steps refWeb refLib exPairs exBlobs3 defaultIncludeData 200 (exReading (NextId [1] [] None []))
      (exReading (NextId [] [] (Some 1) [d]))"
    using reader_batch[of "exReading (Failed e)" refWeb refLib defaultIncludeData "[1]" None "[]" "Some 1" "[d]"]
    by (simp add: exReading_def del: foldRes.simps)
  have "?step (exReading (NextId [] [1] None [])) (exReading (NextId [1] [] None []))"
    using sys_step.batch[of "exReading (NextId [] [1] None [])" "[1]" None "[]" 200 10] by (simp add: exReading_def batchSize_def)
  moreover have "?step (exReading (NextId [] [] (Some 1) [d])) (?fin d)"
    using sys_step.acquire[of "exReading (NextId [] [] (Some 1) [d])" refLib "[exRef]" exPairs exBlobs3 "[]"] exRefs
    by (simp add: exReading_def exFrames_def exFrames_sel)
  ultimately have "sys_steps refWeb refLib exPairs exBlobs3 defaultIncludeData 200 (exReading (NextId [] [1] None [])) (?fin d)"
    using batch unfolding sys_steps_def by (meson converse_rtranclp_into_rtranclp rtranclp.rtrancl_into_rtrancl)
  then show ?thesis by (intro exI[of _ d] exI[of _ "?fin d"]) (simp add: exReading_def)
qed

section \<open>A block between two calls of a query\<close>

text \<open>The block that removes the entity is committed after the first call of a query at the block before.\<close>

definition exRun :: "nat \<Rightarrow> ((bytes \<times> bytes) list) sharedState" where
  "exRun k = (if k = 0 then \<lparr>shStore = exStore2, shWriter = Free, shChain = exFrames\<rparr>
     else \<lparr>shStore = exStore3, shWriter = Free, shChain = pushFrame exBlock3 (Map.empty, 1) # exFrames\<rparr>)"

text \<open>The block that creates the entity is committed after the first call of a query at the head.\<close>

definition exRun0 :: "nat \<Rightarrow> ((bytes \<times> bytes) list) sharedState" where
  "exRun0 k = (if k = 0 then \<lparr>shStore = exStore1, shWriter = Free, shChain = [exFrame1, genesis 10]\<rparr>
     else \<lparr>shStore = exStore2, shWriter = Free, shChain = exFrames\<rparr>)"

lemma one_block_run:
  assumes c: "feed_ok L U H s fs [block]" and b: "absBlock L block (headState fs) = Some st"
    and p: "processBlock L s block = Inr (root, s')"
  shows "shared_steps L U H \<lparr>shStore = s, shWriter = Free, shChain = fs\<rparr>
    \<lparr>shStore = s', shWriter = Free, shChain = pushFrame block st # fs\<rparr>"
proof -
  let ?y = "\<lambda>s w fs. \<lparr>shStore = s, shWriter = w, shChain = fs\<rparr>"
  have "shared_step L U H (?y s Free fs) (?y s (ToApply [block]) fs)"
    using shared_step.acquire_commit[of "?y s Free fs" L U H block] c by (simp del: feed_ok.simps)
  moreover have "shared_step L U H (?y s (ToApply [block]) fs) (?y s' (ToApply []) (pushFrame block st # fs))"
    using shared_step.writes[of L "?y s (ToApply [block]) fs" s' "ToApply []"] writer_step.apply_block[OF p] b by simp
  moreover have "shared_step L U H (?y s' (ToApply []) (pushFrame block st # fs)) (?y s' Free (pushFrame block st # fs))"
    using shared_step.writes[of L "?y s' (ToApply []) (pushFrame block st # fs)" s' Free U H]
      writer_step.release[of L s'] by simp
  ultimately show ?thesis by (meson converse_rtranclp_into_rtranclp r_into_rtranclp)
qed

lemma exRun_steps:
  "\<forall>k. shared_steps refLib exPairs exBlobs3 (exRun k) (exRun (Suc k))"
  "\<forall>k. shared_steps refLib exPairs exBlobs3 (exRun0 k) (exRun0 (Suc k))"
proof -
  obtain r2 r3 where p: "processBlock refLib exStore1 exBlock2 = Inr (r2, exStore2)"
    "processBlock refLib exStore2 exBlock3 = Inr (r3, exStore3)" using exStore2 exStore3 by blast
  have f: "feed_ok refLib exPairs exBlobs3 exStore2 exFrames [exBlock3]"
    "feed_ok refLib exPairs exBlobs3 exStore1 [exFrame1, genesis 10] [exBlock2]"
    using exChild exBlock3_blobs blobs_in_mono[OF exBlock2_blobs exBlobs3_mono] p
    by (simp_all add: exHeadState exBlock2_ok exBlock3_ok)
  show "\<forall>k. shared_steps refLib exPairs exBlobs3 (exRun k) (exRun (Suc k))"
    using one_block_run[OF f(1) _ p(2)] exBlock3_ok(2) by (simp add: exRun_def exHeadState)
  show "\<forall>k. shared_steps refLib exPairs exBlobs3 (exRun0 k) (exRun0 (Suc k))"
    using one_block_run[OF f(2) _ p(1)] exBlock2_ok(2)
    by (simp add: exRun0_def exHeadState exFrames_def exFrame2_def)
qed

lemma exRun_inv: "shared_inv refLib exPairs exBlobs3 (exRun 0)" "shared_inv refLib exPairs exBlobs3 (exRun0 0)"
proof -
  show "shared_inv refLib exPairs exBlobs3 (exRun 0)" by (simp add: shared_inv_def exRun_def exChain2)
  obtain r where r: "CommitChain refLib exStore0 \<lparr>ccBlocks = [exBlock1]\<rparr> = (Inr r, exStore1)" using exCommit(2) by blast
  have "client_ok refLib exPairs exBlobs3 (Up exStore0) [genesis 10] (CommitReq [exBlock1] (Inr r))"
    using feed_ok_take[OF exFeed2, of 1] by (simp del: feed_ok.simps)
  from reachable_inv[OF lib_refLib io_refLib exHash3_ok reachable.step[OF exReach0 daemon_step.commit[OF r] this]] exPush(1)
  show "shared_inv refLib exPairs exBlobs3 (exRun0 0)"
    by (simp add: shared_inv_def exRun0_def del: pushBlocks.simps)
qed

definition exNotName :: Equality where
  "exNotName = (case tmAssign exNameTerm of Some e \<Rightarrow> e\<lparr>eqIsNot := True\<rparr>)"

section \<open>A restart\<close>

type_synonym exServer = "(string \<times> ((bytes \<times> bytes) list, uint64 list) rpcHandler) list"

definition exOs :: "(unit, (bytes \<times> bytes) list, uint64 list, exServer) osLib" where
  "exOs = \<lparr>UserHomeDir = Inr ''/root'', pathJoin = (\<lambda>a b. a @ ''/'' @ b), openFile = (\<lambda>_. Inl ErrNotFound),
     decodeYaml = (\<lambda>_. Inr \<lparr>cfgChainAddr = [], cfgQueryAddr = []\<rparr>), closeFile = (\<lambda>_. None), encodeInfo = (\<lambda>_. None),
     openPebble = (\<lambda>p. if p = ''/root/.arkiv-storaged/db'' then Inr (rawDB exStore2) else Inl (LibErr p)),
     rpcNewServer = [], RegisterName = (\<lambda>srv name h. Inr ((name, h) # srv))\<rparr>"

lemma rpc_exOs: "rpc_ok exOs map_of"
  by (simp add: rpc_ok_def exOs_def)

abbreviation exChainHttp :: "exServer httpServer" where
  "exChainHttp \<equiv> \<lparr>httpAddr = ''0.0.0.0:1'', httpNext = [(''arkiv'', ChainHandler exStore2)]\<rparr>"

abbreviation exQueryHttp :: "exServer httpServer" where
  "exQueryHttp \<equiv> \<lparr>httpAddr = ''127.0.0.1:2705'', httpNext = [(''arkiv'', QueryHandler (storeBackend refLib exStore2))]\<rparr>"

definition exFlags :: daemonFlags where
  "exFlags = \<lparr>flagChainAddr = Some ''0.0.0.0:1'', flagQueryAddr = None, flagDataDir = None, flagVersion = False\<rparr>"

definition exInfo :: Info where
  "exInfo = Current \<lparr>uniLower = id, uniTrim = id\<rparr> \<lparr>flTag = ''v1'', flCommit = [], flDirty = [], flBuildTime = []\<rparr> ''go1'' None"

lemma exDown2: "reachable W P refLib exPairs exBlobs3 (Down (rawDB exStore2)) exFrames"
  using reachable.step[OF exReach2 daemon_step.stop] by simp

end
