(* ===== verification/Example_Roots.thy ===== *)
theory Example_Roots
  imports Root_Determined Example_Daemon
begin

text \<open>
  The laws of the state hold of the reference library, and the blocks of \<open>Examples\<close> on two databases: one that was
  only ever given the first block, and one that was given the second as well and took it back. Maps are ranged over
  in the order of their keys' insertion and in the opposite order.
\<close>

section \<open>The laws hold of the reference library\<close>

lemma writes_refLib: "writes_commute refLib"
  unfolding writes_commute_def refLib_sel
proof (intro conjI allI impI)
  fix s :: refState and a b :: address and k l v w :: hash assume "(a, k) \<noteq> (b, l)"
  from putSorted_commute[OF this, of v w] have e: "putSorted (a, k) v (putSorted (b, l) w al) = putSorted (b, l) w (putSorted (a, k) v al)" for al .
  show "s\<lparr>rsSlot := putSorted (a, k) v (rsSlot s)\<rparr>\<lparr>rsSlot := putSorted (b, l) w
      (rsSlot (s\<lparr>rsSlot := putSorted (a, k) v (rsSlot s)\<rparr>))\<rparr> =
    s\<lparr>rsSlot := putSorted (b, l) w (rsSlot s)\<rparr>\<lparr>rsSlot := putSorted (a, k) v
      (rsSlot (s\<lparr>rsSlot := putSorted (b, l) w (rsSlot s)\<rparr>))\<rparr>" by (simp add: e)
qed (simp add: putSorted_commute)

lemma opens_refLib:
  assumes "hash_ok refLib U H"
  shows "opens_unique refLib H"
  unfolding opens_unique_def
proof (intro allI impI)
  fix g g' r s s' assume n: "nodes_ok refLib H g" "nodes_ok refLib H g'" and o: "stateNew refLib g r = Inr s" "stateNew refLib g' r = Inr s'"
  have from_blob: "r = 0 \<and> t = refEmpty \<or> (\<exists>b. b \<in> H \<and> refKeccak b = r \<and> t = decState b)"
    if "nodes_ok refLib H f" "refStateNew f r = Inr t" for f t
  proof (cases "r = 0")
    case False
    with that(2) obtain b where b: "f (hashBytes r) = Some b" "refKeccak b = r" "t = decState b"
      by (auto simp: refStateNew_def split: option.splits if_splits)
    then have "b \<in> H" using that(1) not_arkivKey_refKeccak[of b] unfolding nodes_ok_def by blast
    with b show ?thesis by blast
  qed (use that in \<open>simp add: refStateNew_def\<close>)
  from from_blob[OF n(1)] from_blob[OF n(2)] o assms refKeccak_neq_0 show "s' = s"
    by (fastforce simp: hash_ok_def inj_on_def)
qed

lemma range_rev: "range_ok (reorder rev rev refLib)"
  by (simp add: range_ok_def)

section \<open>A block taken back\<close>

definition exReverted :: "((bytes \<times> bytes) list) Store" where
  "exReverted = afterRevert refLib exStore2 [exRef]"

lemma exReverted_inv: "chain_inv refLib exPairs exBlobs3 exReverted [exFrame1, genesis 10]"
  using revert_chain(2)[OF lib_refLib io_refLib exHash3_ok exChain2 exRefs] by (simp add: exReverted_def exFrames_def)

lemma exChain1: "chain_inv refLib exPairs exBlobs3 exStore1 [exFrame1, genesis 10]"
proof -
  obtain r where r: "CommitChain refLib exStore0 \<lparr>ccBlocks = [exBlock1]\<rparr> = (Inr r, exStore1)" using exCommit by blast
  have "client_ok refLib exPairs exBlobs3 (Up exStore0) [genesis 10] (CommitReq [exBlock1] (Inr r))"
    using feed_ok_take[OF exFeed, of 1] by (simp del: feed_ok.simps)
  from reachable_inv[OF lib_refLib io_refLib exHash3_ok reachable.step[OF exReach0 daemon_step.commit[OF r] this]] exPush(1)
  show ?thesis by (simp del: pushBlocks.simps)
qed

lemma exReverted_facts:
  "store_inv refLib exPairs exBlobs3 exStore1 Map.empty 0" "store_inv refLib exPairs exBlobs3 exReverted Map.empty 0"
  "headRoot exReverted = headRoot exStore1"
proof -
  show "store_inv refLib exPairs exBlobs3 exStore1 Map.empty 0" "store_inv refLib exPairs exBlobs3 exReverted Map.empty 0"
    using exChain1 exReverted_inv by (simp_all add: chain_inv_def exFrames_sel)
  show "headRoot exReverted = headRoot exStore1"
    using exUndo by (auto simp: exReverted_def afterRevert_def RevertBlocks_def split: sum.splits)
qed

section \<open>The chain with maps in the opposite order\<close>

abbreviation revLib :: "((bytes \<times> bytes) list, uint64 list, refState) lib" where
  "revLib \<equiv> reorder rev rev refLib"

lemma exBlobs12: "blobs_in refLib exBlobs3 exStore0 exBlock1" "blobs_in refLib exBlobs3 exStore1 exBlock2"
  using blobs_in_mono[OF exBlock1_blobs exBlobs3_mono] blobs_in_mono[OF exBlock2_blobs exBlobs3_mono] by simp_all

lemma exTwin:
  assumes s: "store_inv refLib exPairs exBlobs3 s T n" "store_inv refLib exPairs exBlobs3 s' T n" "headRoot s' = headRoot s"
    and b: "block_ok refLib exPairs block (T, n)" "absBlock refLib block (T, n) = Some (T', n')" "blobs_in refLib exBlobs3 s block"
    and p: "processBlock refLib s block = Inr (root, s1)"
  shows "\<exists>s1'. processBlock revLib s' block = Inr (root, s1') \<and> headRoot s1' = headRoot s1 \<and>
    store_inv refLib exPairs exBlobs3 s1 T' n' \<and> store_inv refLib exPairs exBlobs3 s1' T' n' \<and> blobs_in revLib exBlobs3 s' block"
  using processBlock_twin[OF lib_refLib io_refLib exHash3_ok opens_refLib[OF exHash3_ok] writes_refLib range_rev s b] p
    twin_blobs[OF lib_refLib exHash3_ok opens_refLib[OF exHash3_ok] writes_refLib range_rev s b] by auto

lemma exReach_rev: "\<exists>s. reachable W P revLib exPairs exBlobs3 (Up s) exFrames"
proof -
  have inv0: "store_inv refLib exPairs exBlobs3 exStore0 Map.empty 0" by (rule store_inv_mono[OF exStore0_inv exBlobs3_mono])
  obtain r1 where p1: "processBlock refLib exStore0 exBlock1 = Inr (r1, exStore1)" using exStore1 by blast
  obtain r2 where p2: "processBlock refLib exStore1 exBlock2 = Inr (r2, exStore2)" using exStore2 by blast
  obtain s1 where s1: "processBlock revLib exStore0 exBlock1 = Inr (r1, s1)" "headRoot s1 = headRoot exStore1"
    "store_inv refLib exPairs exBlobs3 s1 Map.empty 0" "blobs_in revLib exBlobs3 exStore0 exBlock1"
    using exTwin[OF inv0 inv0 refl exBlock1_ok exBlobs12(1) p1] by blast
  obtain s2 where s2: "processBlock revLib s1 exBlock2 = Inr (r2, s2)" "blobs_in revLib exBlobs3 s1 exBlock2"
    using exTwin[OF exReverted_facts(1) s1(3,2) exBlock2_ok exBlobs12(2) p2] by blast
  have "\<exists>r. CommitChain revLib exStore0 \<lparr>ccBlocks = [exBlock1, exBlock2]\<rparr> = (Inr r, s2)"
    using s1(1) s2(1) by (simp add: CommitChain_def ProcessBlock_def response_def)
  then obtain r where c: "CommitChain revLib exStore0 \<lparr>ccBlocks = [exBlock1, exBlock2]\<rparr> = (Inr r, s2)" by blast
  have "feed_ok revLib exPairs exBlobs3 s1 [exFrame1, genesis 10] [exBlock2]"
    using exChild(2) s2 by (simp add: exHeadState exBlock2_ok)
  then have "client_ok revLib exPairs exBlobs3 (Up exStore0) [genesis 10] (CommitReq [exBlock1, exBlock2] (Inr r))"
    using exChild(1) s1 by (simp add: exHeadState exBlock1_ok exFrame1_def[symmetric])
  moreover have "reachable W P revLib exPairs exBlobs3 (Down []) [genesis 10]"
    by (rule reachable.empty) (simp add: fun_eq_iff)
  from reachable.step[OF this daemon_step.start] have "reachable W P revLib exPairs exBlobs3 (Up exStore0) [genesis 10]"
    by (simp add: exStore0_eq New_def)
  moreover have "pushBlocks revLib [genesis 10] [exBlock1, exBlock2] = exFrames"
    by (simp add: exHeadState exBlock1_ok exBlock2_ok exFrame1_def[symmetric] exFrame2_def[symmetric] exFrames_def)
  ultimately show ?thesis using reachable.step[OF _ daemon_step.commit[OF c]] by (metis absStep.simps(1))
qed

end
