(* ===== verification/Page_Loop.thy ===== *)
theory Page_Loop
  imports Query_Server "HOL-Library.While_Combinator"
begin

text \<open>
  The page loop of \<open>Query\<close> as the loop it is in the code: a condition and a body on the iterator, the last
  number and the data, left by the error of the body. It ends whatever the backend answers, with the result
  that the recursion \<open>queryLoop\<close> computes.
\<close>

type_synonym loopState = "(uint64 list \<times> uint64 option \<times> bytes list) res"

definition pageCond :: "uint64 \<Rightarrow> loopState \<Rightarrow> bool" where
  "pageCond maxResults r = (case r of Inl e \<Rightarrow> False
     | Inr (it, st) \<Rightarrow> it \<noteq> [] \<and> word_of_nat (length (snd st)) < maxResults)"

definition pageBody ::
    "webLib \<Rightarrow> ('db, 'bm, 'sdb) lib \<Rightarrow> 'bm Backend \<Rightarrow> uint64 \<Rightarrow> IncludeData \<Rightarrow> uint64 \<Rightarrow> loopState \<Rightarrow> loopState" where
  "pageBody W L be atBlockNumber incl maxResults r =
     andThen r (\<lambda>(it, st). let n = unat (batchSize maxResults (snd st)) in
       andThen (foldRes (fetchStep W L be atBlockNumber incl) (take n it) st) (\<lambda>st'. Inr (drop n it, st')))"

lemma page_loop:
  "while_option (pageCond m) (pageBody W L be n incl m) (Inr (it, st)) = Some (queryLoop W L be n incl m it st)"
proof (induction W L be n incl m it st rule: queryLoop.induct)
  case (1 W L be n incl m it st)
  show ?case
  proof (cases "it \<noteq> [] \<and> word_of_nat (length (snd st)) < m")
    case True
    let ?b = "unat (batchSize m (snd st))"
    show ?thesis
    proof (cases "foldRes (fetchStep W L be n incl) (take ?b it) st")
      case (Inl e)
      then have "pageBody W L be n incl m (Inr (it, st)) = Inl e" by (simp add: pageBody_def)
      then have "while_option (pageCond m) (pageBody W L be n incl m) (Inr (it, st)) = Some (Inl e)"
        using True by (subst while_option_unfold) (subst while_option_unfold, simp add: pageCond_def)
      then show ?thesis using True Inl by (subst queryLoop.simps) simp
    next
      case (Inr st')
      then have "pageBody W L be n incl m (Inr (it, st)) = Inr (drop ?b it, st')" by (simp add: pageBody_def)
      then have "while_option (pageCond m) (pageBody W L be n incl m) (Inr (it, st)) =
          while_option (pageCond m) (pageBody W L be n incl m) (Inr (drop ?b it, st'))"
        using True by (subst while_option_unfold) (simp add: pageCond_def)
      also have "\<dots> = Some (queryLoop W L be n incl m (drop ?b it) st')" by (rule "1.IH"[OF True refl Inr])
      finally show ?thesis using True Inr by (subst queryLoop.simps) simp
    qed
  next
    case False
    then show ?thesis by (subst while_option_unfold, subst queryLoop.simps) (auto simp: pageCond_def)
  qed
qed

end
