(* ===== verification/Query_Meaning.thy ===== *)
theory Query_Meaning
  imports Query_Parsed Query_Pages
begin

text \<open>
  What a query means, read off its parse tree: which annotations an entity must have to satisfy it. The meaning
  knows nothing of normal forms or of bitmaps, so it is the specification that normalisation and evaluation
  are together measured against.
\<close>

section \<open>Leaves\<close>

text \<open>The annotation value a literal stands for. Addresses and keys are compared in lower case.\<close>

definition literal :: "(string \<Rightarrow> string) \<Rightarrow> string \<Rightarrow> Value \<Rightarrow> string" where
  "literal uni var v = (case valString v of
     Some s \<Rightarrow> if addressVar var then toLower uni s else s
   | None \<Rightarrow> (case valNumber v of Some n \<Rightarrow> numericVal n | None \<Rightarrow> []))"

definition literals :: "(string \<Rightarrow> string) \<Rightarrow> string \<Rightarrow> Values \<Rightarrow> string set" where
  "literals uni var vs =
     (if addressVar var then toLower uni ` set (valuesStrings vs)
      else set (valuesStrings vs) \<union> numericVal ` set (valuesNumbers vs))"

definition has :: "annotPair list \<Rightarrow> string \<Rightarrow> (string \<Rightarrow> bool) \<Rightarrow> bool" where
  "has ps var P \<longleftrightarrow> (\<exists>x. pair var x \<in> set ps \<and> P x)"

text \<open>
  An ordering comparison is of a text with the non-empty values of the attribute, or of a number with those of
  eight bytes.
\<close>

definition meansCmp ::
    "(string \<Rightarrow> string \<Rightarrow> bool) \<Rightarrow> (uint64 \<Rightarrow> uint64 \<Rightarrow> bool) \<Rightarrow> annotPair list \<Rightarrow> VarValue \<Rightarrow> bool" where
  "meansCmp strRel numRel ps e = has ps (cmpVar e) (\<lambda>x.
     (case valString (cmpValue e) of
        Some s \<Rightarrow> x \<noteq> [] \<and> strRel x s
      | None \<Rightarrow> length x = 8 \<and> pred_option (\<lambda>n. numRel (bytesUint64 x) n) (valNumber (cmpValue e))))"

text \<open>
  The negation of an equality, an inclusion or a pattern is its complement. The negation of an ordering
  comparison is the opposite comparison.
\<close>

fun meansLeaf :: "(string \<Rightarrow> string) \<Rightarrow> annotPair list \<Rightarrow> bool \<Rightarrow> EqualExpr \<Rightarrow> bool" where
  "meansLeaf uni ps positive (EqualExpr paren assign incl lt le gt ge glob) \<longleftrightarrow>
     (\<exists>e. assign = Some e \<and> ((has ps (eqVar e) (\<lambda>x. x = literal uni (eqVar e) (eqValue e)) \<noteq> eqIsNot e) = positive)) \<or>
     (\<exists>e. incl = Some e \<and> ((has ps (inVar e) (\<lambda>x. x \<in> literals uni (inVar e) (inValues e)) \<noteq> inIsNot e) = positive)) \<or>
     (\<exists>e. lt = Some e \<and> (if positive then meansCmp (<) (<) ps e else meansCmp (\<ge>) (\<ge>) ps e)) \<or>
     (\<exists>e. le = Some e \<and> (if positive then meansCmp (\<le>) (\<le>) ps e else meansCmp (>) (>) ps e)) \<or>
     (\<exists>e. gt = Some e \<and> (if positive then meansCmp (>) (>) ps e else meansCmp (\<le>) (\<le>) ps e)) \<or>
     (\<exists>e. ge = Some e \<and> (if positive then meansCmp (\<ge>) (\<ge>) ps e else meansCmp (<) (<) ps e)) \<or>
     (\<exists>e. glob = Some e \<and> ((has ps (glVar e) (\<lambda>x. x \<noteq> [] \<and> globSpec (glValue e) x) \<noteq> glIsNot e) = positive))"

section \<open>Trees\<close>

text \<open>A negated disjunction is the conjunction of the negations, and the other way round.\<close>

fun meansExpression :: "(string \<Rightarrow> string) \<Rightarrow> annotPair list \<Rightarrow> bool \<Rightarrow> Expression \<Rightarrow> bool"
  and meansOr :: "(string \<Rightarrow> string) \<Rightarrow> annotPair list \<Rightarrow> bool \<Rightarrow> OrExpression \<Rightarrow> bool"
  and meansOrRHS :: "(string \<Rightarrow> string) \<Rightarrow> annotPair list \<Rightarrow> bool \<Rightarrow> OrRHS \<Rightarrow> bool"
  and meansAnd :: "(string \<Rightarrow> string) \<Rightarrow> annotPair list \<Rightarrow> bool \<Rightarrow> AndExpression \<Rightarrow> bool"
  and meansAndRHS :: "(string \<Rightarrow> string) \<Rightarrow> annotPair list \<Rightarrow> bool \<Rightarrow> AndRHS \<Rightarrow> bool"
  and meansEq :: "(string \<Rightarrow> string) \<Rightarrow> annotPair list \<Rightarrow> bool \<Rightarrow> EqualExpr \<Rightarrow> bool"
  and meansParen :: "(string \<Rightarrow> string) \<Rightarrow> annotPair list \<Rightarrow> bool \<Rightarrow> Paren \<Rightarrow> bool" where
  "meansExpression uni ps b (Expression e) = meansOr uni ps b e"
| "meansOr uni ps b (OrExpression l rs) =
     (if b then meansAnd uni ps True l \<or> (\<exists>r \<in> set rs. meansOrRHS uni ps True r)
      else meansAnd uni ps False l \<and> (\<forall>r \<in> set rs. meansOrRHS uni ps False r))"
| "meansOrRHS uni ps b (OrRHS a) = meansAnd uni ps b a"
| "meansAnd uni ps b (AndExpression l rs) =
     (if b then meansEq uni ps True l \<and> (\<forall>r \<in> set rs. meansAndRHS uni ps True r)
      else meansEq uni ps False l \<or> (\<exists>r \<in> set rs. meansAndRHS uni ps False r))"
| "meansAndRHS uni ps b (AndRHS e) = meansEq uni ps b e"
| "meansEq uni ps b (EqualExpr (Some p) as inc lt le gt ge gl) = meansParen uni ps b p"
| "meansEq uni ps b (EqualExpr None as inc lt le gt ge gl) = meansLeaf uni ps b (EqualExpr None as inc lt le gt ge gl)"
| "meansParen uni ps b (Paren isNot e) = meansExpression uni ps (b \<noteq> isNot) e"

definition queryMeans :: "(string \<Rightarrow> string) \<Rightarrow> annotPair list \<Rightarrow> TopLevel \<Rightarrow> bool" where
  "queryMeans uni ps tree = (case tree of None \<Rightarrow> True | Some e \<Rightarrow> meansExpression uni ps True e)"

section \<open>Normalisation keeps the meaning\<close>

lemma has_hasValue: "hasValue ps k P = has ps k P"
  by (simp add: has_def hasValue_iff)

lemma satCmp_means: "oneValue (cmpValue e) \<Longrightarrow> satCmp r n ps e = meansCmp r n ps e"
  by (auto simp: satCmp_def meansCmp_def has_hasValue has_def oneValue_def split: option.split)

lemma literals_inclusion:
  assumes "(valuesStrings vs = []) \<noteq> (valuesNumbers vs = [])"
  shows "\<not> addressVar var \<Longrightarrow> set (inclusionValues vs) = literals uni var vs"
    "addressVar var \<Longrightarrow> set (inclusionValues \<lparr>valuesStrings = map (toLower uni) (valuesStrings vs), valuesNumbers = []\<rparr>) =
      literals uni var vs"
  using assms by (auto simp: inclusionValues_def literals_def numericAnnotVal_def numericVal_def)

lemma leaf_positive:
  assumes "leafShape l" "\<not> nilLeaf l"
  shows "leafHolds uni (satTerm ps) l = meansLeaf uni ps True l"
  using assms(1)
proof (cases rule: leafShape_cases)
  case (1 e)
  with assms(2) show ?thesis
    by (auto simp: leafHolds_def normEqualExpr_def normEquality_def nilLeaf_def satTerm_def noTerm_def derefString_def
        annotVal_def derefNumber_def literal_def oneValue_def has_hasValue numericAnnotVal_def numericVal_def split: option.splits)
next
  case (2 e)
  then show ?thesis
    using literals_inclusion[OF 2(3), of "inVar e" uni]
    by (cases "addressVar (inVar e)")
      (simp_all add: leafHolds_def normEqualExpr_def normInclusion_def satTerm_def noTerm_def has_hasValue)
next
  case (7 e)
  then show ?thesis
    by (simp add: leafHolds_def normEqualExpr_def satTerm_def noTerm_def has_hasValue globMatch_globSpec)
qed (auto simp: leafHolds_def normEqualExpr_def cmpShape_norm satTerm_def noTerm_def satCmp_means cmpShape_def)

lemma leaf_negative:
  assumes "leafShape l" "\<not> nilLeaf l"
  shows "\<exists>l'. invEqualExpr l = Inr l' \<and> leafShape l' \<and> \<not> nilLeaf l' \<and> meansLeaf uni ps True l' = meansLeaf uni ps False l"
  using assms(1)
  by (cases rule: leafShape_cases)
    (use assms in \<open>auto simp: invEqualExpr_def nilLeaf_def invEquality_def invInclusion_def invGlob_def\<close>)

lemma tree_means:
  shows "list_all (\<lambda>l. leafShape l \<and> \<not> nilLeaf l) (leavesExpression e) \<Longrightarrow>
      holdsExpression (leafHolds uni (satTerm ps)) b e = meansExpression uni ps b e"
    and "list_all (\<lambda>l. leafShape l \<and> \<not> nilLeaf l) (leavesOr o') \<Longrightarrow>
      holdsOr (leafHolds uni (satTerm ps)) b o' = meansOr uni ps b o'"
    and "list_all (\<lambda>l. leafShape l \<and> \<not> nilLeaf l) (leavesOrRHS r) \<Longrightarrow>
      holdsOrRHS (leafHolds uni (satTerm ps)) b r = meansOrRHS uni ps b r"
    and "list_all (\<lambda>l. leafShape l \<and> \<not> nilLeaf l) (leavesAnd a) \<Longrightarrow>
      holdsAnd (leafHolds uni (satTerm ps)) b a = meansAnd uni ps b a"
    and "list_all (\<lambda>l. leafShape l \<and> \<not> nilLeaf l) (leavesAndRHS q) \<Longrightarrow>
      holdsAndRHS (leafHolds uni (satTerm ps)) b q = meansAndRHS uni ps b q"
    and "list_all (\<lambda>l. leafShape l \<and> \<not> nilLeaf l) (leavesEq c) \<Longrightarrow>
      holdsEq (leafHolds uni (satTerm ps)) b c = meansEq uni ps b c"
    and "list_all (\<lambda>l. leafShape l \<and> \<not> nilLeaf l) (leavesParen d) \<Longrightarrow>
      holdsParen (leafHolds uni (satTerm ps)) b d = meansParen uni ps b d"
proof (induction uni ps b e and uni ps b o' and uni ps b r and uni ps b a and uni ps b q and uni ps b c and uni ps b d
    rule: meansExpression_meansOr_meansOrRHS_meansAnd_meansAndRHS_meansEq_meansParen.induct)
  case (2 uni ps b l rs)
  have "holdsAnd (leafHolds uni (satTerm ps)) b l = meansAnd uni ps b l" using 2 by (cases b) (auto simp: list_all_iff)
  moreover have "holdsOrRHS (leafHolds uni (satTerm ps)) b r = meansOrRHS uni ps b r" if "r \<in> set rs" for r
    using 2 that by (cases b) (auto simp: list_all_iff)
  ultimately show ?case by (cases b) (simp_all cong: bex_cong ball_cong)
next
  case (4 uni ps b l rs)
  have "holdsEq (leafHolds uni (satTerm ps)) b l = meansEq uni ps b l" using 4 by (cases b) (auto simp: list_all_iff)
  moreover have "holdsAndRHS (leafHolds uni (satTerm ps)) b r = meansAndRHS uni ps b r" if "r \<in> set rs" for r
    using 4 that by (cases b) (auto simp: list_all_iff)
  ultimately show ?case by (cases b) (simp_all cong: bex_cong ball_cong)
next
  case (7 uni ps b as inc lt le gt ge gl)
  let ?l = "EqualExpr None as inc lt le gt ge gl"
  have l: "leafShape ?l" "\<not> nilLeaf ?l" using 7 by simp_all
  show ?case
  proof (cases b)
    case True
    then show ?thesis by (simp add: leaf_positive[OF l] del: meansLeaf.simps)
  next
    case False
    obtain l' where l': "invEqualExpr ?l = Inr l'" "leafShape l'" "\<not> nilLeaf l'"
      "meansLeaf uni ps True l' = meansLeaf uni ps False ?l"
      using leaf_negative[OF l] by blast
    then show ?thesis using False by (simp add: leaf_positive[OF l'(2,3)] del: meansLeaf.simps)
  qed
qed simp_all

text \<open>So the normal form of an accepted query is satisfied by exactly the entities the query means.\<close>

lemma norm_means:
  assumes "list_all leafShape (leavesExpression x)" "\<not> list_ex nilLeaf (leavesExpression x)" "normExpression uni x = Inr t"
  shows "satTerms (satTerm ps) t = meansExpression uni ps True x"
proof -
  have "list_all (\<lambda>l. leafShape l \<and> \<not> nilLeaf l) (leavesExpression x)"
    using assms(1,2) by (auto simp: list_all_iff list_ex_iff)
  from norm_meaning(1)[OF assms(3)] tree_means(1)[OF this] show ?thesis by simp
qed

lemma Parse_means:
  assumes p: "parser_ok uc unq num P" and q: "P q = Inr tree"
    and nil: "\<forall>x. tree = Some x \<longrightarrow> \<not> list_ex nilLeaf (leavesExpression x)" and a: "Parse P uni q = Inr ast"
  shows "satAST ps ast = queryMeans uni ps tree"
proof (cases tree)
  case None
  then show ?thesis using q a by (auto simp: Parse_def normTopLevel_def satAST_def queryMeans_def)
next
  case (Some x)
  obtain t where t: "normExpression uni x = Inr t" "ast = Some t"
    using q a Some by (auto simp: Parse_def normTopLevel_def andThen_eq_Inr)
  from norm_means[OF parser_shape[OF p q[unfolded Some]] _ t(1)] nil Some
  show ?thesis by (simp add: satAST_def queryMeans_def t(2))
qed

section \<open>The page of a query\<close>

definition answers :: "('db, 'bm, 'sdb) lib \<Rightarrow> table \<Rightarrow> TopLevel \<Rightarrow> uint64 option \<Rightarrow> uint64 list" where
  "answers L T tree c = rev (sorted_list_of_set
     {i. belowCursor c i \<and> (\<exists>a e. T a = Some (i, e) \<and> queryMeans (unicodeToLower L) (allAnnotations L e) tree)})"

lemma matching_answers:
  assumes "parser_ok uc unq num P" "P q = Inr tree" "\<forall>x. tree = Some x \<longrightarrow> \<not> list_ex nilLeaf (leavesExpression x)"
    "Parse P (unicodeToLower L) q = Inr ast"
  shows "matching L T ast c = answers L T tree c"
  by (simp add: matching_def answers_def Parse_means[OF assms])

end
