(* ===== verification/Spec2Isabelle.thy ===== *)
theory Spec2Isabelle
  imports Further_Facts Example_Roots Page_Loop Query_Meaning
begin

text \<open>
  Verification of the Arkiv storage service, a Go daemon that keeps the state of the entities an
  execution client reports and answers queries about them.

  The program. The client sends blocks of operations to the chain ingest API (\<open>chain/\<close>). The store
  (\<open>store/\<close>) applies each block to a write buffer and commits it in one batch: entities are the code of
  accounts of a Merkle trie, a system account of the trie holds the counter of numbers, the address of
  each live number and the hash of the bitmap of each annotation pair, and a key-value database holds
  the bitmaps, a pointer to the current bitmap of each pair, the number index and the records of blocks.
  A revert opens the trie at the ancestor's root and repopulates the mutable entries of the database
  from it. The query API (\<open>query/\<close>) parses a query, normalises it to a disjunction of conjunctions with
  negations at the leaves, evaluates that with point reads of bitmaps and scans of the pointer index,
  and returns a page of entities, highest number first.

  The theories, in the order of their imports.
    \<^item> \<open>Arkiv_Prelude\<close>: errors and results (\<open>res\<close>; a Go error is \<open>Inl\<close>, a panic is the error \<open>Panic\<close>, which
      passes through wrapping and recovery), words and byte strings, sorting of byte strings, lists.
    \<^item> \<open>Wire_Types\<close>, \<open>Wire_Json\<close>: \<open>types/types.go\<close>, the blocks and operations and their JSON methods.
    \<^item> \<open>Keys\<close>: \<open>store/keys.go\<close>. \<open>Entity\<close>, \<open>Annotations\<close>: \<open>store/entity.go\<close> and the annotation pairs of \<open>store/ops.go\<close>.
    \<^item> \<open>Arkiv_Lib\<close>: the libraries as one parameter, the record \<open>lib\<close>, and what is assumed of them.
    \<^item> \<open>System\<close>: \<open>store/system.go\<close>. \<open>Staging\<close>: \<open>store/staging.go\<close>. \<open>Bitmap\<close>: \<open>store/bitmap.go\<close>.
    \<^item> \<open>Ops\<close>: the six handlers, their dispatch, the flush and the commit (\<open>store/ops.go\<close>, \<open>store/staging.go\<close>).
    \<^item> \<open>Store\<close>: \<open>store/store.go\<close> and \<open>store/revert.go\<close>. \<open>Store_Query\<close>: \<open>store/query.go\<close>.
    \<^item> \<open>Index_Inv\<close>, \<open>Ops_Correct\<close>, \<open>Commit_Correct\<close>, \<open>Store_Correct\<close>, \<open>Revert_Correct\<close>: the invariant and the
      refinement proofs below.
    \<^item> \<open>Query_Lang\<close>, \<open>Query_Norm\<close>: the trees of \<open>query/language.go\<close>, \<open>query/types.go\<close> and \<open>query/normalize.go\<close>, and what
      normalisation means.
    \<^item> \<open>Query_Lexer\<close>, \<open>Query_Grammar\<close>, \<open>Query_Parsed\<close>: the lexer rules of \<open>query/language.go\<close> as regular expressions, its
      struct tags as a grammar on tokens, and what becomes of a query that the parser accepts.
    \<^item> \<open>Query_Meaning\<close>: what a parse tree means for the annotations of an entity, the specification of a query.
    \<^item> \<open>Query_Eval\<close>: \<open>query/evaluate.go\<close> through the interface \<open>StoreQuerier\<close>; \<open>Query_Correct\<close>: the store implements it.
    \<^item> \<open>Query_Server\<close>, \<open>Query_Pages\<close>: \<open>query/server.go\<close> and what a page of results holds.
    \<^item> \<open>Chain_Server\<close>, \<open>Chain_History\<close>: \<open>chain/server.go\<close> and \<open>chain/types.go\<close>, chains of blocks and their history.
    \<^item> \<open>Page_Loop\<close>: the page loop of \<open>query/server.go\<close> as a loop with a condition and a body.
    \<^item> \<open>Daemon\<close>: the service as a state machine (\<open>cmd/arkiv-storaged/main.go\<close> with the two servers): requests, crashes in the
      middle of a request, stops and starts, and the canonical chain as its specification.
    \<^item> \<open>Locking\<close>, \<open>Concurrent_Page\<close>: the steps of a reorganisation under the lock of the store, what readers see next to
      it, and the page loop of a query with blocks committed and reverted between its reads.
    \<^item> \<open>Interleaved_Eval\<close>, \<open>Isolation\<close>: \<open>query/evaluate.go\<close> call by call, each call answered by the store of its moment, and
      the store with its writer and the chain it represents, also in the middle of a reorganisation.
    \<^item> \<open>Split_Reads\<close>: the methods of \<open>store/query.go\<close> read by read, each read of the database at a moment of its own.
    \<^item> \<open>Twin_Runs\<close>, \<open>State_Root\<close>, \<open>Root_Determined\<close>: two runs of a block, on different databases and with another order of
      ranging over maps, and what they agree on; the state root of a chain.
    \<^item> \<open>Version_Info\<close>, \<open>Startup\<close>: \<open>version/version.go\<close>, \<open>version/http.go\<close>, the configuration and the startup of \<open>main\<close>
      with the registration of the two handlers (\<open>chain/server.go\<close>, \<open>query/server.go\<close>).
    \<^item> \<open>Reference_Lib\<close>, \<open>Reference_Clients\<close>, \<open>Reference_Parser\<close>, \<open>Examples\<close>, \<open>Example_Revert\<close>, \<open>Example_Pages\<close>,
      \<open>Example_Daemon\<close>, \<open>Example_Roots\<close>: a concrete library and a concrete parser that meet every assumption, and chains of blocks on
      them, on which the theorems are applied. \<open>Further_Facts\<close>: facts about single operations.

  State and operations. A \<open>Store\<close> has the database and the head (\<open>headRoot\<close>, \<open>headHash\<close>, \<open>headNumber\<close>); a
  \<open>CacheStore\<close> has the staging database, the open trie state and the two caches, association lists for Go
  maps. Numbers, addresses and hashes are words of 64, 160 and 256 bits, so counters wrap as in the code.
  Each operation is a function from the state to a result with the new state; \<open>ProcessBlock\<close>, \<open>RevertBlocks\<close>,
  \<open>Reorg\<close> and the API methods return the store also when they fail. The store's lock makes each of its
  write operations one step, and \<open>daemon_step\<close> has one step for each request. Readers of the pointer and number
  indexes do not take the lock in the code: \<open>writer_step\<close> takes a reorganisation apart into the writes it makes
  with the lock held, \<open>observes\<close> says what can be read meanwhile, \<open>sys_step\<close> puts the reads of the page loop
  between them, and \<open>EvaluateR\<close> runs on any sequence of stores that \<open>shared_step\<close> allows: one for each call with
  \<open>storeQuerier\<close>, one for each read of a call with \<open>splitQuerier\<close>.

  The abstract state is a table from addresses to numbers and entities, with the counter (\<open>astate\<close>). The
  specification of an operation is \<open>absOp\<close>, of a block \<open>absBlock\<close>, of a chain \<open>absChain\<close>. The representation
  (\<open>cs_inv\<close> in a block, \<open>store_inv\<close> between blocks) says that the bitmap of every annotation pair is exactly
  the set of numbers of the live entities that carry it, that the number index and the trie agree with the
  table, and that the pointers, slots and blobs agree with each other; \<open>root_ok\<close> says what a root of the past
  still describes.

  What the lemmas show. The handlers meet the contract \<open>op_contract\<close> of \<open>Ops_Correct\<close>, each by an
  interpretation; \<open>Commit_Correct\<close> shows that flushing and committing makes the table of the buffer the table of
  the database and changes no entry of the past; \<open>Store_Correct\<close> and \<open>Chain_Server\<close> compose these to blocks and
  chains; \<open>Revert_Correct\<close> shows what repopulation restores, and what it does not. The contract \<open>store_querier\<close>
  of \<open>Query_Eval\<close> is that of the six methods a query evaluates through; inside it evaluation is exact, and
  \<open>Query_Correct\<close> interprets it on the store. \<open>Query_Norm\<close> shows that normalisation is total on trees whose leaves
  normalise and preserves meaning, and \<open>Query_Parsed\<close> that every parsed tree is such a tree unless a leaf compares
  an address with a number, which dereferences a nil pointer; \<open>Query_Meaning\<close> that the entities that satisfy the
  normal form are those that the tree means. \<open>Daemon\<close> shows by induction on the steps that the
  store of every reachable state represents the chain of blocks the requests spell out (\<open>chain_inv\<close>), and that a
  request cut short by a crash can be resumed. \<open>Locking\<close> shows that the small steps end in the result of the big
  one, and which states in between can be seen; \<open>Concurrent_Page\<close> what still holds of a page read across blocks,
  and that without a writer its steps are the loop of the code. \<open>Interleaved_Eval\<close> shows that evaluation call by call is the
  evaluation of \<open>Query_Eval\<close> when every call is answered by the same store (\<open>EvaluateR_as\<close>), and exact for an earlier
  block as long as every store represents that block; \<open>Isolation\<close> that every store of a run does. \<open>Split_Reads\<close> shows that
  a call whose reads fall on different moments answers as the store did at the first of them, since blobs and trie nodes
  stay where they are, and interprets the contract of \<open>Query_Eval\<close> a second time, on \<open>splitQuerier\<close>. \<open>Twin_Runs\<close> shows that the
  operations of a block keep two write buffers alike (\<open>twin\<close>) as far as the state root can depend on them, \<open>State_Root\<close>
  that what is flushed into the state does not depend on the order of the flush, and \<open>Root_Determined\<close>, from the roots that
  \<open>chain_inv\<close> keeps on record (\<open>chain_root\<close>), that a chain of blocks has one root.

  Assumptions. \<open>lib_ok\<close> collects what the libraries document: reading after writing and ordered iteration
  of the database, bitmaps as sets, round trips of RLP and of bitmaps, accounts with storage and code, a
  committed root that can be opened as long as its entries are there, ranging over a map in some order.
  \<open>io_ok\<close> says that writes go through; it is assumed only where a theorem claims that an operation
  returns. \<open>hash_ok\<close> says that the hash function has no collision on the set \<open>H\<close> of blobs and the slots of the
  universe \<open>U\<close> of annotation pairs, never on all inputs. \<open>opens_unique\<close> and \<open>writes_commute\<close>, which only the claims
  about state roots assume, say that what a root opens in a content-addressed database is determined by the root, and that
  writes to different slots or of the code of different accounts can be made in any order; \<open>reorder\<close> replaces the order in
  which maps are ranged over. \<open>op_ok\<close> says what the contract ensures of an operation
  before it is forwarded: a created key is new, the counter does not wrap, and attributes do not take the
  names \<open>$owner\<close> and \<open>$expiration\<close>. \<open>Examples\<close> proves all of them of concrete blocks.

  \<open>parser_ok\<close> says that the parser library returns a tree only when the tokens of the query derive it by the tags,
  and never panics. \<open>client_ok\<close> says of the execution client that a block extends the head with the next number
  and a fresh hash, and that a revert names blocks from the head down to an ancestor whose entities are all in
  the number index (\<open>ids_current\<close>); \<open>revert_loses_number\<close> shows what happens otherwise. A crash keeps the batches
  that were written, as the database documents.

  Bounds and termination. No fuel is used. Loops over lists, iterators and ranges are recursions on lists;
  the page loop \<open>queryLoop\<close> ends because a round takes at least one number from the iterator; \<open>globMatch\<close> ends
  because the pattern shrinks; normalisation, which inverts the content of a negated parenthesis before it
  descends, ends by a lexicographic measure of the depth of parentheses that allows for the wrapping an
  inversion does.

  Not modelled. The inside of the parser library: which of several trees it picks, and its errors; the lexer rules
  and tags that it interprets are modelled. The inside of the JSON-RPC and HTTP libraries, the usage text, logging
  and signals. A state that was opened is a value: that the state library reads its nodes when they are asked for makes no
  difference as long as no node is deleted. The page loop of a query makes each of its calls in one step, which
  \<open>reads_are_atomic\<close> justifies. The arguments of error messages: an error has the text of its format. Gas, fees and the
  on-chain contract are not part of the service.
\<close>

section \<open>Processing blocks\<close>

text \<open>C1: Processing a block on a store that represents a table of live entities either commits, and the new
  store represents the table its operations specify and has the block as its head, or, exactly when some
  operation has no entity to act on, returns an error with the store as it was.\<close>

theorem ProcessBlock_refines:
  assumes "lib_ok L" "io_ok L" "hash_ok L U H" "store_inv L U H s T n" "block_ok L U block (T, n)"
    "blobs_in L H s block"
  shows "case absBlock L block (T, n) of
      Some (T', n') \<Rightarrow> \<exists>root s'. ProcessBlock L s block = (Inr root, s') \<and> store_inv L U H s' T' n' \<and>
        head_ok L s' \<and> HeadRoot s' = root \<and> HeadHash s' = Hash (Header block) \<and>
        HeadNumber s' = Number (Header block)
    | None \<Rightarrow> \<exists>e. ProcessBlock L s block = (Inl e, s)"
proof (cases "absBlock L block (T, n)")
  case None
  with processBlock_error[OF assms(1,3,4,5) None] show ?thesis by (auto simp: ProcessBlock_def)
next
  case (Some st)
  obtain T' n' where st: "absBlock L block (T, n) = Some (T', n')" using Some by (cases st) simp
  obtain root s' where p: "processBlock L s block = Inr (root, s')"
    using processBlock_returns[OF assms(1-5) st assms(6)] by blast
  note c = processBlock_commits[OF assms(1,3,4,5) st assms(6) p]
  show ?thesis using c(1-5) by (simp add: st ProcessBlock_def p HeadRoot_def HeadHash_def HeadNumber_def)
qed

theorem ProcessBlock_refines_witness:
  "\<exists>root s'. ProcessBlock refLib exStore1 exBlock2 = (Inr root, s') \<and> store_inv refLib exPairs exBlobs s' exTable 1 \<and>
    HeadHash s' = 12 \<and> HeadNumber s' = 2"
  using ProcessBlock_refines[OF lib_refLib io_refLib exHash_ok exStore1_inv(1) exBlock2_ok(1) exBlock2_blobs]
  by (auto simp: exBlock2_ok(2)) (auto simp: exBlock2_def)

text \<open>C2: One operation on the write buffer of a block implements its specification on the table: a creation
  adds the entity under the next number, an update replaces what it may, a deletion or expiry removes it, an
  extension and a transfer change one field, and each but the creation fails when there is no entity. In the
  invariant the bitmap of every annotation pair is exactly the set of numbers of the entities that carry it.\<close>

theorem applyOp_refines:
  assumes "lib_ok L" "hash_ok L U H" "cs_inv L U H cs T n" "op_ok L U (blockNumber cs) op (T, n)"
  shows "case absOp L (blockNumber cs) op (T, n) of
      Some (T', n') \<Rightarrow> \<exists>cs'. applyOp L cs op = Inr cs' \<and> sameBlock cs cs' \<and> cs_inv L U H cs' T' n'
    | None \<Rightarrow> \<exists>e. applyOp L cs op = Inl e"
proof (cases "absOp L (blockNumber cs) op (T, n)")
  case None
  with dispatch.fails[OF assms None] show ?thesis by simp
next
  case (Some st)
  then show ?thesis using dispatch.succeeds[OF assms] by (cases st) auto
qed

theorem applyOp_refines_witness:
  "\<exists>cs cs'. cs_inv refLib exPairs exBlobs cs Map.empty 0 \<and> applyOp refLib cs exOp = Inr cs' \<and>
    cs_inv refLib exPairs exBlobs cs' exTable 1"
proof -
  obtain cs where cs: "cs_inv refLib exPairs exBlobs cs Map.empty 0" "blockNumber cs = 2"
    using exBuffer by blast
  have "op_ok refLib exPairs (blockNumber cs) exOp (Map.empty, 0)" by (simp add: cs(2) exOp_ok(1))
  from applyOp_refines[OF lib_refLib exHash_ok cs(1) this] cs(1) show ?thesis
    by (simp add: cs(2) exOp_ok(2)) blast
qed

section \<open>The service as a whole\<close>





text \<open>C5: Nodes that follow the same chain have the same state root for each of its blocks: it depends neither on the
  blocks a node took in and took back before, nor on its crashes, nor on the order in which Go ranges over its maps.\<close>

theorem state_root_determined:
  assumes "lib_ok L" "io_ok L" "hash_ok L U H" "opens_unique L H" "writes_commute L" "range_ok (reorder rp ra L)"
    "reachable W P L U H (Up s) fs" "reachable W' P' (reorder rp ra L) U H (Up s') fs"
  shows "HeadRoot s' = HeadRoot s \<and>
    (\<forall>f \<in> set fs. ancestorRootOf L (rd L (rawDB s')) (frHash f) = ancestorRootOf L (rd L (rawDB s)) (frHash f))"
proof -
  have "chain_inv L U H s fs" using reachable_inv[OF assms(1-3,7)] by simp
  moreover have "hash_ok (reorder rp ra L) U H" using assms(3) by simp
  from reachable_inv[OF reorder_lib_ok[OF assms(1,6)] reorder_io_ok[OF assms(2)] this assms(8)]
  have "chain_inv (reorder rp ra L) U H s' fs" by simp
  ultimately show ?thesis unfolding HeadRoot_def by (rule chain_inv_roots[OF assms(1,3-6)])
qed

theorem state_root_determined_witness:
  "\<exists>s. reachable refWeb refParseString (reorder rev rev refLib) exPairs exBlobs3 (Up s) exFrames \<and>
    HeadRoot s = HeadRoot exStore2 \<and>
    ancestorRootOf refLib (rd refLib (rawDB s)) 11 = ancestorRootOf refLib (rd refLib (rawDB exStore2)) 11"
proof -
  obtain s where s: "reachable refWeb refParseString (reorder rev rev refLib) exPairs exBlobs3 (Up s) exFrames"
    using exReach_rev by blast
  from state_root_determined[OF lib_refLib io_refLib exHash3_ok opens_refLib[OF exHash3_ok] writes_refLib range_rev exReach2 s]
  show ?thesis using s by (auto simp: exFrames_def exFrames_sel)
qed

text \<open>C6: A block gives the same root on any two stores that represent the same table under the same root, whatever
  else their databases hold and in whatever order the maps are ranged over.\<close>

theorem block_root_determined:
  assumes "lib_ok L" "io_ok L" "hash_ok L U H" "opens_unique L H" "writes_commute L" "range_ok (reorder rp ra L)"
    "store_inv L U H s T n" "store_inv L U H s' T n" "HeadRoot s' = HeadRoot s"
    "block_ok L U block (T, n)" "absBlock L block (T, n) = Some (T', n')" "blobs_in L H s block"
  shows "\<exists>root s1 s1'. ProcessBlock L s block = (Inr root, s1) \<and>
    ProcessBlock (reorder rp ra L) s' block = (Inr root, s1') \<and> HeadRoot s1 = root \<and> HeadRoot s1' = root \<and>
    store_inv L U H s1 T' n' \<and> store_inv L U H s1' T' n'"
proof -
  have r: "headRoot s' = headRoot s" using assms(9) by (simp add: HeadRoot_def)
  obtain root s1 s1' where p: "processBlock L s block = Inr (root, s1)" "processBlock (reorder rp ra L) s' block = Inr (root, s1')"
    "headRoot s1' = headRoot s1" "store_inv L U H s1 T' n'" "store_inv L U H s1' T' n'"
    using processBlock_twin[OF assms(1-8) r assms(10-12)] by blast
  moreover have "headRoot s1 = root"
    by (rule processBlock_commits(3)[OF assms(1,3,7,10,11,12) p(1)])
  ultimately show ?thesis by (simp add: ProcessBlock_def HeadRoot_def)
qed

theorem block_root_determined_witness:
  "\<exists>root s1. ProcessBlock refLib exStore1 exBlock2 = (Inr root, exStore2) \<and>
    ProcessBlock (reorder rev rev refLib) exReverted exBlock2 = (Inr root, s1) \<and> HeadRoot s1 = HeadRoot exStore2 \<and>
    store_inv refLib exPairs exBlobs3 s1 exTable 1"
proof -
  have "HeadRoot exReverted = HeadRoot exStore1" by (simp add: HeadRoot_def exReverted_facts)
  from block_root_determined[OF lib_refLib io_refLib exHash3_ok opens_refLib[OF exHash3_ok] writes_refLib range_rev
      exReverted_facts(1,2) this exBlock2_ok exBlobs12(2)]
  show ?thesis using exStore2 by (auto simp: ProcessBlock_def)
qed

text \<open>C7: When \<open>main\<close> comes to serve, the store of both APIs is that of the database under the data directory, which
  is the chain that was there when the service went down; each server passes everything but the version page on to
  its API, at the address of the flag, else of the configuration file, else the default one.\<close>

theorem startup_serves_chain:
  assumes "main os L current fl = Serving chainHTTP queryHTTP s" "rpc_ok os receiver"
    "openPebble os (pathJoin os (dataDirOf os fl) ''db'') = Inr db" "reachable W P L U H (Down db) fs"
  shows "reachable W P L U H (Up s) fs \<and> (\<exists>cfg. readConfig os (dataDirOf os fl) = Inr cfg \<and>
    httpAddr chainHTTP = (case flagChainAddr fl of Some a \<Rightarrow> a
      | None \<Rightarrow> if cfgChainAddr cfg = [] then ''127.0.0.1:2704'' else cfgChainAddr cfg) \<and>
    httpAddr queryHTTP = (case flagQueryAddr fl of Some a \<Rightarrow> a
      | None \<Rightarrow> if cfgQueryAddr cfg = [] then ''127.0.0.1:2705'' else cfgQueryAddr cfg)) \<and>
    (\<forall>r. reqPath r = ''/version'' \<or>
      (\<exists>srv. serveHTTP current chainHTTP r = Inl srv \<and> receiver srv ''arkiv'' = Some (ChainHandler s)) \<and>
      (\<exists>srv. serveHTTP current queryHTTP r = Inl srv \<and> receiver srv ''arkiv'' = Some (QueryHandler (storeBackend L s))))"
proof -
  have "reachable W P L U H (Up s) fs"
    using reachable.step[OF assms(4) main_starts[OF assms(1,3)]] by simp
  then show ?thesis using assms(1) main_receivers[OF assms(1,2)] by (auto simp: main_Serving chainAddrOf_cases flags.defs)
qed

theorem startup_serves_chain_witness:
  "main exOs refLib exInfo exFlags = Serving exChainHttp exQueryHttp exStore2 \<and>
    reachable refWeb refParseString refLib exPairs exBlobs3 (Up exStore2) exFrames"
proof -
  have o: "openPebble exOs (pathJoin exOs (dataDirOf exOs exFlags) ''db'') = Inr (rawDB exStore2)"
    by (simp add: exOs_def exFlags_def dataDirOf_def defaultDataDir_def)
  have "New refLib (rawDB exStore2) = exStore2" using exChain2 by (simp add: chain_inv_def)
  then have m: "main exOs refLib exInfo exFlags = Serving exChainHttp exQueryHttp exStore2"
    unfolding main_Serving o
    by (simp add: exOs_def exFlags_def readConfig_def loadConfig_def chainAddrOf_cases flags.defs newChainServer_def newQueryServer_def)
  from startup_serves_chain[OF m rpc_exOs o exDown2] m show ?thesis by blast
qed



section \<open>Queries\<close>

text \<open>C9: A query at the head returns a page of the matching live entities: the encodings of the requested fields
  of the entities with the highest numbers below the cursor, and the number of the last one as the cursor of the
  next page when there are more.\<close>

theorem Query_page:
  assumes "lib_ok L" "web_ok W" "hash_ok L U H" "store_inv L U H s T n" "pair ''$all'' ''true'' \<in> U"
    "Parse ParseString (unicodeToLower L) q = Inr ast" "astOk (\<lambda>t. pointTerm U t \<or> scanTerm t) ast"
    "getAtBlock opts = 0" "getCursor W opts = Inr c"
  shows "\<exists>data. Query W ParseString L (storeBackend L s) q opts =
      Inr \<lparr>qrData = data, qrBlockNumber = headNumber s,
        qrCursor = nextCursor W (unat (getResultsPerPage opts)) (matching L T ast c)\<rparr> \<and>
    list_all2 (rendered W L (getIncludeData opts) T) (take (unat (getResultsPerPage opts)) (matching L T ast c)) data"
  by (rule Query_head[OF assms])

theorem Query_page_witness:
  "\<exists>data. Query refWeb refParseString refLib (storeBackend refLib exStore2) exQuery None =
      Inr \<lparr>qrData = data, qrBlockNumber = 2, qrCursor = None\<rparr> \<and> length data = 1"
proof -
  have o: "getAtBlock None = 0" "getCursor refWeb None = Inr None" by (simp_all add: getAtBlock_def getCursor_def)
  have p: "unat (getResultsPerPage None) = 200" by (simp add: getResultsPerPage_def queryResultCountLimit_def)
  obtain data where "Query refWeb refParseString refLib (storeBackend refLib exStore2) exQuery None =
      Inr \<lparr>qrData = data, qrBlockNumber = headNumber exStore2, qrCursor = nextCursor refWeb 200 [1]\<rparr>"
    "list_all2 (rendered refWeb refLib (getIncludeData None) exTable) (take 200 [1]) data"
    using Query_page[OF lib_refLib web_refWeb exHash_ok exStore2_inv(1) exPairs_all exParse_ok exAst_ok(1) o]
    unfolding p exMatching by blast
  then show ?thesis by (auto simp: nextCursor_def exStore2_head dest: list_all2_lengthD)
qed

text \<open>C10: Following the cursor of a page gives the page that continues it: first page and next page list the
  matching entities from the highest number down, without a gap and without a repetition.\<close>

theorem Query_next_page:
  assumes "lib_ok L" "web_ok W" "hash_ok L U H" "store_inv L U H s T n" "pair ''$all'' ''true'' \<in> U"
    "Parse ParseString (unicodeToLower L) q = Inr ast" "astOk (\<lambda>t. pointTerm U t \<or> scanTerm t) ast"
    "getAtBlock (Some opt) = 0" "getCursor W (Some opt) = Inr c"
    "Query W ParseString L (storeBackend L s) q (Some opt) = Inr r" "qrCursor r = Some cur"
  shows "\<exists>data. Query W ParseString L (storeBackend L s) q (Some (opt\<lparr>optCursor := cur\<rparr>)) =
      Inr \<lparr>qrData = data, qrBlockNumber = headNumber s,
        qrCursor = nextCursor W (unat (getResultsPerPage (Some opt)))
          (drop (unat (getResultsPerPage (Some opt))) (matching L T ast c))\<rparr> \<and>
    list_all2 (rendered W L (getIncludeData (Some opt)) T)
      (take (2 * unat (getResultsPerPage (Some opt))) (matching L T ast c)) (qrData r @ data)"
proof -
  let ?m = "unat (getResultsPerPage (Some opt))" and ?ids = "matching L T ast c" and ?opt = "opt\<lparr>optCursor := cur\<rparr>"
  have r: "qrCursor r = nextCursor W ?m ?ids"
    "list_all2 (rendered W L (getIncludeData (Some opt)) T) (take ?m ?ids) (qrData r)"
    using Query_head[OF assms(1-9)] assms(10) by auto
  then have m: "0 < ?m" "?m < length ?ids" "cur = EncodeUint64 W (?ids ! (?m - 1))"
    using assms(11) by (auto simp: nextCursor_def split: if_splits)
  have o: "getAtBlock (Some ?opt) = 0" "getResultsPerPage (Some ?opt) = getResultsPerPage (Some opt)"
    "getIncludeData (Some ?opt) = getIncludeData (Some opt)"
    using assms(8) by (simp_all add: getAtBlock_def getResultsPerPage_def getIncludeData_def)
  have c: "getCursor W (Some ?opt) = Inr (Some (?ids ! (?m - 1)))"
    using assms(2) by (simp add: getCursor_def m(3) web_ok_def)
  have nxt: "matching L T ast (Some (?ids ! (?m - 1))) = drop ?m ?ids"
    by (rule matching_next[OF m(1)]) (use m(2) in simp)
  have "take (2 * ?m) ?ids = take ?m ?ids @ take ?m (drop ?m ?ids)"
    by (metis mult_2 take_add)
  then show ?thesis
    using Query_head[OF assms(1-7) o(1) c] r(2) unfolding nxt o(2,3)
    by (auto intro: list_all2_appendI)
qed

theorem Query_next_page_witness:
  "\<exists>r data. Query refWeb refParseString refLib (storeBackend refLib exStoreB) exQuery (Some exOpt) = Inr r \<and>
    qrCursor r = Some (uint64Bytes 2) \<and>
    Query refWeb refParseString refLib (storeBackend refLib exStoreB) exQuery (Some (exOpt\<lparr>optCursor := uint64Bytes 2\<rparr>)) =
      Inr \<lparr>qrData = data, qrBlockNumber = 3, qrCursor = None\<rparr> \<and> length (qrData r @ data) = 2"
proof -
  note q = lib_refLib web_refWeb exHash2_ok exStoreB_inv(1) exPairs_all exParse_ok exAst_ok(1) exOpt_facts(1,2)
  obtain r where r: "Query refWeb refParseString refLib (storeBackend refLib exStoreB) exQuery (Some exOpt) = Inr r"
    "qrCursor r = Some (uint64Bytes 2)"
    using Query_head[OF q] by (auto simp: exMatching2 exOpt_facts nextCursor_def)
  have l: "list_all2 R [2, 1 :: uint64] data \<Longrightarrow> length data = 2" for R and data :: "bytes list"
    by (auto dest: list_all2_lengthD)
  from Query_next_page[OF q r(1,2)] r exStoreB_inv(2) show ?thesis
    by (auto simp: exMatching2 exOpt_facts nextCursor_def dest!: l)
qed

text \<open>C11: At the head a normal form evaluates to exactly the numbers of the live entities that satisfy it,
  whichever of the point reads and scans its terms use.\<close>

theorem Evaluate_at_head:
  assumes "lib_ok L" "hash_ok L U H" "store_inv L U H s T n" "pair ''$all'' ''true'' \<in> U"
    "astOk (\<lambda>t. pointTerm U t \<or> scanTerm t) ast"
  shows "\<exists>b. Evaluate L (storeQuerier L s) 0 ast = Inr b \<and>
    bmSet L b = {i. \<exists>a e. T a = Some (i, e) \<and> satAST (allAnnotations L e) ast}"
  by (rule Evaluate_head[OF assms])

theorem Evaluate_at_head_witness:
  "\<exists>b. Evaluate refLib (storeQuerier refLib exStoreB) 0 exAst = Inr b \<and> bmSet refLib b = {1, 2}"
proof -
  have "{i. \<exists>a e. exTable2 a = Some (i, e) \<and> satAST (allAnnotations refLib e) exAst} = {1, 2}"
    using exEntity_sat exAddr2_facts(2) by (auto simp: exTable2_def exTable_def split: if_splits)
  with Evaluate_at_head[OF lib_refLib exHash2_ok exStoreB_inv(1) exPairs_all exAst_ok(1)] show ?thesis by simp
qed

text \<open>C12: What a query of equalities and inclusions returns at a block of the chain depends on that block only: in every
  reachable state whose chain has the block, whatever was committed, reverted or restarted since, it is the numbers
  of the entities that satisfied it when the block was processed.\<close>

theorem past_queries_stable:
  assumes "lib_ok L" "io_ok L" "hash_ok L U H" "pair ''$all'' ''true'' \<in> U" "reachable W P L U H (Up s) fs"
    "f \<in> set fs" "frNumber f \<noteq> 0" "astOk (pointTerm U) ast"
  shows "\<exists>b. Evaluate L (storeQuerier L s) (frNumber f) ast = Inr b \<and>
    bmSet L b = {i. \<exists>a e. frTable f a = Some (i, e) \<and> satAST (allAnnotations L e) ast}"
proof (rule Evaluate_past)
  have "chain_inv L U H s fs" using reachable_inv[OF assms(1-3,5)] by simp
  then show "blockRep L U s (frNumber f) (frTable f)" by (rule chain_inv_readable[OF assms(1,4) _ assms(6,7)])
qed (rule assms(8))

theorem past_queries_stable_witness:
  "(\<exists>b. Evaluate refLib (storeQuerier refLib exStore2) 1 (Some [[exNameTerm]]) = Inr b \<and> bmSet refLib b = {}) \<and>
   (\<exists>b. Evaluate refLib (storeQuerier refLib exStore2) 2 (Some [[exNameTerm]]) = Inr b \<and> bmSet refLib b = {1})"
proof -
  note q = past_queries_stable[OF lib_refLib io_refLib exHash3_ok exPairs_all exReach2]
  have f: "exFrame1 \<in> set exFrames" "exFrame2 \<in> set exFrames" "frNumber exFrame1 \<noteq> 0" "frNumber exFrame2 \<noteq> 0"
    by (simp_all add: exFrames_def exFrames_sel)
  have "satAST (allAnnotations refLib exEntity) (Some [[exNameTerm]])"
    using exEntity_sat(1) by (simp add: satAST_def exAst_def satTerms_def)
  then have "{i. \<exists>a e. exTable a = Some (i, e) \<and> satAST (allAnnotations refLib e) (Some [[exNameTerm]])} = {1}"
    by (auto simp: exTable_def split: if_splits)
  with q[OF f(1,3) exAst_ok(2)] q[OF f(2,4) exAst_ok(2)] show ?thesis by (simp add: exFrames_sel)
qed

section \<open>Reverting\<close>



text \<open>C14: Reverting any number of blocks restores the store to the table of the ancestor when the number index
  still records the entities of that table.\<close>

theorem revert_restores_table:
  assumes "lib_ok L" "hash_ok L U H" "store_inv L U H s T n" "revertToAncestor L s refs = Inr s'"
    "root_ok L U (rd L (rawDB s)) (headRoot s') Tp np" "ids_current (rd L (rawDB s)) Tp"
  shows "store_inv L U H s' Tp np \<and> head_ok L s' \<and>
    (\<forall>ref \<in> set refs. rd L (rawDB s') (rootKey (refHash ref)) = None)"
  using revert_restores[OF assms] revert_head(1,4)[OF assms(1-4)] by blast

theorem revert_restores_table_witness:
  "\<exists>s. revertToAncestor refLib exStore2 [exRef] = Inr s \<and> store_inv refLib exPairs exBlobs s Map.empty 0 \<and>
    rd refLib (rawDB s) (rootKey 12) = None"
proof -
  obtain s where s: "revertToAncestor refLib exStore2 [exRef] = Inr s" "headRoot s = headRoot exStore1"
    using exUndo by blast
  from revert_restores_table[OF lib_refLib exHash_ok exStore2_inv(1) s(1) _ ids_current_empty] exOldRoot s
  show ?thesis by (auto simp: exRef_def)
qed

text \<open>C15: Repopulation restores the annotation index in any case: after a revert the pointer of every pair names
  the bitmap that holds the numbers of the ancestor's entities with that pair.\<close>

theorem revert_restores_annotations:
  assumes "lib_ok L" "hash_ok L U H" "store_inv L U H s T n" "revertToAncestor L s refs = Inr s'"
    "root_ok L U (rd L (rawDB s)) (headRoot s') Tp np" "p \<in> U"
  shows "\<exists>sdb. stateNew L (rd L (rawDB s)) (headRoot s') = Inr sdb \<and>
    ptr_ok L (rd L (rawDB s')) sdb p (idsOf L Tp p)"
  by (rule revert_annotations[OF assms])

theorem revert_restores_annotations_witness:
  "\<exists>s sdb. revertToAncestor refLib exStore2 [exRef] = Inr s \<and>
    ptr_ok refLib (rd refLib (rawDB s)) sdb (pair ''$all'' ''true'') {}"
proof -
  obtain s where s: "revertToAncestor refLib exStore2 [exRef] = Inr s" "headRoot s = headRoot exStore1"
    using exUndo by blast
  have "root_ok refLib exPairs (rd refLib (rawDB exStore2)) (headRoot s) Map.empty 0" using exOldRoot s(2) by simp
  from revert_restores_annotations[OF lib_refLib exHash_ok exStore2_inv(1) s(1) this exPairs_all]
  have "\<exists>sdb. ptr_ok refLib (rd refLib (rawDB s)) sdb (pair ''$all'' ''true'') {}"
    unfolding idsOf_def by (elim exE conjE) (intro exI; simp)
  with s(1) show ?thesis by blast
qed

text \<open>C16: No revert writes an entry of the number index, whatever the trie of the ancestor says. When the entry
  of an entity of the ancestor is missing, as it is after an earlier revert to a block where the entity was
  deleted, the entity is live again and can be read by its address, but its number leads nowhere, so a page of
  results leaves it out.\<close>

theorem revert_loses_number:
  assumes "lib_ok L" "hash_ok L U H" "store_inv L U H s T n" "revertToAncestor L s refs = Inr s'"
    "root_ok L U (rd L (rawDB s)) (headRoot s') Tp np" "pair ''$all'' ''true'' \<in> U"
    "Tp a = Some (i, e)" "rd L (rawDB s) (idKey i) = None"
  shows "GetEntity L s' 0 a = Inr e \<and> IDToAddress L s' i = None \<and> \<not> store_inv L U H s' Tp np \<and>
    fetchStep W L (storeBackend L s') 0 incl i (l, data) = Inr (Some i, data)"
proof -
  have "root_ok L U (rd L (rawDB s')) (headRoot s') Tp np"
    by (rule root_ok_mono[OF assms(1,5) revert_head(5)[OF assms(1-4)]])
  then have rep: "blockRep L U s' 0 Tp" using assms(1,6) by (auto simp: blockRep_def rootAt_def)
  obtain x where "dbGet L (rawDB s') (idKey i) = Inl x"
    using revert_ids(1)[OF assms(1-4,8)] by (auto simp: rd_def okOption_eq_None)
  then have no: "IDToAddress L s' i = None" by (simp add: IDToAddress_def)
  moreover have "\<not> store_inv L U H s' Tp np"
    using IDToAddress_table[of L U H s' Tp np a i e] assms(7) no by auto
  ultimately show ?thesis
    using GetEntity_table(1)[OF rep assms(7)] by (simp add: fetchStep_def storeBackend_def)
qed

theorem revert_loses_number_witness:
  "\<exists>s s'. revertToAncestor refLib exStore4 [exRef4] = Inr s \<and> revertToAncestor refLib s [exRef3] = Inr s' \<and>
    GetEntity refLib s' 0 exAddr = Inr exEntity \<and> IDToAddress refLib s' 1 = None"
proof -
  obtain s where s: "revertToAncestor refLib exStore4 [exRef4] = Inr s" "store_inv refLib exPairs exBlobs3 s Map.empty 1"
    "rd refLib (rawDB s) (idKey 1) = None" "rd refLib (rawDB s) (parentKey 13) = Some (hashBytes 12)"
    "rd refLib (rawDB s) (rootKey 12) = Some (hashBytes (headRoot exStore2))"
    "root_ok refLib exPairs (rd refLib (rawDB s)) (headRoot exStore2) exTable 1"
    using exRevert4 by blast
  obtain s' where s': "revertToAncestor refLib s [exRef3] = Inr s'" "headRoot s' = headRoot exStore2"
    using exRevert3[OF s(2,4-6)] by blast
  have "exTable exAddr = Some (1, exEntity)" by (simp add: exTable_def)
  from revert_loses_number[OF lib_refLib exHash3_ok s(2) s'(1) s(6)[folded s'(2)] exPairs_all this s(3)] s(1) s'(1)
  show ?thesis by blast
qed

section \<open>Chains of blocks\<close>

text \<open>C17: A request to commit a chain of blocks commits every block when the specification accepts all, and
  otherwise exactly the blocks before the first it rejects; the store then represents the table after those.\<close>

theorem CommitChain_refines:
  assumes "lib_ok L" "io_ok L" "hash_ok L U H" "store_inv L U H s T n" "chain_ok L U H s blocks (T, n)"
  shows "case absChain L blocks (T, n) of
      Some (T', n') \<Rightarrow> \<exists>r s'. CommitChain L s \<lparr>ccBlocks = blocks\<rparr> = (Inr r, s') \<and> store_inv L U H s' T' n'
    | None \<Rightarrow> \<exists>e s' before block rest T' n'. CommitChain L s \<lparr>ccBlocks = blocks\<rparr> = (Inl e, s') \<and>
        blocks = before @ block # rest \<and> absChain L before (T, n) = Some (T', n') \<and>
        absBlock L block (T', n') = None \<and> store_inv L U H s' T' n'"
  using commitBlocks_refines[OF assms, of 0]
  by (simp add: CommitChain_def response_def split: option.splits prod.splits) (metis Pair_inject andThen_simps)+

theorem CommitChain_refines_witness:
  "\<exists>r s'. CommitChain refLib exStore0 \<lparr>ccBlocks = [exBlock1, exBlock2]\<rparr> = (Inr r, s') \<and>
    store_inv refLib exPairs exBlobs s' exTable 1"
  using CommitChain_refines[OF lib_refLib io_refLib exHash_ok exStore0_inv exChain_ok] by (simp add: exChain_abs)

text \<open>C18: Whatever the libraries do, a failing request to commit leaves the store after the blocks before the
  one that failed, which stay committed, and reports the error of that block.\<close>

theorem CommitChain_partial:
  assumes "CommitChain L s \<lparr>ccBlocks = blocks\<rparr> = (Inl e, s')"
  shows "\<exists>before block rest r e'. blocks = before @ block # rest \<and>
    CommitChain L s \<lparr>ccBlocks = before\<rparr> = (Inr r, s') \<and> processBlock L s' block = Inl e' \<and>
    e = wrapE ''process block %d'' e'"
proof -
  have "commitBlocks L s 0 blocks = (Inl e, s')"
    using assms by (auto simp: CommitChain_def response_Inl split: prod.splits)
  from commitBlocks_error[OF this] show ?thesis by (fastforce simp: CommitChain_def response_def)
qed

theorem CommitChain_partial_witness:
  "\<exists>before block rest r e'. [exBlock1, exBad] = before @ block # rest \<and>
    CommitChain refLib exStore0 \<lparr>ccBlocks = before\<rparr> = (Inr r, exStore1) \<and> processBlock refLib exStore1 block = Inl e'"
proof -
  obtain e where "CommitChain refLib exStore0 \<lparr>ccBlocks = [exBlock1, exBad]\<rparr> = (Inl e, exStore1)"
    using exBad_commit by (auto simp: CommitChain_def response_def simp del: commitBlocks.simps)
  from CommitChain_partial[OF this] show ?thesis by blast
qed

text \<open>C19: A reorganisation that fails is not undone: once the reverted blocks are gone, the store is left after
  them and after the new blocks before the one that failed.\<close>

theorem Reorg_partial:
  assumes "Reorg L s refs blocks = (Inl e, s')"
  shows "(refs \<noteq> [] \<and> revertToAncestor L s refs = Inl e \<and> s' = s) \<or>
    (\<exists>s0 before block rest r e'. (if refs = [] then s0 = s else revertToAncestor L s refs = Inr s0) \<and>
      blocks = before @ block # rest \<and> commitBlocks L s0 (headRoot s0) before = (Inr r, s') \<and>
      processBlock L s' block = Inl e' \<and> e = wrapE ''new block %d'' e')"
proof (cases "refs = []")
  case True
  with assms have "reorgApply L s blocks = (Inl e, s')" by (simp add: Reorg_def)
  from reorgApply_error[OF this, of "headRoot s"] True show ?thesis by auto
next
  case False
  show ?thesis
  proof (cases "revertToAncestor L s refs")
    case (Inl e')
    with assms False show ?thesis by (simp add: Reorg_def)
  next
    case (Inr s0)
    with assms False have "reorgApply L s0 blocks = (Inl e, s')" by (simp add: Reorg_def)
    from reorgApply_error[OF this, of "headRoot s0"] Inr False show ?thesis by auto
  qed
qed

theorem Reorg_partial_witness:
  "\<exists>before block rest r e'. [exBlock1, exBad] = before @ block # rest \<and>
    commitBlocks refLib exStore0 (headRoot exStore0) before = (Inr r, exStore1) \<and>
    processBlock refLib exStore1 block = Inl e'"
proof -
  obtain e where "Reorg refLib exStore0 [] [exBlock1, exBad] = (Inl e, exStore1)" using exBad_reorg by blast
  from Reorg_partial[OF this] show ?thesis by auto
qed

section \<open>Crashes and concurrency\<close>

text \<open>C20: When the service crashes in the middle of a commit or a reorganisation, what is on disk is the chain with
  the blocks that were committed; started again, and sent the blocks that are left, it ends in the very store in
  which the request would have left it.\<close>

theorem crash_then_resume:
  assumes "lib_ok L" "io_ok L" "hash_ok L U H" "reachable W P L U H (Up s) fs" "client_ok L U H (Up s) fs ev"
    "ev = CrashCommit blocks k \<and> whole = CommitChain L s \<lparr>ccBlocks = blocks\<rparr> \<or>
     ev = CrashReorg refs blocks k \<and> whole = ReorgChain L s \<lparr>rgRevertedBlocks = refs, rgNewBlocks = blocks\<rparr>"
    "daemon_step W P L (Up s) ev (Down db)" "daemon_step W P L (Down db) Start (Up s')"
  shows "chain_inv L U H s' (absStep L fs ev) \<and> snd (CommitChain L s' \<lparr>ccBlocks = drop k blocks\<rparr>) = snd whole"
proof -
  have s': "s' = New L db" using assms(8) by (auto elim: daemon_stepE)
  have "daemon_inv L U H (Down db) (absStep L fs ev)"
    by (rule reachable_inv[OF assms(1-3) reachable.step[OF assms(4,7,5)]])
  then have inv: "chain_inv L U H s' (absStep L fs ev)" by (simp add: s')
  note step = daemon_step_inv[OF assms(1-3) _ reachable_inv[OF assms(1-4)]]
  from assms(6) have "snd (CommitChain L s' \<lparr>ccBlocks = drop k blocks\<rparr>) = snd whole"
  proof
    assume a: "ev = CrashCommit blocks k \<and> whole = CommitChain L s \<lparr>ccBlocks = blocks\<rparr>"
    with assms(7) obtain r t where t: "CommitChain L s \<lparr>ccBlocks = take k blocks\<rparr> = (Inr r, t)" "db = rawDB t"
      by (auto elim: daemon_stepE)
    have "daemon_inv L U H (Up t) (absStep L fs (CommitReq (take k blocks) (Inr r)))"
      using step[OF daemon_step.commit[OF t(1)]] assms(5) a by (simp add: feed_ok_take)
    then have "New L (rawDB t) = t" by (simp add: chain_inv_def)
    with resume_commit[OF t(1)] a show ?thesis by (simp add: s' t(2))
  next
    assume a: "ev = CrashReorg refs blocks k \<and> whole = ReorgChain L s \<lparr>rgRevertedBlocks = refs, rgNewBlocks = blocks\<rparr>"
    with assms(7) obtain r t where
      t: "ReorgChain L s \<lparr>rgRevertedBlocks = refs, rgNewBlocks = take k blocks\<rparr> = (Inr r, t)" "db = rawDB t"
      by (auto elim: daemon_stepE)
    have "daemon_inv L U H (Up t) (absStep L fs (ReorgReq refs (take k blocks) (Inr r)))"
      using step[OF daemon_step.reorg[OF t(1)]] assms(5) a by (simp add: feed_ok_take)
    then have "New L (rawDB t) = t" by (simp add: chain_inv_def)
    with resume_reorg[OF t(1)] a show ?thesis by (simp add: s' t(2))
  qed
  with inv show ?thesis by blast
qed

theorem crash_then_resume_witness:
  "chain_inv refLib exPairs exBlobs3 (New refLib (rawDB exStore1)) [exFrame1, genesis 10] \<and>
    snd (CommitChain refLib (New refLib (rawDB exStore1)) \<lparr>ccBlocks = [exBlock2]\<rparr>) = exStore2"
proof -
  obtain r where "CommitChain refLib exStore0 \<lparr>ccBlocks = take 1 [exBlock1, exBlock2]\<rparr> = (Inr r, exStore1)"
    using exCommit(2) by auto
  note crash = daemon_step.crash_commit[OF this]
  have "client_ok refLib exPairs exBlobs3 (Up exStore0) [genesis 10] (CrashCommit [exBlock1, exBlock2] 1)"
    using exFeed2 by (simp del: feed_ok.simps)
  from crash_then_resume[OF lib_refLib io_refLib exHash3_ok exReach0 this disjI1[OF conjI[OF refl refl]] crash daemon_step.start] exCommit(3) exPush(1)
  show ?thesis by (auto simp del: pushBlocks.simps)
qed


text \<open>C22: A reorganisation passes through states that queries observe: after the revert and each block, while the head
  cannot be read because the lock is held, a scan returns the entities of a chain that is neither the one before
  nor the one after.\<close>

theorem reorg_exposes_steps:
  assumes "lib_ok L" "io_ok L" "hash_ok L U H" "chain_inv L U H s fs" "refs_ok L s fs refs"
    "feed_ok L U H (afterRevert L s refs) (drop (length refs) fs) (before @ rest)"
    "\<exists>r. fst (commitBlocks L (afterRevert L s refs) 0 before) = Inr r" "CHR 0x00 \<notin> set key"
  shows "\<exists>m b. writer_steps L (s, ToRevert refs (before @ rest)) (m, ToApply rest) \<and>
    (\<forall>n. \<not> observes L (m, ToApply rest) (HeadNumberIs n)) \<and>
    observes L (m, ToApply rest) (NumericScanIs key lo hi b) \<and>
    bmSet L b = {i. \<exists>a e x. frTable (hd (pushBlocks L (drop (length refs) fs) before)) a = Some (i, e) \<and>
      pair key x \<in> set (allAnnotations L e) \<and> length x = 8 \<and> lo \<le> bytesUint64 x \<and> bytesUint64 x \<le> hi}"
proof -
  obtain m where m: "writer_steps L (s, ToRevert refs (before @ rest)) (m, ToApply rest)"
    "chain_inv L U H m (pushBlocks L (drop (length refs) fs) before)"
    using reorg_passes[OF assms(1-7)] by blast
  then have "store_inv L U H m (frTable (hd (pushBlocks L (drop (length refs) fs) before)))
      (frCount (hd (pushBlocks L (drop (length refs) fs) before)))" by (simp add: chain_inv_def)
  note scan = numeric_scan_table[OF assms(1,3) this assms(8), of lo hi]
  show ?thesis by (intro exI conjI, rule m(1)) (simp, simp, rule scan)
qed

theorem reorg_exposes_steps_witness:
  "\<exists>m b. writer_steps refLib (exStore0, ToRevert [] [exBlock1, exBlock2, exBlock3]) (m, ToApply [exBlock3]) \<and>
    observes refLib (m, ToApply [exBlock3]) (NumericScanIs ''size'' 3 7 b) \<and> bmSet refLib b = {1}"
proof -
  have v: "bytesUint64 (numericVal 5) = 5" by (simp add: numericVal_def)
  have c: "chain_inv refLib exPairs exBlobs3 exStore0 [genesis 10]"
    using reachable_inv[OF lib_refLib io_refLib exHash3_ok exReach0] by simp
  have r: "refs_ok refLib exStore0 [genesis 10] []"
    by (simp add: refs_ok_def exFrames_sel ids_current_empty)
  have a: "afterRevert refLib exStore0 [] = exStore0" by (simp add: afterRevert_def RevertBlocks_def)
  have f: "feed_ok refLib exPairs exBlobs3 (afterRevert refLib exStore0 []) (drop (length []) [genesis 10]) ([exBlock1, exBlock2] @ [exBlock3])"
    using exFeed by (simp add: a del: feed_ok.simps)
  have d: "\<exists>r. fst (commitBlocks refLib (afterRevert refLib exStore0 []) 0 [exBlock1, exBlock2]) = Inr r"
    using exCommit(1) a by (metis fst_conv)
  have "{i. \<exists>a e x. exTable a = Some (i, e) \<and> pair ''size'' x \<in> set (allAnnotations refLib e) \<and> length x = 8 \<and>
       3 \<le> bytesUint64 x \<and> bytesUint64 x \<le> 7} = {1}"
    by (auto simp: exTable_def exEntity_pairs v split: if_splits)
  moreover have "frTable (hd (pushBlocks refLib (drop (length []) [genesis 10]) [exBlock1, exBlock2])) = exTable"
    using exPush(2) by (simp add: exFrames_def exFrames_sel del: pushBlocks.simps)
  ultimately show ?thesis
    using reorg_exposes_steps[OF lib_refLib io_refLib exHash3_ok c r f d, of "''size''" 3 7]
    by (simp del: pushBlocks.simps observes_simps) blast
qed


text \<open>C24: A page read at the head while blocks are committed and reverted in between never grows beyond its size, and
  each of its data is an entity as some head had it between the first read and the last, though not all of the
  same head.\<close>

theorem concurrent_page_sound:
  assumes "lib_ok L" "io_ok L" "hash_ok L U H" "pair ''$all'' ''true'' \<in> U" "chain_inv L U H s fs"
    "sys_steps W L U H incl m \<lparr>syStore = s, syWriter = Free, syChain = fs, syHeads = {frTable (hd fs)},
       syReader = NextId [] it None []\<rparr> y"
  shows "length (readerData (syReader y)) \<le> unat m \<and>
    (\<forall>d \<in> set (readerData (syReader y)). \<exists>T \<in> syHeads y. liveDatum W L incl T d)"
proof -
  have "sys_inv W L U H incl m y"
    by (rule sys_steps_inv[OF assms(1-4,6)]) (simp add: sys_inv_def assms(5))
  moreover have "length (readerData r) \<le> pageUse r" for r by (cases r) simp_all
  ultimately show ?thesis unfolding sys_inv_def by (meson le_trans)
qed

text \<open>An entity is read, and then the block that created it is about to be reverted.\<close>

theorem concurrent_page_sound_witness:
  "\<exists>d y. sys_steps refWeb refLib exPairs exBlobs3 defaultIncludeData 200 (exReading (NextId [] [1] None [])) y \<and>
    syReader y = NextId [] [] (Some 1) [d] \<and> syChain y = [exFrame1, genesis 10] \<and>
    liveDatum refWeb refLib defaultIncludeData exTable d"
proof -
  obtain d y where y: "sys_steps refWeb refLib exPairs exBlobs3 defaultIncludeData 200 (exReading (NextId [] [1] None [])) y"
    "syReader y = NextId [] [] (Some 1) [d]" "syChain y = [exFrame1, genesis 10]" "syHeads y = {Map.empty, exTable}"
    using exReading_run by blast
  from concurrent_page_sound[OF lib_refLib io_refLib exHash3_ok exPairs_all exChain2 y(1)[unfolded exReading_def]] y(2,4)
  have "liveDatum refWeb refLib defaultIncludeData exTable d" by (auto simp: liveDatum_def)
  with y show ?thesis by blast
qed



text \<open>C26: A query of equalities and inclusions at an earlier block is isolated from the writers: however many blocks are
  committed, reverted and reorganised between any two of its calls or of the reads of a call (the \<open>i\<close>-th read of the
  \<open>k\<close>-th call is made at the moment \<open>t k i\<close>), and even while a reorganisation is under way, it returns the numbers of the entities that satisfied it at that block, as long as that block itself is not reverted.\<close>

theorem past_query_isolated:
  assumes "lib_ok L" "io_ok L" "hash_ok L U H" "pair ''$all'' ''true'' \<in> U"
    "shared_inv L U H (run 0)" "\<forall>k. shared_steps L U H (run k) (run (Suc k))"
    "\<forall>k. f \<in> set (shChain (run k))" "frNumber f \<noteq> 0" "\<forall>k. mono (t k)" "astOk (pointTerm U) ast"
  shows "\<exists>b k. EvaluateR L (frNumber f) ast (\<lambda>k. splitQuerier L (\<lambda>i. shStore (run (t k i)))) 0 = (Inr b, k) \<and>
    bmSet L b = {i. \<exists>a e. frTable f a = Some (i, e) \<and> satAST (allAnnotations L e) ast}"
  using past_query_on_run[of L U H run f t ast] assms by (auto simp: yields_def)

theorem past_query_isolated_witness:
  "\<exists>b k. EvaluateR refLib 2 (Some [[exNameTerm], [exNameTerm]])
      (\<lambda>k. splitQuerier refLib (\<lambda>i. shStore (exRun (k + i)))) 0 = (Inr b, k) \<and>
    bmSet refLib b = {1} \<and> frTable (hd (shChain (exRun 1))) = Map.empty"
proof -
  have f: "\<forall>k. exFrame2 \<in> set (shChain (exRun k))" "frNumber exFrame2 \<noteq> 0"
    by (simp_all add: exRun_def exFrames_def exFrames_sel)
  have ok: "astOk (pointTerm exPairs) (Some [[exNameTerm], [exNameTerm]])"
    using exAst_ok(2) by (simp add: astOk_def)
  have "satAST (allAnnotations refLib exEntity) (Some [[exNameTerm], [exNameTerm]])"
    using exEntity_sat(1) by (simp add: satAST_def exAst_def satTerms_def)
  then have "{i. \<exists>a e. exTable a = Some (i, e) \<and> satAST (allAnnotations refLib e) (Some [[exNameTerm], [exNameTerm]])} = {1}"
    by (auto simp: exTable_def split: if_splits)
  with past_query_isolated[OF lib_refLib io_refLib exHash3_ok exPairs_all exRun_inv(1) exRun_steps(1) f _ ok,
      of "\<lambda>k i. k + i"]
  show ?thesis by (simp add: exFrames_sel mono_def) (simp add: exRun_def pushFrame_def)
qed

text \<open>C27: A query at the head is not isolated: a negated equality reads the bitmap of the value at the head of its first
  call and subtracts it from all entities at the head of its second, so when a block is committed in between it returns
  an entity the block created although the entity has the value.\<close>

theorem head_query_mixes_heads:
  assumes "lib_ok L" "io_ok L" "hash_ok L U H" "pair ''$all'' ''true'' \<in> U"
    "shared_inv L U H (run 0)" "\<forall>k. shared_steps L U H (run k) (run (Suc k))"
    "\<forall>k. mono (t k)" "shWriter (run (t 0 0)) = Free" "shWriter (run (t 1 0)) = Free"
    "annotVal (eqValue e) = Inr v" "pair (eqVar e) v \<in> U" "eqIsNot e"
  shows "\<exists>b. evalEqualityR L 0 e (\<lambda>k. splitQuerier L (\<lambda>i. shStore (run (t k i)))) 0 = (Inr b, 2) \<and>
    bmSet L b = {i. (\<exists>a ent. frTable (hd (shChain (run (t 1 0)))) a = Some (i, ent)) \<and>
      \<not> (\<exists>a ent. frTable (hd (shChain (run (t 0 0)))) a = Some (i, ent) \<and>
        hasValue (allAnnotations L ent) (eqVar e) (\<lambda>x. x = v))}"
  using negated_at_two_heads[of L U H run t e v] assms by simp

theorem head_query_mixes_heads_witness:
  "\<exists>b. evalEqualityR refLib 0 exNotName (\<lambda>k. splitQuerier refLib (\<lambda>i. shStore (exRun0 (k + i)))) 0 = (Inr b, 2) \<and>
    bmSet refLib b = {1} \<and> exTable exAddr = Some (1, exEntity) \<and>
    satAST (allAnnotations refLib exEntity) (Some [[exNameTerm]])"
proof -
  have e: "annotVal (eqValue exNotName) = Inr ''bob''" "pair (eqVar exNotName) ''bob'' \<in> exPairs" "eqIsNot exNotName"
    by (simp_all add: exNotName_def exNameTerm_def annotVal_def exPairs_eq)
  have s: "satAST (allAnnotations refLib exEntity) (Some [[exNameTerm]])"
    using exEntity_sat(1) by (simp add: satAST_def exAst_def satTerms_def)
  have w: "\<forall>k. mono ((+) (k :: nat))" "shWriter (exRun0 (0 + 0)) = Free" "shWriter (exRun0 (1 + 0)) = Free"
    by (simp_all add: exRun0_def mono_def)
  have T: "frTable (hd (shChain (exRun0 0))) = Map.empty" "frTable (hd (shChain (exRun0 1))) = exTable"
    by (simp_all add: exRun0_def exFrames_def exFrames_sel)
  have "{i. \<exists>a ent. exTable a = Some (i, ent)} = {1}" "exTable exAddr = Some (1, exEntity)"
    by (auto simp: exTable_def split: if_splits)
  with head_query_mixes_heads[OF lib_refLib io_refLib exHash3_ok exPairs_all exRun_inv(2) exRun_steps(2) w e] s
  show ?thesis by (simp add: T T(2)[unfolded One_nat_def])
qed

section \<open>Queries as text\<close>

text \<open>C28: The tree of a query the parser accepts is well formed, as the rules of the lexer and the tags of the grammar
  make it: every leaf is exactly one comparison, its attribute is an identifier or a name with a dollar sign and has
  no NUL, no ordering comparison or pattern is of an address, a value is a string or a number and not both, and a
  list of values is not empty and has one type.\<close>

theorem parsed_tree_typed:
  assumes "parser_ok uc unq num P" "P q = Inr (Some x)"
  shows "list_all leafShape (leavesExpression x)"
  by (rule parser_shape[OF assms])

theorem parsed_tree_typed_witness:
  "refParseString ''!(size < 7 || $owner in (\"0xab\" \"0xcd\"))'' = Inr (Some exNegated) \<and>
    length (leavesExpression exNegated) = 2 \<and> list_all leafShape (leavesExpression exNegated)"
  using parsed_tree_typed[OF parser_refParseString exNegated_tree] exNegated_tree by (simp add: exNegated_def)

text \<open>C29: A query the parser accepts is normalised to a disjunction of non-empty conjunctions of terms that the
  evaluator can evaluate, each one comparison of an attribute with a value; the only other outcome is the nil
  pointer panic, exactly when some leaf compares \<open>$owner\<close>, \<open>$key\<close> or \<open>$creator\<close> with a number.\<close>

theorem parsed_query_normalises:
  assumes "parser_ok uc unq num P" "P q = Inr tree"
  shows "if \<exists>x. tree = Some x \<and> list_ex nilLeaf (leavesExpression x)
    then Parse P uni q = Inl (Panic ''nil pointer dereference'')
    else \<exists>ast. Parse P uni q = Inr ast \<and> astOk (\<lambda>t. pointTerm (astPairs ast) t \<or> scanTerm t) ast"
proof (cases "\<exists>x. tree = Some x \<and> list_ex nilLeaf (leavesExpression x)")
  case True
  then show ?thesis using Parse_parsed[OF assms, of uni] by (simp add: nilPanic_def)
next
  case False
  note p = Parse_parsed[OF assms, of uni, unfolded if_not_P[OF False]]
  from p[of "{}"] obtain ast where a: "Parse P uni q = Inr ast" by blast
  with p[of "astPairs ast"] show ?thesis unfolding if_not_P[OF False] by auto
qed

theorem parsed_query_normalises_witness:
  "Parse refParseString id ''$owner = 5'' = Inl (Panic ''nil pointer dereference'') \<and>
   (\<exists>ast. Parse refParseString id exQuery = Inr ast \<and> astOk (\<lambda>t. pointTerm (astPairs ast) t \<or> scanTerm t) ast)"
proof -
  have t: "refParseString ''$owner = 5'' = Inr (Some (Expression (OrExpression (AndExpression (EqualExpr None
     (Some \<lparr>eqVar = ''$owner'', eqIsNot = False, eqValue = \<lparr>valString = None, valNumber = Some 5\<rparr>\<rparr>)
     None None None None None None) []) [])))" by code_simp
  show ?thesis
    using parsed_query_normalises[OF parser_refParseString t, of id]
      parsed_query_normalises[OF parser_refParseString exQuery_tree, of id]
    by (simp add: nilLeaf_def addressVar_def exName_def exSize_def)
qed

section \<open>Normalisation of queries\<close>

definition exampleQuery :: Expression where
  "exampleQuery = Expression (OrExpression (AndExpression (parenExpr (Paren True (Expression (OrExpression
     (AndExpression (EqualExpr None (Some \<lparr>eqVar = ''$owner'', eqIsNot = False,
        eqValue = \<lparr>valString = Some ''0xAB'', valNumber = None\<rparr>\<rparr>) None None None None None None) [])
     [OrRHS (AndExpression (EqualExpr None None None (Some \<lparr>cmpVar = ''size'',
        cmpValue = \<lparr>valString = None, valNumber = Some 7\<rparr>\<rparr>) None None None None) [])])))) []) [])"

lemma exampleQuery_ok: "leavesOk id (leavesExpression exampleQuery)"
  by (simp add: exampleQuery_def leafOk_def normEqualExpr_def normEquality_def normVarValue_def addressVar_def
      derefString_def)

text \<open>C30: Normalising an expression whose leaves normalise returns a disjunctive normal form without empty
  conjunctions, and under every meaning of the leaves it is satisfied exactly when the expression holds, a
  negation being pushed to the leaves.\<close>

theorem normalize_correct:
  assumes "leavesOk uni (leavesExpression e)"
  shows "\<exists>t. normExpression uni e = Inr t \<and> [] \<notin> set t \<and>
    satTerms sem t = holdsExpression (leafHolds uni sem) True e"
  using norm_total(1)[OF assms] norm_meaning(1) norm_nonempty(1) by blast

theorem normalize_correct_witness:
  "\<exists>t. normExpression id exampleQuery = Inr t \<and> [] \<notin> set t \<and>
    satTerms (satTerm [pair ''$owner'' ''0xcd'', pair ''size'' (numericVal 9)]) t \<and>
    \<not> satTerms (satTerm [pair ''$owner'' ''0xcd'', pair ''size'' (numericVal 6)]) t"
proof -
  let ?ps = "\<lambda>n. satTerm [pair ''$owner'' ''0xcd'', pair ''size'' (numericVal n)]"
  have "toLower id ''0xAB'' = ''0xab''" by code_simp
  then have "holdsExpression (leafHolds id (?ps 9)) True exampleQuery"
    "\<not> holdsExpression (leafHolds id (?ps 6)) True exampleQuery"
    by (simp_all add: exampleQuery_def leafHolds_def normEqualExpr_def normEquality_def normVarValue_def addressVar_def
        derefString_def satTerm_def satCmp_def hasValue_def annotVal_def numericVal_def invEqualExpr_def invEquality_def
        invLessThan_def noTerm_def)
  with normalize_correct[OF exampleQuery_ok, of "?ps 9"] normalize_correct[OF exampleQuery_ok, of "?ps 6"]
  show ?thesis by auto
qed

section \<open>Scans\<close>

text \<open>C31: A numeric scan returns exactly the numbers of the live entities that carry the attribute with a value of
  eight bytes in the range.\<close>

theorem numeric_scan_exact:
  assumes "lib_ok L" "hash_ok L U H" "store_inv L U H s T n" "CHR 0x00 \<notin> set key"
  shows "bmSet L (IterateNumericAnnotBitmaps L s key lo hi) =
    {i. \<exists>a e x. T a = Some (i, e) \<and> pair key x \<in> set (allAnnotations L e) \<and> length x = 8 \<and>
       lo \<le> bytesUint64 x \<and> bytesUint64 x \<le> hi}"
  by (rule numeric_scan_table[OF assms])

theorem numeric_scan_exact_witness:
  "bmSet refLib (IterateNumericAnnotBitmaps refLib exStoreB ''size'' 3 7) = {1, 2}"
proof -
  have v: "bytesUint64 (numericVal 5) = 5" by (simp add: numericVal_def)
  have "{i. \<exists>a e x. exTable2 a = Some (i, e) \<and> pair ''size'' x \<in> set (allAnnotations refLib e) \<and> length x = 8 \<and>
       3 \<le> bytesUint64 x \<and> bytesUint64 x \<le> 7} = {1, 2}"
    using exAddr2_facts(2) by (auto simp: exTable2_def exTable_def exEntity_pairs v split: if_splits)
  with numeric_scan_exact[OF lib_refLib exHash2_ok exStoreB_inv(1), of "''size''" 3 7] show ?thesis by simp
qed

text \<open>C32: A string scan returns exactly the numbers of the live entities that carry the attribute with a non-empty
  value between the bounds, each of which may be missing, inclusive or exclusive.\<close>

theorem string_scan_exact:
  assumes "lib_ok L" "hash_ok L U H" "store_inv L U H s T n" "CHR 0x00 \<notin> set key"
  shows "bmSet L (IterateStringAnnotBitmaps L s key lo loIncl hi hiIncl) =
    {i. \<exists>a e x. T a = Some (i, e) \<and> pair key x \<in> set (allAnnotations L e) \<and> x \<noteq> [] \<and>
       (case lo of None \<Rightarrow> True | Some l \<Rightarrow> l < x \<or> l = x \<and> loIncl) \<and>
       (case hi of None \<Rightarrow> True | Some h \<Rightarrow> x < h \<or> x = h \<and> hiIncl)}"
proof -
  have rep: "headRep L s T" using assms by (auto simp: headRep_def)
  have "kv_ok L" "roaring_ok L" using assms(1) by blast+
  then show ?thesis
    by (auto simp: IterateString_set annotScan_table[OF rep assms(4)] collect_tableRel hasValue_iff aboveLo_def belowHi_def)
qed

theorem string_scan_exact_witness:
  "bmSet refLib (IterateStringAnnotBitmaps refLib exStoreB ''name'' (Some ''bob'') True (Some ''c'') False) = {1, 2}"
proof -
  have "{i. \<exists>a e x. exTable2 a = Some (i, e) \<and> pair ''name'' x \<in> set (allAnnotations refLib e) \<and> x \<noteq> [] \<and>
       (''bob'' < x \<or> ''bob'' = x \<and> True) \<and> (x < ''c'' \<or> x = ''c'' \<and> False)} = {1, 2}"
    using exAddr2_facts(2) by (auto simp: exTable2_def exTable_def exEntity_pairs less_char_def split: if_splits)
  with string_scan_exact[OF lib_refLib exHash2_ok exStoreB_inv(1), of "''name''" "Some ''bob''" True "Some ''c''" False]
  show ?thesis by simp
qed

text \<open>C33: The fast path for a pattern that is a literal prefix and a star, a range scan, returns what matching every
  value against the pattern returns.\<close>

theorem prefix_scan_is_glob_scan:
  assumes "kv_ok L" "roaring_ok L" "isPrefixGlob pattern = Some p"
  shows "bmSet L (IteratePrefixAnnotBitmaps L s key p) = bmSet L (IterateGlobAnnotBitmaps L s key pattern)"
proof -
  have g: "pattern \<noteq> []" "last pattern = CHR ''*''" "p = butlast pattern" "CHR ''*'' \<notin> set p" "CHR ''?'' \<notin> set p"
    using assms(3) by (auto simp: isPrefixGlob_def Let_def split: if_splits)
  have p: "pattern = p @ ''*''" "CHR ''*'' \<notin> set p" "CHR ''?'' \<notin> set p"
    using append_butlast_last_id[OF g(1)] g by simp_all
  show ?thesis unfolding p(1) by (rule IteratePrefix_IterateGlob[OF assms(1,2) p(2,3)])
qed

theorem prefix_scan_is_glob_scan_witness:
  "bmSet refLib (IteratePrefixAnnotBitmaps refLib exStoreB ''name'' ''bo'') =
    bmSet refLib (IterateGlobAnnotBitmaps refLib exStoreB ''name'' ''bo*'')"
  by (rule prefix_scan_is_glob_scan[OF kv_refLib roaring_refLib]) (simp add: isPrefixGlob_def)

text \<open>C34: The upper bound of a prefix scan is exact: a string has the prefix exactly when it lies between the
  prefix and its successor, with no upper bound when the prefix has no successor.\<close>

theorem prefixSuccessor_exact:
  "prefix p v \<longleftrightarrow> p \<le> v \<and> (case prefixSuccessor p of None \<Rightarrow> True | Some h \<Rightarrow> v < h)"
  by (rule prefixSuccessor_interval)

text \<open>C35: The matcher, which collapses runs of stars and tries suffixes, decides the language of the
  pattern.\<close>

theorem globMatch_correct: "globMatch p s = globSpec p s"
  by (rule globMatch_globSpec)

section \<open>Lookups and pages\<close>

text \<open>C36: Looking an entity up by its address returns the requested fields of the entity at that block, or the
  error that it was not found.\<close>

theorem GetEntityByAddress_exact:
  assumes "blockRep L U s (getAtBlock opts) T"
  shows "GetEntityByAddress W L (storeBackend L s) a opts =
    (case T a of Some (i, e) \<Rightarrow> Inr (entityData W L (getIncludeData opts) e)
     | None \<Rightarrow> Inl (Errorf ''entity not found: %s''))"
  using GetEntityByAddress_store[OF assms] by (cases "T a") auto

theorem GetEntityByAddress_exact_witness:
  "GetEntityByAddress refWeb refLib (storeBackend refLib exStore2) exAddr None =
     Inr (entityData refWeb refLib defaultIncludeData exEntity)"
proof -
  have "blockRep refLib exPairs exStore2 (getAtBlock None) exTable"
    using blockRep_head[OF lib_refLib exPairs_all exStore2_inv(1)] by (simp add: getAtBlock_def)
  from GetEntityByAddress_exact[OF this] show ?thesis by (simp add: exTable_def getIncludeData_def)
qed

text \<open>C37: No response holds more than 200 entities, whatever page size was asked for and whatever the backend
  and the libraries do.\<close>

theorem Query_page_bound:
  assumes "Query W ParseString L be q opts = Inr r"
  shows "length (qrData r) \<le> min 200 (unat (getResultsPerPage opts)) \<and> unat (getResultsPerPage opts) \<le> 200"
proof -
  have m: "getResultsPerPage opts \<le> 200"
    by (auto simp: getResultsPerPage_def queryResultCountLimit_def split: option.split)
  obtain it ids l where "queryLoop W L be (getAtBlock opts) (getIncludeData opts) (getResultsPerPage opts) ids (None, [])
      = Inr (it, l, qrData r)"
    using assms by (auto simp: Query_def andThen_eq_Inr Let_def)
  from queryLoop_length[OF m this] have "length (qrData r) \<le> unat (getResultsPerPage opts)" by simp
  moreover have "unat (getResultsPerPage opts) \<le> 200" using m by (simp add: word_le_nat_alt)
  ultimately show ?thesis by simp
qed

theorem Query_page_bound_witness:
  "\<exists>r. Query refWeb refParseString refLib (storeBackend refLib exStoreB) exQuery (Some exOpt) = Inr r \<and> length (qrData r) \<le> 1"
proof -
  obtain r where r: "Query refWeb refParseString refLib (storeBackend refLib exStoreB) exQuery (Some exOpt) = Inr r"
    using Query_head[OF lib_refLib web_refWeb exHash2_ok exStoreB_inv(1) exPairs_all exParse_ok exAst_ok(1) exOpt_facts(1,2)]
    by blast
  from Query_page_bound[OF r] r show ?thesis by (auto simp: exOpt_facts)
qed

section \<open>Reverts that return\<close>

text \<open>C38: A revert whose ancestor's parent entry and root are there returns, when the database accepts the write.\<close>

theorem revert_terminates_normally:
  assumes "lib_ok L" "io_ok L" "rd L (rawDB s) (parentKey (refHash (last refs))) = Some pb" "refs \<noteq> []"
    "root_ok L U (rd L (rawDB s)) (ancestorRootOf L (rd L (rawDB s)) (BytesToHash pb)) Tp np"
  shows "\<exists>s'. RevertBlocks L s refs = (Inr (headRoot s'), s') \<and> HeadHash s' = BytesToHash pb"
proof -
  obtain s' where s': "revertToAncestor L s refs = Inr s'" using revert_returns[OF assms] by blast
  have "headHash s' = BytesToHash pb"
  proof (cases rule: revertToAncestor_view[OF lib_okD(1)[OF assms(1)] s'])
    case 1
    then show ?thesis using assms(3) by simp
  qed
  then show ?thesis using s' assms(4) by (simp add: RevertBlocks_def HeadHash_def)
qed

theorem revert_terminates_normally_witness:
  "\<exists>s. RevertBlocks refLib exStore2 [exRef] = (Inr (headRoot s), s) \<and> HeadHash s = 11"
proof -
  have "root_ok refLib exPairs (rd refLib (rawDB exStore2))
      (ancestorRootOf refLib (rd refLib (rawDB exStore2)) (BytesToHash (hashBytes 11))) Map.empty 0"
    using exOldRoot exParent(2) by (simp add: ancestorRootOf_def)
  from revert_terminates_normally[OF lib_refLib io_refLib exParent(1) _ this] show ?thesis by auto
qed

section \<open>Keys and values\<close>

text \<open>C39: The keys of the annotation and existence indexes keep apart pairs whose keys contain no NUL, and confuse two
  pairs when a key does contain one.\<close>

theorem annotation_keys:
  assumes "CHR 0x00 \<notin> set k" "CHR 0x00 \<notin> set k'"
  shows "(annotKey k v = annotKey k' v' \<longleftrightarrow> k = k' \<and> v = v') \<and> (pairsKey k v = pairsKey k' v' \<longleftrightarrow> k = k' \<and> v = v') \<and>
    annotKey (k @ CHR 0x00 # x) v = annotKey k (x @ CHR 0x00 # v)"
  using annotKey_inject[OF assms] pairsKey_inject[OF assms] by (simp add: annotKey_def)

theorem annotation_keys_witness:
  "annotKey ''a'' ''b'' \<noteq> annotKey ''ab'' [] \<and> annotKey [CHR ''a'', CHR 0x00, CHR ''x''] ''b'' = annotKey ''a'' [CHR ''x'', CHR 0x00, CHR ''b'']"
  using annotation_keys[of "''a''" "''ab''" "''b''" "[]" "''x''"] annotation_keys[of "''a''" "''a''" "''b''" "''b''" "''x''"] by simp

section \<open>Wire format\<close>



end
